(* ===== verification/Prelude.thy ===== *)
theory Prelude
  imports "HOL-Library.Word"
begin

text \<open>
  Shared vocabulary of the development: the machine types of the C and C++ sources (LP64:
  \<open>unsigned long\<close> and \<open>size_t\<close> have 64 bits, \<open>unsigned int\<close> has 32), undefined behaviour
  and failed assertions as values, C strings over bytes, the wrap-around of \<open>size_t\<close>, and the
  generic lemmas on them that the components use.
\<close>

section \<open>Machine types\<close>

type_synonym u8 = "8 word"
type_synonym u32 = "32 word"
type_synonym u64 = "64 word"
type_synonym bytes = "8 word list"

named_theorems fault_simps \<open>evaluation of computations that may fault\<close>

section \<open>Faults\<close>

text \<open>
  What the language leaves undefined, and what stops the process, is a value: reading or
  writing outside an object, dereferencing a null pointer, touching freed memory, a failed
  \<open>assert\<close> and a call to \<open>exit\<close>.
\<close>

datatype fault = OutOfBounds | NullDeref | UseAfterFree | AssertFail | ExitCall int

definition fault_bind :: "fault + 'a \<Rightarrow> ('a \<Rightarrow> fault + 'b) \<Rightarrow> fault + 'b" where
  "fault_bind r f = (case r of Inl e \<Rightarrow> Inl e | Inr x \<Rightarrow> f x)"

lemma fault_bind_simps [simp, fault_simps]:
  "fault_bind (Inl e) f = Inl e"
  "fault_bind (Inr x) f = f x"
  by (simp_all add: fault_bind_def)

lemma fault_bind_Inr_right [simp]: "fault_bind r Inr = r"
  by (cases r) (simp_all add: fault_bind_def)

lemma fault_bind_Inr_iff [fault_simps]:
  "fault_bind r f = Inr y \<longleftrightarrow> (\<exists>x. r = Inr x \<and> f x = Inr y)"
  by (cases r) auto

lemma fault_bind_InrE:
  assumes "fault_bind r f = Inr y"
  obtains x where "r = Inr x" "f x = Inr y"
  using assms by (cases r) auto

lemma fault_bind_assoc:
  "fault_bind (fault_bind r f) g = fault_bind r (\<lambda>x. fault_bind (f x) g)"
  by (cases r) auto

lemma fault_bind_cong [fundef_cong]:
  "r = r' \<Longrightarrow> (\<And>x. r' = Inr x \<Longrightarrow> f x = f' x) \<Longrightarrow> fault_bind r f = fault_bind r' f'"
  by (cases r') auto

lemma fault_bind_split_Inr:
  assumes "r = Inr x" and "f x = Inr y"
  shows "fault_bind r f = Inr y"
  using assms by simp

text \<open>A computation that never faults: the form of the memory-safety lemmas.\<close>

definition no_fault :: "fault + 'a \<Rightarrow> bool" where
  "no_fault r \<longleftrightarrow> (\<exists>x. r = Inr x)"

lemma no_fault_simps [simp]:
  "no_fault (Inr x)"
  "\<not> no_fault (Inl e)"
  by (auto simp: no_fault_def)

text \<open>Running an operation over a list of inputs, stopping at the first fault.\<close>

fun fault_fold :: "('a \<Rightarrow> 's \<Rightarrow> fault + 's) \<Rightarrow> 'a list \<Rightarrow> 's \<Rightarrow> fault + 's" where
  "fault_fold f [] s = Inr s"
| "fault_fold f (x # xs) s = fault_bind (f x s) (fault_fold f xs)"

lemma fault_fold_append:
  "fault_fold f (xs @ ys) s = fault_bind (fault_fold f xs s) (fault_fold f ys)"
proof (induction xs arbitrary: s)
  case Nil
  then show ?case by simp
next
  case (Cons x xs)
  then show ?case by (cases "f x s") auto
qed

lemma fault_fold_invariant:
  assumes step: "\<And>x s s'. x \<in> set xs \<Longrightarrow> P s \<Longrightarrow> f x s = Inr s' \<Longrightarrow> P s'"
    and "P s" and "fault_fold f xs s = Inr s'"
  shows "P s'"
  using assms
proof (induction xs arbitrary: s)
  case Nil
  then show ?case by simp
next
  case (Cons x xs)
  from Cons.prems(3) obtain s1 where s1: "f x s = Inr s1" "fault_fold f xs s1 = Inr s'"
    by (auto simp: fault_bind_Inr_iff)
  have "P s1" using Cons.prems(1)[of x s s1] Cons.prems(2) s1(1) by simp
  with Cons.prems(1) s1(2) show ?case by (intro Cons.IH) auto
qed

lemma fault_fold_total:
  assumes "\<And>x s. x \<in> set xs \<Longrightarrow> P s \<Longrightarrow> \<exists>s'. f x s = Inr s' \<and> P s'" and "P s"
  shows "\<exists>s'. fault_fold f xs s = Inr s' \<and> P s'"
  using assms
proof (induction xs arbitrary: s)
  case Nil
  then show ?case by simp
next
  case (Cons x xs)
  from Cons.prems(1)[of x s] Cons.prems(2) obtain s1 where "f x s = Inr s1" "P s1" by auto
  with Cons.IH[of s1] Cons.prems(1) show ?case by auto
qed

section \<open>The wrap-around of size_t\<close>

text \<open>
  Sizes are \<open>nat\<close>; the one place where the sources decrement an unsigned size that may be
  zero goes through \<open>size_pred\<close>, which wraps to \<open>SIZE_MAX\<close> as the machine does.
\<close>

definition SIZE_MAX :: nat where
  "SIZE_MAX = 2 ^ 64 - 1"

definition size_pred :: "nat \<Rightarrow> nat" where
  "size_pred n = (if n = 0 then SIZE_MAX else n - 1)"

lemma size_pred_simps [simp]:
  "size_pred 0 = SIZE_MAX"
  "size_pred (Suc n) = n"
  "0 < n \<Longrightarrow> size_pred n = n - 1"
  by (simp_all add: size_pred_def)

lemma size_pred_word: "n < 2 ^ 64 \<Longrightarrow> size_pred n = unat (of_nat n - 1 :: u64)"
proof (cases n)
  case 0
  then show ?thesis by (simp add: SIZE_MAX_def unsigned_minus_1_eq_mask mask_eq_exp_minus_1)
next
  case (Suc m)
  moreover assume "n < 2 ^ 64"
  ultimately show ?thesis by (simp add: unat_of_nat)
qed

text \<open>Widening a 32-bit value and narrowing it again gives it back.\<close>

lemma ucast_u32_u64_u32 [simp]: "ucast (ucast (w :: u32) :: u64) = w"
  by (rule bit_word_eqI) (auto simp: bit_simps)

section \<open>C strings\<close>

text \<open>
  A \<open>char *\<close> into an object is the list of the object's bytes from the pointer on; reading
  the string stops at the first NUL and leaves the object when there is none.
\<close>

fun c_string :: "bytes \<Rightarrow> fault + bytes" where
  "c_string [] = Inl OutOfBounds"
| "c_string (c # cs) =
     (if c = 0 then Inr [] else fault_bind (c_string cs) (\<lambda>s. Inr (c # s)))"

text \<open>\<open>std::string::c_str()\<close> seen as a C string: what precedes the first NUL.\<close>

definition c_str :: "bytes \<Rightarrow> bytes" where
  "c_str s = takeWhile (\<lambda>c. c \<noteq> 0) s"

definition nul_free :: "bytes \<Rightarrow> bool" where
  "nul_free s \<longleftrightarrow> (0 \<notin> set s)"

lemma nul_free_c_str [simp]: "nul_free (c_str s)"
  unfolding nul_free_def c_str_def by (auto dest: set_takeWhileD)

lemma c_str_nul_free [simp]: "nul_free s \<Longrightarrow> c_str s = s"
  unfolding nul_free_def c_str_def by (subst takeWhile_eq_all_conv) blast

lemma nul_free_simps [simp]:
  "nul_free []"
  "nul_free (c # s) \<longleftrightarrow> c \<noteq> 0 \<and> nul_free s"
  "nul_free (s @ t) \<longleftrightarrow> nul_free s \<and> nul_free t"
  by (auto simp: nul_free_def)

lemma c_string_nul_free: "nul_free s \<Longrightarrow> c_string (s @ 0 # rest) = Inr s"
  by (induction s) auto

lemma c_string_c_str: "c_string (s @ 0 # rest) = Inr (c_str s)"
  by (induction s) (auto simp: c_str_def)

definition ascii :: "string \<Rightarrow> bytes" where
  "ascii s = map of_char s"

lemma ascii_append: "ascii (s @ t) = ascii s @ ascii t"
  by (simp add: ascii_def)

end
