(* ===== verification/Byte_Order.thy ===== *)
theory Byte_Order
  imports Prelude
begin

text \<open>
  How the machines of the program lay integers out in memory (both targets, x86-64 and the
  OMAP4460, are little-endian) and the byte-order functions \<open>htonl\<close> and \<open>ntohl\<close> of
  \<open>arpa/inet.h\<close> that packet.cpp calls. The lemmas show that the composition used there,
  storing \<open>htonl x\<close> through a \<open>uint32_t *\<close>, writes the most significant byte first.
\<close>

unbundle bit_operations_syntax

section \<open>Little-endian memory\<close>

definition bytes_of_u32 :: "u32 \<Rightarrow> bytes" where
  "bytes_of_u32 w = [ucast w, ucast (drop_bit 8 w), ucast (drop_bit 16 w), ucast (drop_bit 24 w)]"

definition u32_of_bytes :: "u8 \<Rightarrow> u8 \<Rightarrow> u8 \<Rightarrow> u8 \<Rightarrow> u32" where
  "u32_of_bytes a b c d =
     ucast a OR push_bit 8 (ucast b) OR push_bit 16 (ucast c) OR push_bit 24 (ucast d)"

lemma bit_u32_of_bytes:
  "bit (u32_of_bytes a b c d) n \<longleftrightarrow>
     n < 32 \<and> (if n < 8 then bit a n else if n < 16 then bit b (n - 8)
             else if n < 24 then bit c (n - 16) else bit d (n - 24))"
proof -
  have len: "bit x m \<Longrightarrow> m < 8" for x :: u8 and m
    using bit_imp_le_length[of x m] by simp
  show ?thesis
    unfolding u32_of_bytes_def by (auto simp: bit_simps dest: len)
qed

lemma bit_low_byte_of_u32: "bit (ucast w :: u8) n \<longleftrightarrow> n < 8 \<and> bit (w :: u32) n"
  by (auto simp: bit_simps dest: bit_imp_le_length)

lemmas byte_bits = bit_u32_of_bytes bit_low_byte_of_u32 bit_drop_bit_eq

definition load32 :: "bytes \<Rightarrow> fault + u32" where
  "load32 ms = (case ms of a # b # c # d # _ \<Rightarrow> Inr (u32_of_bytes a b c d) | _ \<Rightarrow> Inl OutOfBounds)"

lemma length_bytes_of_u32 [simp]: "length (bytes_of_u32 w) = 4"
  by (simp add: bytes_of_u32_def)

lemma load32_bytes [simp]: "load32 (bytes_of_u32 w @ rest) = Inr w"
proof -
  have "u32_of_bytes (ucast w) (ucast (drop_bit 8 w)) (ucast (drop_bit 16 w)) (ucast (drop_bit 24 w)) = w"
    by (rule bit_word_eqI) (auto simp: byte_bits)
  then show ?thesis by (simp add: load32_def bytes_of_u32_def)
qed

lemma load32_in_bounds: "4 \<le> length ms \<Longrightarrow> \<exists>w. load32 ms = Inr w"
  by (auto simp: load32_def split: list.splits)

section \<open>htonl and ntohl\<close>

definition htonl :: "u32 \<Rightarrow> u32" where
  "htonl w = u32_of_bytes (ucast (drop_bit 24 w)) (ucast (drop_bit 16 w)) (ucast (drop_bit 8 w)) (ucast w)"

definition ntohl :: "u32 \<Rightarrow> u32" where
  "ntohl w = u32_of_bytes (ucast (drop_bit 24 w)) (ucast (drop_bit 16 w)) (ucast (drop_bit 8 w)) (ucast w)"

lemma bit_htonl:
  "bit (htonl w) n \<longleftrightarrow>
     (if n < 8 then bit w (24 + n) else if n < 16 then bit w (8 + n)
      else if n < 24 then bit w (n - 8) else n < 32 \<and> bit w (n - 24))"
  unfolding htonl_def by (auto simp: byte_bits)

lemma ntohl_htonl [simp]: "ntohl (htonl w) = w"
  unfolding ntohl_def by (rule bit_word_eqI) (auto simp: byte_bits bit_htonl)

text \<open>Bytes on the wire: most significant first.\<close>

definition net32 :: "u32 \<Rightarrow> bytes" where
  "net32 w = bytes_of_u32 (htonl w)"

lemma length_net32 [simp]: "length (net32 w) = 4"
  by (simp add: net32_def)

lemma net32_big_endian:
  "net32 w = [ucast (drop_bit 24 w), ucast (drop_bit 16 w), ucast (drop_bit 8 w), ucast w]"
  unfolding net32_def bytes_of_u32_def
  by (auto intro!: bit_word_eqI simp: byte_bits bit_htonl)

definition load_net32 :: "bytes \<Rightarrow> fault + u32" where
  "load_net32 ms = fault_bind (load32 ms) (\<lambda>w. Inr (ntohl w))"

lemma load_net32_net32 [simp, fault_simps]: "load_net32 (net32 w @ rest) = Inr w"
  by (simp add: load_net32_def net32_def)

lemma load_net32_in_bounds: "4 \<le> length ms \<Longrightarrow> \<exists>w. load_net32 ms = Inr w"
  using load32_in_bounds[of ms] by (auto simp: load_net32_def)

end
