(* ===== verification/Sample_Buffer.thy ===== *)
theory Sample_Buffer
  imports Prelude
begin

text \<open>
  The data shared by the kernel module and the user-space programs, module/sample_buffer.h: one
  counter sample, and the page-sized buffer of samples that \<open>/dev/pmu_samples\<close> hands out.
  \<open>nextBuffer\<close> is a kernel address, used for linked lists inside the module only.
\<close>

section \<open>Records\<close>

type_synonym addr = nat

record sample =
  s_cycles :: u64
  s_pid :: u64
  s_counters :: "u32 list"

record buffer =
  b_core :: u32
  b_num_samples :: u32
  b_nextBuffer :: "addr option"
  b_samples :: "sample list"

section \<open>Sizes\<close>

definition BUFFER_SIZE :: nat where
  "BUFFER_SIZE = 4 * 1024"

definition sizeof_sample :: nat where
  "sizeof_sample = 8 + 8 + 6 * 4"

definition BUFFER_ENTRIES :: nat where
  "BUFFER_ENTRIES = (BUFFER_SIZE - 12) div sizeof_sample"

definition sizeof_buffer :: nat where
  "sizeof_buffer = 4 + 4 + 8 + BUFFER_ENTRIES * sizeof_sample"

lemma BUFFER_ENTRIES_eq: "BUFFER_ENTRIES = 102"
  by (simp add: BUFFER_ENTRIES_def BUFFER_SIZE_def sizeof_sample_def)

lemma sizeof_buffer_eq: "sizeof_buffer = 4096"
  by (simp add: sizeof_buffer_def BUFFER_ENTRIES_eq sizeof_sample_def)

section \<open>Well-formed values\<close>

definition wf_sample :: "sample \<Rightarrow> bool" where
  "wf_sample s \<longleftrightarrow> length (s_counters s) = 6"

definition wf_buffer :: "buffer \<Rightarrow> bool" where
  "wf_buffer b \<longleftrightarrow> length (b_samples b) = BUFFER_ENTRIES \<and> (\<forall>s \<in> set (b_samples b). wf_sample s)"

text \<open>The zero-filled sample that \<open>memset\<close> and \<open>kzalloc\<close> leave.\<close>

definition zero_sample :: sample where
  "zero_sample = \<lparr>s_cycles = 0, s_pid = 0, s_counters = replicate 6 0\<rparr>"

lemma wf_zero_sample [simp]: "wf_sample zero_sample"
  by (simp add: wf_sample_def zero_sample_def)

text \<open>The samples a buffer really holds.\<close>

definition filled :: "buffer \<Rightarrow> sample list" where
  "filled b = take (unat (b_num_samples b)) (b_samples b)"

lemma wf_filled: "wf_buffer b \<Longrightarrow> s \<in> set (filled b) \<Longrightarrow> wf_sample s"
  unfolding filled_def wf_buffer_def by (auto dest: in_set_takeD)

section \<open>Indexing\<close>

text \<open>\<open>samples[i]\<close>: an index outside the array is a fault.\<close>

definition sample_at :: "sample list \<Rightarrow> nat \<Rightarrow> fault + sample" where
  "sample_at buf i = (if i < length buf then Inr (buf ! i) else Inl OutOfBounds)"

text \<open>Looping over the indices of an array is looping over its prefix.\<close>

lemma fold_sample_at:
  "n \<le> length ss \<Longrightarrow>
   fault_fold (\<lambda>i s. fault_bind (sample_at ss i) (\<lambda>c. f c s)) [0..<n] s = fault_fold f (take n ss) s"
proof (induction n arbitrary: s)
  case 0
  then show ?case by simp
next
  case (Suc n)
  then have "sample_at ss n = Inr (ss ! n)" "n \<le> length ss" by (simp_all add: sample_at_def)
  with Suc show ?case
    by (simp add: fault_fold_append take_Suc_conv_app_nth fault_bind_def split: sum.split)
qed

end
