(* ===== verification/Printf.thy ===== *)
theory Printf
  imports Prelude
begin

text \<open>
  The conversions of the C library that the sources use on numbers: \<open>%u\<close> and \<open>%lu\<close> (unsigned
  decimal), \<open>%d\<close> (signed decimal) and \<open>atoi\<close>, over bytes.
\<close>

section \<open>Punctuation\<close>

definition newline :: bytes where
  "newline = [10]"

definition comma :: bytes where
  "comma = [44]"

fun comma_separated :: "bytes list \<Rightarrow> bytes" where
  "comma_separated [] = []"
| "comma_separated [x] = x"
| "comma_separated (x # xs) = x @ comma @ comma_separated xs"

section \<open>Unsigned decimal\<close>

definition digit :: "nat \<Rightarrow> u8" where
  "digit d = of_nat (48 + d)"

fun dec :: "nat \<Rightarrow> bytes" where
  "dec n = (if n < 10 then [digit n] else dec (n div 10) @ [digit (n mod 10)])"

declare dec.simps [simp del]

definition is_digit :: "u8 \<Rightarrow> bool" where
  "is_digit c \<longleftrightarrow> 48 \<le> c \<and> c \<le> 57"

definition digit_value :: "u8 \<Rightarrow> nat" where
  "digit_value c = unat c - 48"

lemma unat_digit: "d < 10 \<Longrightarrow> unat (digit d) = 48 + d"
  unfolding digit_def by (simp add: unat_of_nat del: of_nat_add)

lemma is_digit_digit [simp]: "d < 10 \<Longrightarrow> is_digit (digit d)"
  by (simp add: is_digit_def word_le_nat_alt unat_digit)

lemma digit_value_digit [simp]: "d < 10 \<Longrightarrow> digit_value (digit d) = d"
  by (simp add: digit_value_def unat_digit)

lemma not_is_digit_0 [simp]: "\<not> is_digit 0"
  by (simp add: is_digit_def)

lemma dec_nonempty [simp]: "dec n \<noteq> []"
  by (subst dec.simps) simp

lemma dec_digits: "c \<in> set (dec n) \<Longrightarrow> is_digit c"
proof (induction n rule: dec.induct)
  case (1 n)
  show ?case
  proof (cases "n < 10")
    case True
    with 1 show ?thesis by (simp add: dec.simps [of n])
  next
    case False
    with 1 show ?thesis by (auto simp: dec.simps [of n])
  qed
qed

lemma nul_free_dec [simp]: "nul_free (dec n)"
  unfolding nul_free_def using dec_digits[of 0 n] by auto

lemma length_dec: "n < 10 ^ k \<Longrightarrow> 0 < k \<Longrightarrow> length (dec n) \<le> k"
proof (induction k arbitrary: n)
  case 0
  then show ?case by simp
next
  case (Suc k)
  show ?case
  proof (cases "n < 10")
    case True
    then show ?thesis by (simp add: dec.simps [of n])
  next
    case False
    with Suc.prems have k: "0 < k" by (cases k) auto
    from Suc.prems have "n div 10 < 10 ^ k" by (simp add: less_mult_imp_div_less mult.commute)
    with Suc.IH k have "length (dec (n div 10)) \<le> k" by blast
    with False show ?thesis by (simp add: dec.simps [of n])
  qed
qed

section \<open>Signed decimal\<close>

definition dec_int :: "int \<Rightarrow> bytes" where
  "dec_int i = (if i < 0 then 45 # dec (nat (- i)) else dec (nat i))"

lemma dec_int_of_nat [simp]: "dec_int (int n) = dec n"
  by (simp add: dec_int_def)

section \<open>atoi\<close>

text \<open>
  \<open>atoi\<close> skips white space, takes an optional sign and reads digits up to the first other
  byte; a string without digits is 0.  Values are mathematical integers here; what a value
  outside the range of \<open>int\<close> does is undefined in C and no caller in this program relies on it.
\<close>

definition is_space :: "u8 \<Rightarrow> bool" where
  "is_space c \<longleftrightarrow> c = 32 \<or> (9 \<le> c \<and> c \<le> 13)"

fun digits_value :: "nat \<Rightarrow> bytes \<Rightarrow> nat" where
  "digits_value acc [] = acc"
| "digits_value acc (c # cs) =
     (if is_digit c then digits_value (10 * acc + digit_value c) cs else acc)"

definition atoi :: "bytes \<Rightarrow> int" where
  "atoi s = (case dropWhile is_space s of
       [] \<Rightarrow> 0
     | c # cs \<Rightarrow> if c = 45 then - int (digits_value 0 cs)
                else if c = 43 then int (digits_value 0 cs)
                else int (digits_value 0 (c # cs)))"

lemma digits_value_append:
  "\<forall>c \<in> set ds. is_digit c \<Longrightarrow> digits_value acc (ds @ cs) = digits_value (digits_value acc ds) cs"
  by (induction ds arbitrary: acc) auto

lemma digits_value_dec: "digits_value 0 (dec n) = n"
proof (induction n rule: dec.induct)
  case (1 n)
  show ?case
  proof (cases "n < 10")
    case True
    then show ?thesis by (simp add: dec.simps [of n])
  next
    case False
    have "digits_value 0 (dec (n div 10) @ [digit (n mod 10)]) = n"
      using 1 False by (subst digits_value_append) (auto dest: dec_digits)
    with False show ?thesis by (simp add: dec.simps [of n])
  qed
qed

lemma is_digit_not_special: "is_digit c \<Longrightarrow> \<not> is_space c \<and> c \<noteq> 45 \<and> c \<noteq> 43"
  unfolding is_digit_def is_space_def by (auto simp: word_le_nat_alt)

lemma atoi_dec: "(\<forall>c cs. rest = c # cs \<longrightarrow> \<not> is_digit c) \<Longrightarrow> atoi (dec n @ rest) = int n"
proof -
  assume rest: "\<forall>c cs. rest = c # cs \<longrightarrow> \<not> is_digit c"
  obtain c cs where d: "dec n = c # cs" by (cases "dec n") auto
  have c: "is_digit c" by (rule dec_digits[of _ n]) (simp add: d)
  have stop: "digits_value acc rest = acc" for acc
    using rest by (cases rest) auto
  have "digits_value 0 (dec n @ rest) = n"
    by (subst digits_value_append) (auto simp: digits_value_dec stop dest: dec_digits)
  with c is_digit_not_special[OF c] show ?thesis
    by (simp add: atoi_def d)
qed

lemma atoi_empty [simp]: "atoi [] = 0"
  by (simp add: atoi_def)

lemma dec_inject: "dec m = dec n \<Longrightarrow> m = n"
  by (metis digits_value_dec)

end
