(* ===== verification/Process_Info.thy ===== *)
theory Process_Info
  imports Sample_Buffer Printf
begin

text \<open>
  sender/process_info.cpp: the table of processes the sender has seen. A pid is looked up in
  /proc the first time it occurs; a lookup that failed is repeated a bounded number of times,
  and so is the lookup of an Android zygote, whose name changes once it specialises.
  /proc itself is the parameter \<open>proc_fs\<close>: what opening a file and reading a link give.
\<close>

section \<open>Data\<close>

datatype proc_mode = Unknown | Kernel | User

record ProcessInfo =
  pi_pid :: u32
  zygote_flag :: int
  zygote_checks :: int
  cmdexe_flag :: int
  cmdexe_checks :: int
  pi_mode :: proc_mode
  pi_cmdline :: bytes
  pi_executable :: bytes

definition PROCESS_INFO_FLAG_CHECKS :: int where
  "PROCESS_INFO_FLAG_CHECKS = 10"

definition new_ProcessInfo :: ProcessInfo where
  "new_ProcessInfo =
     \<lparr>pi_pid = 0,
      zygote_flag = 0, zygote_checks = PROCESS_INFO_FLAG_CHECKS,
      cmdexe_flag = 0, cmdexe_checks = PROCESS_INFO_FLAG_CHECKS,
      pi_mode = Unknown, pi_cmdline = [], pi_executable = []\<rparr>"

record proc_table =
  procMap :: "u64 \<Rightarrow> ProcessInfo option"
  earliest_zygote :: u64

definition empty_proc_table :: proc_table where
  "empty_proc_table = \<lparr>procMap = (\<lambda>_. None), earliest_zygote = 0\<rparr>"

section \<open>Reading /proc\<close>

text \<open>
  Opening a stream on a file may fail, reading it to its end may throw
  \<open>ios_base::failure\<close>; \<open>readlink\<close> returns a length or a negative number.
\<close>

datatype stream_read = StreamFail | StreamThrows | StreamContent bytes

record proc_fs =
  fs_stream :: "bytes \<Rightarrow> stream_read"
  fs_readlink :: "bytes \<Rightarrow> bytes option"

text \<open>\<open>snprintf(&file[0], 256, "/proc/%lu/...", pid)\<close>: at most 255 bytes and a NUL.\<close>

definition proc_path :: "u64 \<Rightarrow> string \<Rightarrow> bytes" where
  "proc_path pid name = take 255 (ascii ''/proc/'' @ dec (unat pid) @ ascii ''/'' @ ascii name)"

definition read_cmdline :: "proc_fs \<Rightarrow> u64 \<Rightarrow> int \<times> bytes" where
  "read_cmdline fs pid =
     (case fs_stream fs (proc_path pid ''cmdline'') of
        StreamFail \<Rightarrow> (1, ascii ''ifstream::fail()'')
      | StreamContent s \<Rightarrow> (0, s)
      | StreamThrows \<Rightarrow> (1, ascii ''ios_base::failure''))"

definition read_executable :: "proc_fs \<Rightarrow> u64 \<Rightarrow> int \<times> bytes" where
  "read_executable fs pid =
     (case fs_readlink fs (proc_path pid ''exe'') of
        None \<Rightarrow> (1, c_str [])
      | Some target \<Rightarrow> (0, c_str (take 1023 target)))"

definition load_process_info :: "proc_fs \<Rightarrow> ProcessInfo \<Rightarrow> int \<times> ProcessInfo" where
  "load_process_info fs p =
     (let (rc, cmd) = read_cmdline fs (ucast (pi_pid p));
          (re, exe) = read_executable fs (ucast (pi_pid p));
          rval = (if rc \<noteq> 0 \<or> re \<noteq> 0 then 1 else 0);
          p = p\<lparr>pi_cmdline := cmd, pi_executable := exe\<rparr>
      in (rval, p\<lparr>pi_mode := (if c_str (pi_cmdline p) = [] \<and> c_str (pi_executable p) = []
                              then Kernel else User)\<rparr>))"

section \<open>getProcessInfo\<close>

definition is_zygote_name :: "ProcessInfo \<Rightarrow> bool" where
  "is_zygote_name p \<longleftrightarrow> c_str (pi_cmdline p) = ascii ''zygote''"

text \<open>
  The block that both the first lookup and a repeated one run: load, remember whether it
  failed, and after a good one stop repeating and classify the process as a zygote or not.
\<close>

definition load_cmdexe :: "proc_fs \<Rightarrow> u64 \<Rightarrow> ProcessInfo \<Rightarrow> u64 \<Rightarrow> ProcessInfo \<times> u64" where
  "load_cmdexe fs pid p ez =
     (let (rv, p) = load_process_info fs p;
          p = p\<lparr>cmdexe_flag := rv\<rparr>
      in if cmdexe_flag p = 0 then
           let p = p\<lparr>cmdexe_checks := 0, zygote_flag := (if is_zygote_name p then 1 else 0)\<rparr>
           in if zygote_flag p \<noteq> 0
              then (p, if ez \<noteq> 0 then min pid ez else pid)
              else (p\<lparr>zygote_checks := 0\<rparr>, ez)
         else (p, ez))"

definition recheck_zygote :: "proc_fs \<Rightarrow> ProcessInfo \<Rightarrow> ProcessInfo" where
  "recheck_zygote fs p =
     (let p = (if zygote_checks p \<noteq> 0 then p\<lparr>zygote_checks := zygote_checks p - 1\<rparr> else p);
          (rv, p) = load_process_info fs p
      in if rv \<noteq> 0 then p\<lparr>zygote_checks := 0\<rparr>
         else let p = p\<lparr>zygote_flag := (if is_zygote_name p then 1 else 0)\<rparr>
              in if zygote_flag p = 0 then p\<lparr>zygote_checks := 0\<rparr> else p)"

text \<open>\<open>procMap[pid]\<close> inserts a default entry for a new key.\<close>

definition proc_entry :: "proc_table \<Rightarrow> u64 \<Rightarrow> ProcessInfo" where
  "proc_entry t pid = (case procMap t pid of None \<Rightarrow> new_ProcessInfo | Some p \<Rightarrow> p)"

definition put_entry :: "u64 \<Rightarrow> ProcessInfo \<times> u64 \<Rightarrow> proc_table \<Rightarrow> proc_table" where
  "put_entry pid r t = t\<lparr>procMap := (procMap t)(pid \<mapsto> fst r), earliest_zygote := snd r\<rparr>"

definition wants_cmdexe_check :: "bool \<Rightarrow> ProcessInfo \<Rightarrow> bool" where
  "wants_cmdexe_check check_flags p \<longleftrightarrow> check_flags \<and> cmdexe_flag p \<noteq> 0 \<and> cmdexe_checks p \<noteq> 0"

definition wants_zygote_check :: "bool \<Rightarrow> u64 \<Rightarrow> u64 \<Rightarrow> ProcessInfo \<Rightarrow> bool" where
  "wants_zygote_check check_flags pid ez p \<longleftrightarrow>
     check_flags \<and> zygote_flag p \<noteq> 0 \<and> (pid > ez \<or> zygote_checks p \<noteq> 0)"

definition getProcessInfo :: "proc_fs \<Rightarrow> u64 \<Rightarrow> bool \<Rightarrow> proc_table \<Rightarrow> proc_table" where
  "getProcessInfo fs pid check_flags t =
     (let p = proc_entry t pid; ez = earliest_zygote t
      in put_entry pid
           (if pi_mode p = Unknown then load_cmdexe fs pid (p\<lparr>pi_pid := ucast pid\<rparr>) ez
            else if wants_cmdexe_check check_flags p
            then load_cmdexe fs pid (p\<lparr>cmdexe_checks := cmdexe_checks p - 1\<rparr>) ez
            else if wants_zygote_check check_flags pid ez p
            then (recheck_zygote fs p, ez)
            else (p, ez)) t)"

section \<open>What a lookup changes\<close>

lemma read_results: "fst (read_cmdline fs q) \<in> {0, 1}" "fst (read_executable fs q) \<in> {0, 1}"
  by (auto simp: read_cmdline_def read_executable_def split: stream_read.splits option.splits)

text \<open>A load rewrites the two strings and the mode and leaves the flags to its caller.\<close>

lemma load_process_info_cases:
  obtains rv cmd exe m where
    "load_process_info fs p = (rv, p\<lparr>pi_cmdline := cmd, pi_executable := exe, pi_mode := m\<rparr>)"
    "rv \<in> {0, 1}" "m \<noteq> Unknown" "rv = 0 \<Longrightarrow> fs_stream fs (proc_path (ucast (pi_pid p)) ''cmdline'') = StreamContent cmd"
proof -
  obtain rc cmd where c: "read_cmdline fs (ucast (pi_pid p)) = (rc, cmd)" by fastforce
  obtain re exe where e: "read_executable fs (ucast (pi_pid p)) = (re, exe)" by fastforce
  let ?rv = "if rc \<noteq> 0 \<or> re \<noteq> 0 then 1 else 0 :: int"
  let ?m = "if c_str cmd = [] \<and> c_str exe = [] then Kernel else User"
  have "load_process_info fs p = (?rv, p\<lparr>pi_cmdline := cmd, pi_executable := exe, pi_mode := ?m\<rparr>)"
    by (simp add: load_process_info_def c e)
  moreover have "?rv = 0 \<Longrightarrow> fs_stream fs (proc_path (ucast (pi_pid p)) ''cmdline'') = StreamContent cmd"
    using c by (auto simp: read_cmdline_def split: stream_read.splits if_splits)
  ultimately show ?thesis by (intro that[of ?rv ?m exe cmd]) auto
qed

lemma procMap_put_entry [simp]:
  "procMap (put_entry pid r t) k = (if k = pid then Some (fst r) else procMap t k)"
  "earliest_zygote (put_entry pid r t) = snd r"
  by (simp_all add: put_entry_def)

lemma procMap_getProcessInfo_other [simp]:
  "k \<noteq> pid \<Longrightarrow> procMap (getProcessInfo fs pid check t) k = procMap t k"
  by (simp add: getProcessInfo_def Let_def)

lemma load_cmdexe_mode: "pi_mode (fst (load_cmdexe fs pid p ez)) \<noteq> Unknown"
  by (rule load_process_info_cases[of fs p]) (auto simp: load_cmdexe_def Let_def)

lemma recheck_zygote_mode: "pi_mode (recheck_zygote fs p) \<noteq> Unknown"
proof -
  let ?p = "if zygote_checks p \<noteq> 0 then p\<lparr>zygote_checks := zygote_checks p - 1\<rparr> else p"
  show ?thesis
    by (rule load_process_info_cases[of fs ?p]) (auto simp: recheck_zygote_def Let_def)
qed

lemma getProcessInfo_known:
  "\<exists>p. procMap (getProcessInfo fs pid check t) pid = Some p \<and> pi_mode p \<noteq> Unknown"
  by (auto simp: getProcessInfo_def Let_def load_cmdexe_mode recheck_zygote_mode)

text \<open>
  Without \<open>check_flags\<close> a known process is not touched: the references that the packet
  under construction holds into the table stay valid.
\<close>

lemma getProcessInfo_stable:
  assumes "procMap t k = Some p" and "pi_mode p \<noteq> Unknown"
  shows "procMap (getProcessInfo fs pid False t) k = Some p"
  using assms
  by (auto simp: getProcessInfo_def Let_def proc_entry_def wants_cmdexe_check_def wants_zygote_check_def)

section \<open>The table invariant\<close>

definition entry_ok :: "u64 \<Rightarrow> u64 \<Rightarrow> ProcessInfo \<Rightarrow> bool" where
  "entry_ok ez pid p \<longleftrightarrow>
     pi_mode p \<noteq> Unknown \<and> pi_pid p = ucast pid \<and>
     zygote_flag p \<in> {0, 1} \<and> cmdexe_flag p \<in> {0, 1} \<and>
     0 \<le> zygote_checks p \<and> zygote_checks p \<le> PROCESS_INFO_FLAG_CHECKS \<and>
     0 \<le> cmdexe_checks p \<and> cmdexe_checks p \<le> PROCESS_INFO_FLAG_CHECKS \<and>
     (cmdexe_flag p = 0 \<longrightarrow> cmdexe_checks p = 0) \<and>
     (cmdexe_flag p \<noteq> 0 \<longrightarrow> zygote_flag p = 0) \<and>
     (cmdexe_flag p = 0 \<and> zygote_flag p = 0 \<longrightarrow> zygote_checks p = 0) \<and>
     (zygote_flag p \<noteq> 0 \<longrightarrow> pid \<noteq> 0 \<longrightarrow> ez \<noteq> 0 \<and> ez \<le> pid)"

definition table_inv :: "proc_table \<Rightarrow> bool" where
  "table_inv t \<longleftrightarrow> (\<forall>pid p. procMap t pid = Some p \<longrightarrow> entry_ok (earliest_zygote t) pid p)"

text \<open>Linux has no directory /proc/0: the idle task's command line never opens.\<close>

definition no_proc_0 :: "proc_fs \<Rightarrow> bool" where
  "no_proc_0 fs \<longleftrightarrow> fs_stream fs (proc_path 0 ''cmdline'') = StreamFail"

lemma table_inv_empty [simp]: "table_inv empty_proc_table"
  by (simp add: table_inv_def empty_proc_table_def)

lemma table_inv_entry: "table_inv t \<Longrightarrow> procMap t pid = Some p \<Longrightarrow> entry_ok (earliest_zygote t) pid p"
  by (simp add: table_inv_def)

text \<open>What a load owes its caller: an entry that is in order and an \<open>earliest_zygote\<close> that only moves down.\<close>

definition ez_step :: "u64 \<Rightarrow> u64 \<Rightarrow> bool" where
  "ez_step ez ez' \<longleftrightarrow> ez' = ez \<or> ez' \<noteq> 0 \<and> (ez = 0 \<or> ez' \<le> ez)"

lemma entry_ok_ez_step: "entry_ok ez pid p \<Longrightarrow> ez_step ez ez' \<Longrightarrow> entry_ok ez' pid p"
  by (auto simp: entry_ok_def ez_step_def)

lemma table_inv_put_entry:
  assumes "table_inv t" and "entry_ok (snd r) pid (fst r)" and "ez_step (earliest_zygote t) (snd r)"
  shows "table_inv (put_entry pid r t)"
  using assms by (auto simp: table_inv_def dest: entry_ok_ez_step)

lemma load_cmdexe_ok:
  assumes "no_proc_0 fs" and "pi_pid p = ucast pid"
    and "zygote_flag p = 0" and "0 \<le> zygote_checks p" "zygote_checks p \<le> PROCESS_INFO_FLAG_CHECKS"
    and "0 \<le> cmdexe_checks p" "cmdexe_checks p \<le> PROCESS_INFO_FLAG_CHECKS"
  shows "entry_ok (snd (load_cmdexe fs pid p ez)) pid (fst (load_cmdexe fs pid p ez)) \<and>
         ez_step ez (snd (load_cmdexe fs pid p ez))"
proof (rule load_process_info_cases[of fs p])
  fix rv cmd exe m
  assume l: "load_process_info fs p = (rv, p\<lparr>pi_cmdline := cmd, pi_executable := exe, pi_mode := m\<rparr>)"
    and rv: "rv \<in> {0, 1}" and m: "m \<noteq> Unknown"
    and ok: "rv = 0 \<Longrightarrow> fs_stream fs (proc_path (ucast (pi_pid p)) ''cmdline'') = StreamContent cmd"
  have nz: "pid \<noteq> 0" if "rv = 0"
    using ok[OF that] assms(1,2) by (auto simp: no_proc_0_def)
  show ?thesis
    using assms rv m nz unfolding load_cmdexe_def l
    by (auto simp: Let_def entry_ok_def ez_step_def min_def PROCESS_INFO_FLAG_CHECKS_def)
qed

lemma recheck_zygote_ok:
  assumes "entry_ok ez pid p" and "zygote_flag p \<noteq> 0"
  shows "entry_ok ez pid (recheck_zygote fs p)"
proof -
  let ?p = "if zygote_checks p \<noteq> 0 then p\<lparr>zygote_checks := zygote_checks p - 1\<rparr> else p"
  show ?thesis
  proof (rule load_process_info_cases[of fs ?p])
    fix rv cmd exe m
    assume l: "load_process_info fs ?p = (rv, ?p\<lparr>pi_cmdline := cmd, pi_executable := exe, pi_mode := m\<rparr>)"
      and "rv \<in> {0, 1}" and "m \<noteq> Unknown"
    with assms show ?thesis
      unfolding recheck_zygote_def Let_def l by (auto simp: entry_ok_def)
  qed
qed

lemma getProcessInfo_inv:
  assumes "no_proc_0 fs" and "table_inv t"
  shows "table_inv (getProcessInfo fs pid check t)"
proof -
  let ?p = "proc_entry t pid" and ?ez = "earliest_zygote t"
  let ?r = "if pi_mode ?p = Unknown then load_cmdexe fs pid (?p\<lparr>pi_pid := ucast pid\<rparr>) ?ez
            else if wants_cmdexe_check check ?p
            then load_cmdexe fs pid (?p\<lparr>cmdexe_checks := cmdexe_checks ?p - 1\<rparr>) ?ez
            else if wants_zygote_check check pid ?ez ?p then (recheck_zygote fs ?p, ?ez)
            else (?p, ?ez)"
  have p: "?p = new_ProcessInfo \<or> entry_ok ?ez pid ?p"
    using assms(2) by (auto simp: proc_entry_def dest: table_inv_entry split: option.splits)
  have "entry_ok (snd ?r) pid (fst ?r) \<and> ez_step ?ez (snd ?r)"
  proof (cases "pi_mode ?p = Unknown")
    case True
    with p have "?p = new_ProcessInfo" by (auto simp: entry_ok_def)
    with True assms(1) show ?thesis
      by (simp add: load_cmdexe_ok new_ProcessInfo_def PROCESS_INFO_FLAG_CHECKS_def)
  next
    case False
    with p have ok: "entry_ok ?ez pid ?p" by (auto simp: new_ProcessInfo_def)
    moreover have "ez_step ?ez ?ez" by (simp add: ez_step_def)
    moreover have "entry_ok (snd r) pid (fst r) \<and> ez_step ?ez (snd r)"
      if "wants_cmdexe_check check ?p"
        and "r = load_cmdexe fs pid (?p\<lparr>cmdexe_checks := cmdexe_checks ?p - 1\<rparr>) ?ez" for r
      unfolding that(2) using ok that(1) assms(1)
      by (intro load_cmdexe_ok) (auto simp: entry_ok_def wants_cmdexe_check_def)
    ultimately show ?thesis
      using False by (auto simp: recheck_zygote_ok wants_zygote_check_def)
  qed
  then show ?thesis
    unfolding getProcessInfo_def Let_def using assms(2) by (intro table_inv_put_entry) blast+
qed

section \<open>How often a failing lookup is repeated\<close>

definition repeats_lookup :: "bool \<Rightarrow> u64 \<Rightarrow> proc_table \<Rightarrow> bool" where
  "repeats_lookup check pid t \<longleftrightarrow>
     pi_mode (proc_entry t pid) \<noteq> Unknown \<and> wants_cmdexe_check check (proc_entry t pid)"

text \<open>The number of calls in a history that repeat the lookup of \<open>pid\<close>.\<close>

fun repeated_lookups :: "u64 \<Rightarrow> (proc_fs \<times> u64 \<times> bool) list \<Rightarrow> proc_table \<Rightarrow> nat" where
  "repeated_lookups pid [] t = 0"
| "repeated_lookups pid ((fs, q, check) # cs) t =
     (if q = pid \<and> repeats_lookup check q t then 1 else 0) +
     repeated_lookups pid cs (getProcessInfo fs q check t)"

definition lookup_budget :: "u64 \<Rightarrow> proc_table \<Rightarrow> nat" where
  "lookup_budget pid t = nat (cmdexe_checks (proc_entry t pid))"

lemma load_cmdexe_checks:
  "cmdexe_checks (fst (load_cmdexe fs pid p ez)) = 0 \<or>
   cmdexe_checks (fst (load_cmdexe fs pid p ez)) = cmdexe_checks p"
  by (rule load_process_info_cases[of fs p]) (auto simp: load_cmdexe_def Let_def)

lemma recheck_zygote_checks [simp]: "cmdexe_checks (recheck_zygote fs p) = cmdexe_checks p"
proof -
  let ?p = "if zygote_checks p \<noteq> 0 then p\<lparr>zygote_checks := zygote_checks p - 1\<rparr> else p"
  show ?thesis
    by (rule load_process_info_cases[of fs ?p]) (auto simp: recheck_zygote_def Let_def)
qed

lemma proc_entry_put_entry: "proc_entry (put_entry q r t) pid = (if pid = q then fst r else proc_entry t pid)"
  by (simp add: proc_entry_def)

lemma lookup_budget_step:
  assumes "\<And>q. 0 \<le> cmdexe_checks (proc_entry t q)"
  shows "lookup_budget pid (getProcessInfo fs q check t) +
           (if q = pid \<and> repeats_lookup check q t then 1 else 0) \<le> lookup_budget pid t"
    and "0 \<le> cmdexe_checks (proc_entry (getProcessInfo fs q check t) r)"
proof -
  let ?p = "proc_entry t q" and ?ez = "earliest_zygote t"
  have l1: "cmdexe_checks (fst (load_cmdexe fs q (?p\<lparr>pi_pid := ucast q\<rparr>) ?ez)) \<in> {0, cmdexe_checks ?p}"
    using load_cmdexe_checks[of fs q "?p\<lparr>pi_pid := ucast q\<rparr>" ?ez] by auto
  have l2: "cmdexe_checks (fst (load_cmdexe fs q (?p\<lparr>cmdexe_checks := cmdexe_checks ?p - 1\<rparr>) ?ez))
              \<in> {0, cmdexe_checks ?p - 1}"
    using load_cmdexe_checks[of fs q "?p\<lparr>cmdexe_checks := cmdexe_checks ?p - 1\<rparr>" ?ez] by auto
  show "lookup_budget pid (getProcessInfo fs q check t) +
           (if q = pid \<and> repeats_lookup check q t then 1 else 0) \<le> lookup_budget pid t"
    using l1 l2 assms[of q]
    by (auto simp: lookup_budget_def getProcessInfo_def Let_def proc_entry_put_entry
        repeats_lookup_def wants_cmdexe_check_def)
  show "0 \<le> cmdexe_checks (proc_entry (getProcessInfo fs q check t) r)"
    using l1 l2 assms[of q] assms[of r]
    by (auto simp: getProcessInfo_def Let_def proc_entry_put_entry wants_cmdexe_check_def)
qed

lemma repeated_lookups_budget:
  "(\<And>q. 0 \<le> cmdexe_checks (proc_entry t q)) \<Longrightarrow> repeated_lookups pid cs t \<le> lookup_budget pid t"
proof (induction cs arbitrary: t)
  case Nil
  then show ?case by simp
next
  case (Cons c cs)
  obtain fs q check where c: "c = (fs, q, check)" by (cases c) auto
  have "repeated_lookups pid cs (getProcessInfo fs q check t) \<le> lookup_budget pid (getProcessInfo fs q check t)"
    using Cons.prems by (intro Cons.IH lookup_budget_step(2))
  with lookup_budget_step(1)[OF Cons.prems, of pid fs q check] show ?case
    by (simp add: c)
qed

end
