(* ===== verification/Packet.thy ===== *)
theory Packet
  imports Byte_Order Process_Info
begin

text \<open>
  sender/packet.h and the building half of sender/packet.cpp: the packet under construction
  (static variables of the file), appending samples to it, and serialising it into the
  reallocated transmit memory.

  \<open>info.cmdline\<close> and \<open>info.exe\<close> are pointers into an entry of the process table, kept here
  as the entry's key, so that a change of the table between appending and serialising is
  visible in what is written. The bytes \<open>realloc\<close> leaves undefined, and whether it succeeds,
  are the argument \<open>alloc\<close>. \<open>debug\<close> only selects messages on stderr, which are not modelled.
\<close>

section \<open>State\<close>

definition NUM_COUNTERS :: nat where
  "NUM_COUNTERS = 6"

record packet_header =
  h_kernel :: u8
  h_counters :: u8
  h_core :: u8
  h_quantity :: u8
  h_batch :: u32
  h_missed :: u32
  h_first_index :: u32
  h_pid :: u32

definition sizeof_packet_header :: nat where
  "sizeof_packet_header = 20"

definition zero_header :: packet_header where
  "zero_header = \<lparr>h_kernel = 0, h_counters = 0, h_core = 0, h_quantity = 0,
                  h_batch = 0, h_missed = 0, h_first_index = 0, h_pid = 0\<rparr>"

record packet_state =
  memory_ptr :: "bytes option"
  memory_n :: nat
  header :: packet_header
  info_cmdline :: "u64 option"
  info_exe :: "u64 option"
  samples :: "sample list"
  initialized :: bool
  current_index :: nat
  pkt_debug :: bool

text \<open>Static storage starts out zero.\<close>

definition packet_state0 :: packet_state where
  "packet_state0 = \<lparr>memory_ptr = None, memory_n = 0, header = zero_header,
     info_cmdline = None, info_exe = None, samples = replicate 256 zero_sample,
     initialized = False, current_index = 0, pkt_debug = False\<rparr>"

definition packet_set_debug :: "packet_state \<Rightarrow> packet_state" where
  "packet_set_debug st = st\<lparr>pkt_debug := True\<rparr>"

definition initialize :: "packet_state \<Rightarrow> packet_state" where
  "initialize st =
     (if initialized st then st
      else st\<lparr>header := zero_header, memory_ptr := None, memory_n := 0,
              info_cmdline := None, info_exe := None,
              samples := replicate 256 zero_sample, initialized := True\<rparr>)"

definition clear_data :: "packet_state \<Rightarrow> packet_state" where
  "clear_data st =
     st\<lparr>header := zero_header\<lparr>h_batch := h_batch (header st)\<rparr>,
        samples := replicate 256 zero_sample,
        info_cmdline := None, info_exe := None\<rparr>"

section \<open>Building a packet\<close>

definition packet_start_batch :: "packet_state \<Rightarrow> packet_state" where
  "packet_start_batch st =
     (let st = clear_data (initialize st);
          st = st\<lparr>current_index := 0\<rparr>
      in st\<lparr>header := (header st)\<lparr>h_batch := h_batch (header st) + 1\<rparr>\<rparr>)"

definition packet_empty :: "packet_state \<Rightarrow> bool" where
  "packet_empty st \<longleftrightarrow> h_quantity (header st) = 0"

definition packet_should_create ::
  "buffer \<Rightarrow> sample \<Rightarrow> ProcessInfo \<Rightarrow> packet_state \<Rightarrow> bool \<times> packet_state" where
  "packet_should_create b s p st =
     (let st = initialize st; h = header st
      in if h_quantity h = 0 then (False, st)
         else (h_quantity h = 255 \<or>
               (h_kernel h \<noteq> 0 \<and> pi_mode p \<noteq> Kernel) \<or>
               h_core h \<noteq> ucast (b_core b) \<or>
               ucast (h_pid h) \<noteq> s_pid s, st))"

text \<open>\<open>k\<close> is the reference \<open>ProcessInfo& pi\<close>: the entry's key in the table \<open>t\<close>.\<close>

definition packet_append ::
  "buffer \<Rightarrow> sample \<Rightarrow> proc_table \<Rightarrow> u64 \<Rightarrow> u32 \<Rightarrow> packet_state \<Rightarrow> int \<times> packet_state" where
  "packet_append b s t k missed st =
     (let st = initialize st;
          p = proc_entry t k;
          (make, st) = packet_should_create b s p st
      in if make then (-1, st)
         else
           let st = (if h_quantity (header st) = 0
                     then st\<lparr>header := (header st)
                               \<lparr>h_kernel := (if pi_mode p = Kernel then 1 else 0),
                                h_missed := missed,
                                h_first_index := of_nat (current_index st),
                                h_counters := of_nat NUM_COUNTERS,
                                h_core := ucast (b_core b),
                                h_pid := ucast (s_pid s)\<rparr>,
                             info_cmdline := Some k, info_exe := Some k\<rparr>
                     else st);
               st = st\<lparr>samples := (samples st)[unat (h_quantity (header st)) := s]\<rparr>;
               st = st\<lparr>header := (header st)\<lparr>h_quantity := h_quantity (header st) + 1\<rparr>\<rparr>
           in (0, st\<lparr>current_index := current_index st + 1\<rparr>))"

definition packet_clean :: "packet_state \<Rightarrow> packet_state" where
  "packet_clean st = (initialize st)\<lparr>memory_ptr := None, memory_n := 0\<rparr>"

section \<open>Serialising\<close>

text \<open>The C string behind \<open>info.cmdline\<close> and \<open>info.exe\<close>.\<close>

definition deref_info :: "(ProcessInfo \<Rightarrow> bytes) \<Rightarrow> proc_table \<Rightarrow> u64 option \<Rightarrow> fault + bytes" where
  "deref_info field t r =
     (case r of None \<Rightarrow> Inl NullDeref
      | Some k \<Rightarrow> (case procMap t k of None \<Rightarrow> Inl UseAfterFree | Some p \<Rightarrow> Inr (c_str (field p))))"

text \<open>
  \<open>realloc(old, amt)\<close>: \<open>None\<close> when it fails, otherwise a block of \<open>amt\<close> bytes that starts
  with the old contents.
\<close>

type_synonym alloc_env = "nat \<Rightarrow> (nat \<Rightarrow> u8) option"

definition realloc :: "alloc_env \<Rightarrow> bytes option \<Rightarrow> nat \<Rightarrow> bytes option" where
  "realloc alloc old amt =
     (let blk = (case old of None \<Rightarrow> [] | Some b \<Rightarrow> b)
      in map_option (\<lambda>junk. map (\<lambda>i. if i < length blk then blk ! i else junk i) [0..<amt]) (alloc amt))"

definition demand_memory :: "alloc_env \<Rightarrow> proc_table \<Rightarrow> packet_state \<Rightarrow> fault + (nat \<times> packet_state)" where
  "demand_memory alloc t st =
     fault_bind (deref_info pi_cmdline t (info_cmdline st)) (\<lambda>cmdline.
     fault_bind (deref_info pi_executable t (info_exe st)) (\<lambda>exe.
       let amt = 20 + (4 * (NUM_COUNTERS + 1) * unat (h_quantity (header st))) +
                 (length cmdline + 1) + (length exe + 1)
       in if amt \<le> memory_n st then Inr (amt, st)
          else let st = st\<lparr>memory_ptr := realloc alloc (memory_ptr st) amt\<rparr>
               in if memory_ptr st = None then Inr (0, st\<lparr>memory_n := 0\<rparr>)
                  else Inr (amt, st\<lparr>memory_n := amt\<rparr>)))"

text \<open>
  A write through a pointer into the transmit memory: the block and the offset of the
  pointer, advanced past what was written.
\<close>

type_synonym cursor = "bytes \<times> nat"

definition put_bytes :: "bytes \<Rightarrow> cursor \<Rightarrow> fault + cursor" where
  "put_bytes d c =
     (if snd c + length d \<le> length (fst c)
      then Inr (take (snd c) (fst c) @ d @ drop (snd c + length d) (fst c), snd c + length d)
      else Inl OutOfBounds)"

text \<open>\<open>*ints++ = htonl(w)\<close>.\<close>

definition put_net32 :: "u32 \<Rightarrow> cursor \<Rightarrow> fault + cursor" where
  "put_net32 w = put_bytes (bytes_of_u32 (htonl w))"

definition write_header :: "packet_header \<Rightarrow> cursor \<Rightarrow> fault + cursor" where
  "write_header h c =
     fault_bind (put_bytes [h_kernel h, h_counters h, h_core h, h_quantity h] c) (\<lambda>c.
     fault_bind (put_net32 (h_batch h) c) (\<lambda>c.
     fault_bind (put_net32 (h_missed h) c) (\<lambda>c.
     fault_bind (put_net32 (h_first_index h) c)
       (put_net32 (h_pid h)))))"

definition write_sample :: "sample \<Rightarrow> cursor \<Rightarrow> fault + cursor" where
  "write_sample s c =
     fault_bind (put_net32 (ucast (s_cycles s)) c)
       (fault_fold (\<lambda>i. put_net32 (s_counters s ! i)) [0..<NUM_COUNTERS])"

definition write_samples :: "packet_state \<Rightarrow> cursor \<Rightarrow> fault + cursor" where
  "write_samples st = fault_fold (\<lambda>i. write_sample (samples st ! i)) [0..<unat (h_quantity (header st))]"

definition write_info :: "proc_table \<Rightarrow> packet_state \<Rightarrow> cursor \<Rightarrow> fault + cursor" where
  "write_info t st c =
     fault_bind (deref_info pi_cmdline t (info_cmdline st)) (\<lambda>cmdline.
     fault_bind (deref_info pi_executable t (info_exe st)) (\<lambda>exe.
     fault_bind (put_bytes (cmdline @ [0]) c)
       (put_bytes (exe @ [0]))))"

text \<open>
  The result is the return code, \<open>*save\<close> (the whole transmit memory, or NULL),
  \<open>*packet_size\<close>, and the new state.
\<close>

definition packet_create ::
  "alloc_env \<Rightarrow> proc_table \<Rightarrow> packet_state \<Rightarrow> fault + (int \<times> bytes option \<times> nat \<times> packet_state)" where
  "packet_create alloc t st =
     (let st = initialize st
      in if h_quantity (header st) = 0 then Inr (0, None, 0, clear_data st)
         else
           fault_bind (demand_memory alloc t st) (\<lambda>(packet_size, st).
             if packet_size = 0 then Inr (-1, None, 0, st)
             else
               fault_bind (case memory_ptr st of None \<Rightarrow> Inl NullDeref | Some blk \<Rightarrow> Inr (blk, 0)) (\<lambda>c.
               fault_bind (write_header (header st) c) (\<lambda>c.
               fault_bind (write_samples st c) (\<lambda>c.
               fault_bind (write_info t st c) (\<lambda>c.
                 let st = clear_data (st\<lparr>memory_ptr := Some (fst c)\<rparr>)
                 in Inr (0, memory_ptr st, packet_size, st)))))))"

end
