(* ===== verification/Packet_Write.thy ===== *)
theory Packet_Write
  imports Packet
begin

text \<open>
  Correctness of the building half of packet.cpp: the invariant of the static state, what
  appending does to the samples collected so far, and that serialising stays inside the
  transmit memory and writes exactly the wire format of sender/protocol.txt.
\<close>

section \<open>The wire format\<close>

definition header_bytes :: "packet_header \<Rightarrow> bytes" where
  "header_bytes h =
     [h_kernel h, h_counters h, h_core h, h_quantity h] @
     net32 (h_batch h) @ net32 (h_missed h) @ net32 (h_first_index h) @ net32 (h_pid h)"

definition sample_bytes :: "sample \<Rightarrow> bytes" where
  "sample_bytes s = net32 (ucast (s_cycles s)) @ concat (map net32 (s_counters s))"

definition info_bytes :: "bytes \<Rightarrow> bytes \<Rightarrow> bytes" where
  "info_bytes cmdline exe = cmdline @ [0] @ exe @ [0]"

definition packet_bytes :: "packet_header \<Rightarrow> sample list \<Rightarrow> bytes \<Rightarrow> bytes \<Rightarrow> bytes" where
  "packet_bytes h ss cmdline exe =
     header_bytes h @ concat (map sample_bytes ss) @ info_bytes cmdline exe"

lemma length_header_bytes [simp]: "length (header_bytes h) = 20"
  by (simp add: header_bytes_def)

lemma length_concat_const: "(\<And>x. x \<in> set xs \<Longrightarrow> length (f x) = k) \<Longrightarrow> length (concat (map f xs)) = k * length xs"
  by (induction xs) auto

lemma length_sample_bytes: "wf_sample s \<Longrightarrow> length (sample_bytes s) = 28"
  by (simp add: sample_bytes_def wf_sample_def length_concat_const[of _ _ 4])

lemma length_info_bytes [simp]: "length (info_bytes cmdline exe) = length cmdline + 1 + (length exe + 1)"
  by (simp add: info_bytes_def)

lemma length_samples_bytes: "\<forall>s \<in> set ss. wf_sample s \<Longrightarrow> length (concat (map sample_bytes ss)) = 28 * length ss"
  by (rule length_concat_const) (simp add: length_sample_bytes)

lemma length_packet_bytes:
  "\<forall>s \<in> set ss. wf_sample s \<Longrightarrow>
   length (packet_bytes h ss cmdline exe) = 20 + 28 * length ss + (length cmdline + 1) + (length exe + 1)"
  by (simp add: packet_bytes_def length_samples_bytes)

section \<open>Writers\<close>

text \<open>
  A writer of \<open>d\<close>: wherever the memory has room for \<open>d\<close> behind the pointer, it puts \<open>d\<close>
  there, advances the pointer past it, and keeps everything before.
\<close>

definition writes :: "(cursor \<Rightarrow> fault + cursor) \<Rightarrow> bytes \<Rightarrow> bool" where
  "writes f d \<longleftrightarrow> (\<forall>blk off. off + length d \<le> length blk \<longrightarrow>
     (\<exists>blk'. f (blk, off) = Inr (blk', off + length d) \<and> length blk' = length blk \<and>
             take (off + length d) blk' = take off blk @ d))"

lemma writesD:
  assumes "writes f d" and "off + length d \<le> length blk"
  obtains blk' where "f (blk, off) = Inr (blk', off + length d)" "length blk' = length blk"
    "take (off + length d) blk' = take off blk @ d"
  using assms unfolding writes_def by blast

lemma writes_put_bytes [intro]: "writes (put_bytes d) d"
  by (auto simp: writes_def put_bytes_def)

lemma writes_put_net32 [intro]: "writes (put_net32 w) (net32 w)"
  unfolding put_net32_def net32_def by (rule writes_put_bytes)

lemma writes_Inr [intro]: "writes Inr []"
  by (simp add: writes_def)

lemma writes_bind:
  assumes f: "writes f d" and g: "writes g e"
  shows "writes (\<lambda>c. fault_bind (f c) g) (d @ e)"
  unfolding writes_def
proof (intro allI impI)
  fix blk :: bytes and off :: nat
  assume room: "off + length (d @ e) \<le> length blk"
  then have "off + length d \<le> length blk" by simp
  with f obtain b1 where b1: "f (blk, off) = Inr (b1, off + length d)" "length b1 = length blk"
    "take (off + length d) b1 = take off blk @ d" by (rule writesD)
  from room b1(2) have "(off + length d) + length e \<le> length b1" by simp
  with g obtain b2 where "g (b1, off + length d) = Inr (b2, off + length d + length e)"
    "length b2 = length b1" "take (off + length d + length e) b2 = take (off + length d) b1 @ e"
    by (rule writesD)
  with b1 show "\<exists>blk'. fault_bind (f (blk, off)) g = Inr (blk', off + length (d @ e)) \<and>
      length blk' = length blk \<and> take (off + length (d @ e)) blk' = take off blk @ d @ e"
    by (auto simp: add.assoc)
qed

lemma writes_fold:
  "(\<And>x. x \<in> set xs \<Longrightarrow> writes (f x) (d x)) \<Longrightarrow> writes (fault_fold f xs) (concat (map d xs))"
proof (induction xs)
  case Nil
  have "fault_fold f [] = Inr" by (rule ext) simp
  then show ?case by (simp add: writes_Inr)
next
  case (Cons x xs)
  have "fault_fold f (x # xs) = (\<lambda>c. fault_bind (f x c) (fault_fold f xs))" by (rule ext) simp
  with Cons show ?case by (simp add: writes_bind)
qed

lemma writes_header: "writes (write_header h) (header_bytes h)"
proof -
  have "writes (\<lambda>c. fault_bind (put_bytes [h_kernel h, h_counters h, h_core h, h_quantity h] c)
     (\<lambda>c. fault_bind (put_net32 (h_batch h) c) (\<lambda>c. fault_bind (put_net32 (h_missed h) c)
     (\<lambda>c. fault_bind (put_net32 (h_first_index h) c) (put_net32 (h_pid h)))))) (header_bytes h)"
    unfolding header_bytes_def by (intro writes_bind writes_put_bytes writes_put_net32)
  then show ?thesis by (simp add: write_header_def[abs_def])
qed

lemma map_nth_upt: "length xs = n \<Longrightarrow> map (\<lambda>i. f (xs ! i)) [0..<n] = map f xs"
  by (metis map_map map_nth comp_apply map_cong)

lemma writes_sample: "wf_sample s \<Longrightarrow> writes (write_sample s) (sample_bytes s)"
proof -
  assume "wf_sample s"
  then have "length (s_counters s) = NUM_COUNTERS" by (simp add: wf_sample_def NUM_COUNTERS_def)
  then have eq: "map (\<lambda>i. net32 (s_counters s ! i)) [0..<NUM_COUNTERS] = map net32 (s_counters s)"
    by (rule map_nth_upt)
  have "writes (\<lambda>c. fault_bind (put_net32 (ucast (s_cycles s)) c)
          (fault_fold (\<lambda>i. put_net32 (s_counters s ! i)) [0..<NUM_COUNTERS])) (sample_bytes s)"
    unfolding sample_bytes_def eq[symmetric]
    by (intro writes_bind writes_put_net32 writes_fold)
  then show ?thesis by (simp add: write_sample_def[abs_def])
qed

lemma fault_bind_extend:
  "fault_bind m (\<lambda>c. fault_bind (g c) h) = Inr r \<Longrightarrow>
   fault_bind m (\<lambda>c. fault_bind (g c) (\<lambda>c. fault_bind (h c) k)) = k r"
  by (auto simp: fault_bind_Inr_iff)

section \<open>The invariant\<close>

definition packet_inv :: "packet_state \<Rightarrow> bool" where
  "packet_inv st \<longleftrightarrow>
     initialized st \<and>
     length (samples st) = 256 \<and> (\<forall>s \<in> set (samples st). wf_sample s) \<and>
     (memory_ptr st = None \<longrightarrow> memory_n st = 0) \<and>
     (\<forall>blk. memory_ptr st = Some blk \<longrightarrow> length blk = memory_n st) \<and>
     (h_quantity (header st) \<noteq> 0 \<longrightarrow> (\<exists>k. info_cmdline st = Some k \<and> info_exe st = Some k))"

text \<open>The samples collected for the packet under construction.\<close>

definition pending :: "packet_state \<Rightarrow> sample list" where
  "pending st = take (unat (h_quantity (header st))) (samples st)"

lemma quantity_lt: "unat (q :: u8) < 256"
  using unsigned_less[of q] by simp

lemma length_pending [simp]: "packet_inv st \<Longrightarrow> length (pending st) = unat (h_quantity (header st))"
  using quantity_lt[of "h_quantity (header st)"] by (simp add: pending_def packet_inv_def min_def)

lemma wf_pending: "packet_inv st \<Longrightarrow> s \<in> set (pending st) \<Longrightarrow> wf_sample s"
  unfolding pending_def packet_inv_def by (blast dest: in_set_takeD)

lemma initialize_id [simp]: "initialized st \<Longrightarrow> initialize st = st"
  by (simp add: initialize_def)

lemma packet_inv_initialize: "packet_inv (initialize packet_state0)"
  by (simp add: initialize_def packet_state0_def packet_inv_def zero_header_def)

lemma packet_inv_clear_data [intro]: "packet_inv st \<Longrightarrow> packet_inv (clear_data st)"
  by (simp add: packet_inv_def clear_data_def zero_header_def)

lemma clear_data_simps [simp]:
  "h_batch (header (clear_data st)) = h_batch (header st)"
  "h_quantity (header (clear_data st)) = 0"
  "current_index (clear_data st) = current_index st"
  "memory_ptr (clear_data st) = memory_ptr st"
  "memory_n (clear_data st) = memory_n st"
  "pending (clear_data st) = []"
  "initialized (clear_data st) = initialized st"
  by (simp_all add: clear_data_def zero_header_def pending_def)

lemma start_batch_inv: "packet_inv st \<Longrightarrow> packet_inv (packet_start_batch st)"
  unfolding packet_start_batch_def Let_def
  by (simp add: packet_inv_def clear_data_def zero_header_def)

lemma start_batch_first_inv: "packet_inv (packet_start_batch packet_state0)"
  by (simp add: packet_start_batch_def initialize_def packet_state0_def packet_inv_def
      clear_data_def zero_header_def Let_def)

lemma packet_clean_inv: "packet_inv st \<Longrightarrow> packet_inv (packet_clean st)"
  by (auto simp: packet_inv_def packet_clean_def)

section \<open>Appending\<close>

lemma should_create_state [simp]: "initialized st \<Longrightarrow> snd (packet_should_create b s p st) = st"
  by (simp add: packet_should_create_def Let_def)

lemma should_create_empty [simp]: "h_quantity (header st) = 0 \<Longrightarrow> initialized st \<Longrightarrow>
    fst (packet_should_create b s p st) = False"
  by (simp add: packet_should_create_def Let_def)

lemma packet_append_unfold:
  assumes "initialized st" and "\<not> fst (packet_should_create b s (proc_entry t k) st)"
  shows "packet_append b s t k missed st =
    (let h = header st;
         h0 = (if h_quantity h = 0
               then h\<lparr>h_kernel := (if pi_mode (proc_entry t k) = Kernel then 1 else 0),
                      h_missed := missed, h_first_index := of_nat (current_index st),
                      h_counters := 6, h_core := ucast (b_core b), h_pid := ucast (s_pid s)\<rparr>
               else h);
         r = (if h_quantity h = 0 then Some k else info_cmdline st);
         r' = (if h_quantity h = 0 then Some k else info_exe st)
     in (0, st\<lparr>header := h0\<lparr>h_quantity := h_quantity h + 1\<rparr>,
               info_cmdline := r, info_exe := r',
               samples := (samples st)[unat (h_quantity h) := s],
               current_index := current_index st + 1\<rparr>))"
proof -
  obtain m where m: "packet_should_create b s (proc_entry t k) st = (m, st)"
    using should_create_state[OF assms(1)] by (metis prod.collapse)
  with assms(2) have "\<not> m" by simp
  with m assms(1) show ?thesis
    by (simp add: packet_append_def Let_def NUM_COUNTERS_def)
qed

lemma packet_append_refused:
  "initialized st \<Longrightarrow> fst (packet_should_create b s (proc_entry t k) st) \<Longrightarrow>
   packet_append b s t k missed st = (-1, st)"
  using should_create_state[of st b s "proc_entry t k"]
  by (cases "packet_should_create b s (proc_entry t k) st") (simp add: packet_append_def Let_def)

lemma not_should_create_quantity:
  "initialized st \<Longrightarrow> \<not> fst (packet_should_create b s p st) \<Longrightarrow> h_quantity (header st) \<noteq> 255"
  by (auto simp: packet_should_create_def Let_def split: if_splits)

lemma quantity_succ: "(q :: u8) \<noteq> 255 \<Longrightarrow> unat (q + 1) = unat q + 1"
proof -
  assume "q \<noteq> 255"
  then have "unat q \<noteq> 255" by (simp add: word_unat_eq_iff)
  with quantity_lt[of q] have "unat q + 1 < 256" by linarith
  then show ?thesis by (simp add: unat_word_ariths)
qed

lemma take_Suc_update: "n < length xs \<Longrightarrow> take (n + 1) (xs[n := x]) = take n xs @ [x]"
  by (simp add: take_Suc_conv_app_nth)

lemma wf_list_update:
  "\<forall>s \<in> set xs. wf_sample s \<Longrightarrow> wf_sample x \<Longrightarrow> \<forall>s \<in> set (xs[n := x]). wf_sample s"
  using set_update_subset_insert[of xs n x] by blast

lemma packet_append_ok:
  assumes inv: "packet_inv st" and s: "wf_sample s"
    and go: "\<not> fst (packet_should_create b s (proc_entry t k) st)"
  obtains st' where "packet_append b s t k missed st = (0, st')" "packet_inv st'"
    "pending st' = pending st @ [s]" "current_index st' = current_index st + 1"
    "h_quantity (header st') = h_quantity (header st) + 1"
proof -
  from inv have i: "initialized st" and len: "length (samples st) = 256"
    and wf: "\<forall>s \<in> set (samples st). wf_sample s" by (simp_all add: packet_inv_def)
  have q: "unat (h_quantity (header st) + 1) = unat (h_quantity (header st)) + 1"
    by (rule quantity_succ) (rule not_should_create_quantity[OF i go])
  obtain st' where st': "packet_append b s t k missed st = (0, st')"
    using packet_append_unfold[OF i go] by (simp add: Let_def)
  have upd: "samples st' = (samples st)[unat (h_quantity (header st)) := s]"
    and qty: "h_quantity (header st') = h_quantity (header st) + 1"
    and cur: "current_index st' = current_index st + 1"
    and mem: "memory_ptr st' = memory_ptr st" "memory_n st' = memory_n st" "initialized st' = initialized st"
    and info: "h_quantity (header st) \<noteq> 0 \<Longrightarrow> info_cmdline st' = info_cmdline st \<and> info_exe st' = info_exe st"
       "h_quantity (header st) = 0 \<Longrightarrow> info_cmdline st' = Some k \<and> info_exe st' = Some k"
    using st' unfolding packet_append_unfold[OF i go] Let_def by auto
  have wf': "\<forall>x \<in> set (samples st'). wf_sample x"
    unfolding upd by (rule wf_list_update[OF wf s])
  have "packet_inv st'"
    using inv info upd mem len wf' unfolding packet_inv_def by (cases "h_quantity (header st) = 0") auto
  moreover have "pending st' = pending st @ [s]"
    unfolding pending_def upd qty q using quantity_lt[of "h_quantity (header st)"] len
    by (simp only: take_Suc_update)
  ultimately show ?thesis using st' cur qty that by blast
qed

section \<open>Serialising\<close>

definition strings_of :: "proc_table \<Rightarrow> packet_state \<Rightarrow> bytes \<Rightarrow> bytes \<Rightarrow> bool" where
  "strings_of t st cmdline exe \<longleftrightarrow>
     deref_info pi_cmdline t (info_cmdline st) = Inr cmdline \<and>
     deref_info pi_executable t (info_exe st) = Inr exe"

lemma realloc_length: "realloc alloc old amt = Some blk \<Longrightarrow> length blk = amt"
  by (auto simp: realloc_def Let_def)

lemma demand_memory_cases:
  assumes inv: "packet_inv st" and str: "strings_of t st cmdline exe"
  defines "amt \<equiv> 20 + 28 * unat (h_quantity (header st)) + (length cmdline + 1) + (length exe + 1)"
  obtains (fail) "memory_n st < amt" "alloc amt = None"
      "demand_memory alloc t st = Inr (0, st\<lparr>memory_ptr := None, memory_n := 0\<rparr>)"
    | (ok) blk where "amt \<le> length blk"
      "demand_memory alloc t st = Inr (amt, st\<lparr>memory_ptr := Some blk, memory_n := length blk\<rparr>)"
proof -
  have amt: "20 + 4 * (NUM_COUNTERS + 1) * unat (h_quantity (header st)) +
                 (length cmdline + 1) + (length exe + 1) = amt"
    by (simp add: amt_def NUM_COUNTERS_def)
  have d: "demand_memory alloc t st =
    (if amt \<le> memory_n st then Inr (amt, st)
     else let st = st\<lparr>memory_ptr := realloc alloc (memory_ptr st) amt\<rparr>
          in if memory_ptr st = None then Inr (0, st\<lparr>memory_n := 0\<rparr>)
             else Inr (amt, st\<lparr>memory_n := amt\<rparr>))"
    using str unfolding demand_memory_def strings_of_def amt[symmetric] by (simp add: Let_def)
  show ?thesis
  proof (cases "amt \<le> memory_n st")
    case True
    then have "memory_n st \<noteq> 0" by (simp add: amt_def)
    with inv obtain blk where "memory_ptr st = Some blk" "length blk = memory_n st"
      by (auto simp: packet_inv_def)
    with True d ok[of blk] show ?thesis by simp
  next
    case False
    show ?thesis
    proof (cases "realloc alloc (memory_ptr st) amt")
      case None
      then have "alloc amt = None" by (simp add: realloc_def Let_def)
      with None False d fail show ?thesis by simp
    next
      case (Some blk)
      with False d ok[of blk] realloc_length[OF Some] show ?thesis by simp
    qed
  qed
qed

lemma writes_pending:
  assumes "packet_inv st"
  shows "writes (write_samples st) (concat (map sample_bytes (pending st)))"
proof -
  let ?n = "unat (h_quantity (header st))"
  have n: "?n \<le> length (samples st)"
    using assms quantity_lt[of "h_quantity (header st)"] by (simp add: packet_inv_def)
  have "map (\<lambda>i. sample_bytes (samples st ! i)) [0..<?n] = map sample_bytes (pending st)"
    using n by (auto simp: pending_def list_eq_iff_nth_eq)
  moreover have "wf_sample (samples st ! i)" if "i \<in> set [0..<?n]" for i
    using assms that n by (auto simp: packet_inv_def)
  then have "writes (write_samples st) (concat (map (\<lambda>i. sample_bytes (samples st ! i)) [0..<?n]))"
    unfolding write_samples_def by (intro writes_fold writes_sample)
  ultimately show ?thesis by simp
qed

lemma writes_strings:
  assumes "strings_of t st cmdline exe"
  shows "writes (write_info t st) (info_bytes cmdline exe)"
proof -
  have "writes (\<lambda>c. fault_bind (put_bytes (cmdline @ [0]) c) (put_bytes (exe @ [0])))
          ((cmdline @ [0]) @ (exe @ [0]))"
    by (intro writes_bind writes_put_bytes)
  moreover have "write_info t st = (\<lambda>c. fault_bind (put_bytes (cmdline @ [0]) c) (put_bytes (exe @ [0])))"
    using assms by (auto simp: write_info_def strings_of_def)
  ultimately show ?thesis by (simp add: info_bytes_def)
qed

text \<open>
  The states after a packet has been handed out differ from \<open>clear_data\<close> of the state before
  in the transmit memory only.
\<close>

definition after_create :: "packet_state \<Rightarrow> bytes \<Rightarrow> packet_state" where
  "after_create st blk = clear_data (st\<lparr>memory_ptr := Some blk, memory_n := length blk\<rparr>)"

lemma packet_create_empty:
  "packet_inv st \<Longrightarrow> h_quantity (header st) = 0 \<Longrightarrow>
   packet_create alloc t st = Inr (0, None, 0, clear_data st)"
  by (simp add: packet_create_def packet_inv_def)

lemma packet_create_cases:
  assumes inv: "packet_inv st" and q: "h_quantity (header st) \<noteq> 0" and str: "strings_of t st cmdline exe"
  defines "out \<equiv> packet_bytes (header st) (pending st) cmdline exe"
  obtains (fail) "alloc (length out) = None" "memory_n st < length out"
      "packet_create alloc t st = Inr (-1, None, 0, st\<lparr>memory_ptr := None, memory_n := 0\<rparr>)"
    | (ok) blk where "length out \<le> length blk" "take (length out) blk = out"
      "packet_create alloc t st = Inr (0, Some blk, length out, after_create st blk)"
proof -
  let ?amt = "20 + 28 * unat (h_quantity (header st)) + (length cmdline + 1) + (length exe + 1)"
  have len: "length out = ?amt"
    unfolding out_def using inv by (subst length_packet_bytes) (auto simp: wf_pending)
  have i: "initialized st" using inv by (simp add: packet_inv_def)
  from inv str show ?thesis
  proof (cases rule: demand_memory_cases[where alloc = alloc])
    case fail
    with i q len that(1) show ?thesis by (simp add: packet_create_def)
  next
    case (ok blk)
    let ?st = "st\<lparr>memory_ptr := Some blk, memory_n := length blk\<rparr>"
    have w: "writes (\<lambda>c. fault_bind (write_header (header st) c)
                 (\<lambda>c. fault_bind (write_samples ?st c) (write_info t ?st))) out"
      unfolding out_def packet_bytes_def
    proof (intro writes_bind writes_header)
      have "writes (write_samples st) (concat (map sample_bytes (pending st)))"
        by (rule writes_pending[OF inv])
      then show "writes (write_samples ?st) (concat (map sample_bytes (pending st)))"
        by (simp add: write_samples_def)
      have "strings_of t ?st cmdline exe" using str by (simp add: strings_of_def)
      then show "writes (write_info t ?st) (info_bytes cmdline exe)"
        by (rule writes_strings)
    qed
    from ok len have room: "0 + length out \<le> length blk" by simp
    obtain blk' where b: "fault_bind (write_header (header st) (blk, 0))
        (\<lambda>c. fault_bind (write_samples ?st c) (write_info t ?st)) = Inr (blk', 0 + length out)"
      "length blk' = length blk" "take (0 + length out) blk' = take 0 blk @ out"
      by (rule writesD[OF w room])
    note step = fault_bind_extend [where m = "write_header (header st) (blk, 0)" and g = "write_samples ?st"
        and h = "write_info t ?st", OF b(1)]
    have "packet_create alloc t st = Inr (0, Some blk', length out, after_create st blk')"
      using i q ok len b(2)
      by (simp add: packet_create_def after_create_def clear_data_def step)
    with b len ok that(2)[of blk'] show ?thesis by simp
  qed
qed

lemma after_create_inv [intro]: "packet_inv st \<Longrightarrow> packet_inv (after_create st blk)"
  unfolding after_create_def packet_inv_def by (simp add: clear_data_def zero_header_def)

lemma after_create_simps [simp]:
  "h_quantity (header (after_create st blk)) = 0"
  "h_batch (header (after_create st blk)) = h_batch (header st)"
  "current_index (after_create st blk) = current_index st"
  "initialized (after_create st blk) = initialized st"
  "pending (after_create st blk) = []"
  by (simp_all add: after_create_def)

end
