(* ===== verification/Packet_Read.thy ===== *)
theory Packet_Read
  imports Packet_Write "HOL-Library.Sublist"
begin

text \<open>
  The reading half of sender/packet.cpp: decoding one packet from memory. A pointer is the
  list of bytes from it to the end of the mapped object, so a read past the object is a
  fault; the size \<open>n\<close> the caller passes is a separate number, as in the code.
\<close>

section \<open>packet_read\<close>

text \<open>The variables the caller passes by address.\<close>

record read_result =
  rr_hdr :: packet_header
  rr_buf :: "sample list"
  rr_cmdline :: "bytes option"
  rr_exe :: "bytes option"
  rr_read :: nat

definition read_header :: "bytes \<Rightarrow> fault + packet_header" where
  "read_header base =
     (case base of k # c # co # q # ints \<Rightarrow>
        fault_bind (load_net32 ints) (\<lambda>batch.
        fault_bind (load_net32 (drop 4 ints)) (\<lambda>missed.
        fault_bind (load_net32 (drop 8 ints)) (\<lambda>first_index.
        fault_bind (load_net32 (drop 12 ints)) (\<lambda>pid.
          Inr \<lparr>h_kernel = k, h_counters = c, h_core = co, h_quantity = q,
               h_batch = batch, h_missed = missed, h_first_index = first_index, h_pid = pid\<rparr>))))
      | _ \<Rightarrow> Inl OutOfBounds)"

definition read_sample :: "u32 \<Rightarrow> bytes \<Rightarrow> sample \<Rightarrow> fault + sample" where
  "read_sample pid ints s =
     fault_bind (load_net32 ints) (\<lambda>cycles.
       fault_fold (\<lambda>c s. fault_bind (load_net32 (drop (4 * (c + 1)) ints))
                           (\<lambda>w. Inr (s\<lparr>s_counters := (s_counters s)[c := w]\<rparr>)))
         [0..<NUM_COUNTERS] (s\<lparr>s_cycles := ucast cycles, s_pid := ucast pid\<rparr>))"

text \<open>\<open>k\<close> samples are left to read, the next one into \<open>buf[i]\<close>.\<close>

fun read_samples :: "nat \<Rightarrow> nat \<Rightarrow> bytes \<Rightarrow> u32 \<Rightarrow> sample list \<Rightarrow> fault + sample list" where
  "read_samples 0 i ints pid buf = Inr buf"
| "read_samples (Suc k) i ints pid buf =
     (if i < length buf
      then fault_bind (read_sample pid ints (buf ! i)) (\<lambda>s.
             read_samples k (i + 1) (drop (4 * (NUM_COUNTERS + 1)) ints) pid (buf[i := s]))
      else Inl OutOfBounds)"

text \<open>\<open>for (; n && *ptr; --n) { ++ptr; ++*read; }\<close>\<close>

fun scan_string :: "bytes \<Rightarrow> nat \<Rightarrow> nat \<Rightarrow> fault + (bytes \<times> nat \<times> nat)" where
  "scan_string [] n rd = (if n = 0 then Inr ([], n, rd) else Inl OutOfBounds)"
| "scan_string (c # cs) n rd =
     (if n = 0 \<or> c = 0 then Inr (c # cs, n, rd) else scan_string cs (n - 1) (rd + 1))"

definition read_info :: "bytes \<Rightarrow> nat \<Rightarrow> read_result \<Rightarrow> fault + (int \<times> read_result)" where
  "read_info ptr n out =
     (let out = out\<lparr>rr_cmdline := Some ptr\<rparr>
      in fault_bind (scan_string ptr n (rr_read out)) (\<lambda>(ptr, n, rd).
           let n = size_pred n
           in if n = 0 then Inr (1, out\<lparr>rr_read := rd\<rparr>)
              else
                let ptr = drop 1 ptr; rd = rd + 1; out = out\<lparr>rr_exe := Some ptr\<rparr>
                in fault_bind (scan_string ptr n rd) (\<lambda>(ptr, n, rd).
                     Inr (0, out\<lparr>rr_read := rd + 1\<rparr>))))"

definition packet_read :: "bytes \<Rightarrow> nat \<Rightarrow> read_result \<Rightarrow> fault + (int \<times> read_result)" where
  "packet_read base n out =
     (let out = out\<lparr>rr_read := 0\<rparr>; amt = sizeof_packet_header
      in if n < amt then Inr (1, out)
         else
           fault_bind (read_header base) (\<lambda>hdr.
             let out = out\<lparr>rr_hdr := hdr\<rparr>;
                 n = n - amt; out = out\<lparr>rr_read := rr_read out + amt\<rparr>; base = drop amt base;
                 amt = 4 * (NUM_COUNTERS + 1) * unat (h_quantity hdr)
             in if n < amt then Inr (1, out)
                else
                  fault_bind (read_samples (unat (h_quantity hdr)) 0 base (h_pid hdr) (rr_buf out)) (\<lambda>buf.
                    let out = out\<lparr>rr_buf := buf\<rparr>;
                        n = n - amt; out = out\<lparr>rr_read := rr_read out + amt\<rparr>; base = drop amt base
                    in read_info base n out)))"

section \<open>Packets as values\<close>

record wire_packet =
  wp_header :: packet_header
  wp_samples :: "sample list"
  wp_cmdline :: bytes
  wp_exe :: bytes

definition wire_bytes :: "wire_packet \<Rightarrow> bytes" where
  "wire_bytes p = packet_bytes (wp_header p) (wp_samples p) (wp_cmdline p) (wp_exe p)"

definition wf_packet :: "wire_packet \<Rightarrow> bool" where
  "wf_packet p \<longleftrightarrow>
     unat (h_quantity (wp_header p)) = length (wp_samples p) \<and>
     (\<forall>s \<in> set (wp_samples p). wf_sample s) \<and> nul_free (wp_cmdline p) \<and> nul_free (wp_exe p)"

text \<open>
  What the wire keeps of a sample: the low 32 bits of the cycle count, the counters, and the
  pid of the packet's header.
\<close>

definition wire_sample :: "u32 \<Rightarrow> sample \<Rightarrow> sample" where
  "wire_sample pid s =
     \<lparr>s_cycles = ucast (ucast (s_cycles s) :: u32), s_pid = ucast pid, s_counters = s_counters s\<rparr>"

lemma length_wire_bytes:
  "wf_packet p \<Longrightarrow> length (wire_bytes p) =
     20 + 28 * unat (h_quantity (wp_header p)) + (length (wp_cmdline p) + 1) + (length (wp_exe p) + 1)"
  by (simp add: wire_bytes_def wf_packet_def length_packet_bytes)

section \<open>Reading what was written\<close>

lemma read_header_bytes [simp]: "read_header (header_bytes h @ rest) = Inr h"
  by (simp add: read_header_def header_bytes_def)

lemma six_counters:
  assumes "wf_sample s"
  obtains a b c d e f where "s_counters s = [a, b, c, d, e, f]"
  using assms by (auto simp: wf_sample_def numeral_eq_Suc length_Suc_conv)

lemma upt_NUM_COUNTERS: "[0..<NUM_COUNTERS] = [0, 1, 2, 3, 4, 5]"
  by (simp add: NUM_COUNTERS_def upt_rec)

lemma read_sample_bytes:
  assumes "wf_sample s" and "wf_sample s0"
  shows "read_sample pid (sample_bytes s @ rest) s0 = Inr (wire_sample pid s)"
proof -
  obtain a b c d e f where s: "s_counters s = [a, b, c, d, e, f]" using six_counters[OF assms(1)] .
  obtain a' b' c' d' e' f' where s0: "s_counters s0 = [a', b', c', d', e', f']" using six_counters[OF assms(2)] .
  show ?thesis
    by (simp add: read_sample_def sample_bytes_def upt_NUM_COUNTERS s s0 wire_sample_def)
qed

lemma read_samples_bytes:
  assumes "\<forall>s \<in> set ss. wf_sample s" and "\<forall>s \<in> set buf. wf_sample s" and "i + length ss \<le> length buf"
  shows "read_samples (length ss) i (concat (map sample_bytes ss) @ rest) pid buf =
           Inr (take i buf @ map (wire_sample pid) ss @ drop (i + length ss) buf)"
  using assms
proof (induction ss arbitrary: i buf)
  case Nil
  then show ?case by simp
next
  case (Cons s ss)
  let ?buf = "buf[i := wire_sample pid s]"
  from Cons.prems have i: "i < length buf" by simp
  with Cons.prems have s: "wf_sample s" and bi: "wf_sample (buf ! i)" by auto
  have wfb: "\<forall>x \<in> set ?buf. wf_sample x"
    using Cons.prems(2) s by (intro wf_list_update) (auto simp: wf_sample_def wire_sample_def)
  have "read_samples (length (s # ss)) i (concat (map sample_bytes (s # ss)) @ rest) pid buf =
        read_samples (length ss) (i + 1) (concat (map sample_bytes ss) @ rest) pid ?buf"
    using i s bi length_sample_bytes[OF s] by (simp add: read_sample_bytes NUM_COUNTERS_def)
  also have "\<dots> = Inr (take (i + 1) ?buf @ map (wire_sample pid) ss @ drop (i + 1 + length ss) ?buf)"
    using Cons.prems wfb by (intro Cons.IH) auto
  also have "take (i + 1) ?buf = take i buf @ [wire_sample pid s]"
    using i by (rule take_Suc_update)
  finally show ?case by simp
qed

lemma scan_string_nul_free:
  "nul_free s \<Longrightarrow> length s < n \<Longrightarrow> scan_string (s @ 0 # rest) n rd = Inr (0 # rest, n - length s, rd + length s)"
  by (induction s arbitrary: n rd) (auto simp: )

lemma read_info_bytes:
  assumes "nul_free cmdline" and "nul_free exe" and "length (info_bytes cmdline exe) \<le> n"
  shows "read_info (info_bytes cmdline exe @ rest) n out =
     Inr (0, out\<lparr>rr_cmdline := Some (cmdline @ 0 # exe @ 0 # rest), rr_exe := Some (exe @ 0 # rest),
               rr_read := rr_read out + length (info_bytes cmdline exe)\<rparr>)"
  using assms by (simp add: read_info_def info_bytes_def scan_string_nul_free Let_def)

text \<open>The header and the samples are read; what is left is the work of \<open>read_info\<close>.\<close>

lemma packet_read_header_samples:
  assumes p: "wf_packet p" and n: "20 + 28 * length (wp_samples p) \<le> n"
    and buf: "length (wp_samples p) \<le> length (rr_buf out)" "\<forall>s \<in> set (rr_buf out). wf_sample s"
  shows "packet_read (header_bytes (wp_header p) @ concat (map sample_bytes (wp_samples p)) @ rest) n out =
     read_info rest (n - (20 + 28 * length (wp_samples p)))
       (out\<lparr>rr_hdr := wp_header p,
            rr_buf := map (wire_sample (h_pid (wp_header p))) (wp_samples p) @
                      drop (length (wp_samples p)) (rr_buf out),
            rr_read := 20 + 28 * length (wp_samples p)\<rparr>)"
proof -
  let ?h = "wp_header p" and ?ss = "wp_samples p"
  have q: "unat (h_quantity ?h) = length ?ss" and wf: "\<forall>s \<in> set ?ss. wf_sample s"
    using p by (simp_all add: wf_packet_def)
  have d20: "drop sizeof_packet_header (header_bytes ?h @ r) = r" for r
    by (simp add: sizeof_packet_header_def)
  have len: "length (concat (map sample_bytes ?ss)) = 28 * length ?ss" by (rule length_samples_bytes[OF wf])
  have enough: "\<not> n - 20 < 28 * length ?ss" using n by linarith
  have rs: "read_samples (length ?ss) 0 (concat (map sample_bytes ?ss) @ rest) (h_pid ?h) (rr_buf out) =
      Inr (map (wire_sample (h_pid ?h)) ?ss @ drop (length ?ss) (rr_buf out))"
    using read_samples_bytes[of ?ss "rr_buf out" 0 rest "h_pid ?h"] wf buf by simp
  show ?thesis
    using n q by (simp add: packet_read_def d20 Let_def NUM_COUNTERS_def sizeof_packet_header_def rs len enough)
qed

theorem packet_read_wire_bytes:
  assumes p: "wf_packet p"
    and n: "length (wire_bytes p) \<le> n"
    and buf: "length (wp_samples p) \<le> length (rr_buf out)" "\<forall>s \<in> set (rr_buf out). wf_sample s"
  shows "packet_read (wire_bytes p @ rest) n out =
     Inr (0, \<lparr>rr_hdr = wp_header p,
              rr_buf = map (wire_sample (h_pid (wp_header p))) (wp_samples p) @
                       drop (length (wp_samples p)) (rr_buf out),
              rr_cmdline = Some (wp_cmdline p @ 0 # wp_exe p @ 0 # rest),
              rr_exe = Some (wp_exe p @ 0 # rest),
              rr_read = length (wire_bytes p)\<rparr>)"
proof -
  have "length (wire_bytes p) =
      20 + 28 * length (wp_samples p) + length (info_bytes (wp_cmdline p) (wp_exe p))"
    using length_wire_bytes[OF p] p by (simp add: wf_packet_def)
  then show ?thesis
    using p n packet_read_header_samples[OF p _ buf, of n]
    by (simp add: wire_bytes_def packet_bytes_def read_info_bytes wf_packet_def)
qed

section \<open>Any input\<close>

lemma read_header_in_bounds:
  "20 \<le> length base \<Longrightarrow> \<exists>h. read_header base = Inr h \<and> h_quantity h = base ! 3"
proof -
  assume len: "20 \<le> length base"
  then have "4 \<le> length base" by simp
  then obtain a b c d ints where base: "base = a # b # c # d # ints"
    by (auto simp: numeral_eq_Suc Suc_le_length_iff)
  with len have "4 \<le> length ints" "4 \<le> length (drop 4 ints)" "4 \<le> length (drop 8 ints)"
    "4 \<le> length (drop 12 ints)" by simp_all
  then obtain w0 w1 w2 w3 where "load_net32 ints = Inr w0" "load_net32 (drop 4 ints) = Inr w1"
    "load_net32 (drop 8 ints) = Inr w2" "load_net32 (drop 12 ints) = Inr w3"
    by (meson load_net32_in_bounds)
  then show ?thesis by (simp add: read_header_def base)
qed

lemma read_sample_in_bounds:
  assumes "28 \<le> length ints"
  shows "\<exists>s'. read_sample pid ints s = Inr s'"
proof -
  let ?f = "\<lambda>c s. fault_bind (load_net32 (drop (4 * (c + 1)) ints)) (\<lambda>w. Inr (s\<lparr>s_counters := (s_counters s)[c := w]\<rparr>))"
  obtain cyc where cyc: "load_net32 ints = Inr cyc" using load_net32_in_bounds[of ints] assms by auto
  have "\<exists>s'. ?f c s = Inr s' \<and> True" if "c \<in> set [0..<NUM_COUNTERS]" for c and s :: sample
  proof -
    from that assms have "4 \<le> length (drop (4 * (c + 1)) ints)" by (simp add: NUM_COUNTERS_def)
    then obtain w where "load_net32 (drop (4 * (c + 1)) ints) = Inr w" using load_net32_in_bounds by blast
    then show ?thesis by simp
  qed
  then show ?thesis
    using fault_fold_total[of "[0..<NUM_COUNTERS]" "\<lambda>_. True" ?f] cyc by (auto simp: read_sample_def)
qed

lemma read_samples_in_bounds:
  "28 * k \<le> length ints \<Longrightarrow> i + k \<le> length buf \<Longrightarrow>
   \<exists>buf'. read_samples k i ints pid buf = Inr buf' \<and> length buf' = length buf"
proof (induction k arbitrary: i ints buf)
  case 0
  then show ?case by simp
next
  case (Suc k)
  then obtain s where "read_sample pid ints (buf ! i) = Inr s"
    using read_sample_in_bounds[of ints] by fastforce
  with Suc.prems Suc.IH[of "drop 28 ints" "i + 1" "buf[i := s]"] show ?case
    by (simp add: NUM_COUNTERS_def)
qed

lemma scan_string_in_bounds:
  "n \<le> length ms \<Longrightarrow>
   scan_string ms n rd = Inr (drop (length (c_str (take n ms))) ms, n - length (c_str (take n ms)),
                              rd + length (c_str (take n ms)))"
proof (induction ms arbitrary: n rd)
  case Nil
  then show ?case by (simp add: c_str_def)
next
  case (Cons c cs)
  then show ?case by (cases n) (auto simp: c_str_def)
qed

lemma c_str_less: "0 \<in> set s \<Longrightarrow> length (c_str s) < length s"
  by (induction s) (auto simp: c_str_def)

lemma c_str_take_less: "0 \<in> set (take n ms) \<Longrightarrow> length (c_str (take n ms)) < n"
  using c_str_less[of "take n ms"] by simp

text \<open>
  The behaviour of \<open>read_info\<close> when the \<open>n\<close> bytes it may use hold a NUL: 1 when nothing
  follows the command line, else 0. Without a NUL in the executable's part it still returns 0
  and counts one byte more than there is.
\<close>

lemma read_info_terminated:
  assumes "n \<le> length ms" and "0 \<in> set (take n ms)"
  defines "j \<equiv> length (c_str (take n ms))"
  defines "e \<equiv> length (c_str (take (n - j - 1) (drop (j + 1) ms)))"
  shows "read_info ms n out =
     (if n = j + 1
      then Inr (1, out\<lparr>rr_cmdline := Some ms, rr_read := rr_read out + j\<rparr>)
      else Inr (0, out\<lparr>rr_cmdline := Some ms, rr_exe := Some (drop (j + 1) ms),
                       rr_read := rr_read out + j + e + 2\<rparr>))"
proof -
  have j: "j < n" unfolding j_def by (rule c_str_take_less[OF assms(2)])
  have s1: "scan_string ms n rd = Inr (drop j ms, n - j, rd + j)" for rd
    unfolding j_def by (rule scan_string_in_bounds[OF assms(1)])
  have "n - j - 1 \<le> length (drop (j + 1) ms)" using assms(1) by simp
  from scan_string_in_bounds[OF this]
  have s2: "scan_string (drop (j + 1) ms) (n - j - 1) rd =
      Inr (drop e (drop (j + 1) ms), n - j - 1 - e, rd + e)" for rd
    unfolding e_def by simp
  show ?thesis
    using j unfolding read_info_def Let_def by (auto simp: s1 s2[simplified])
qed

lemma scan_string_beyond:
  "length ms < n \<Longrightarrow>
   scan_string ms n rd = (if 0 \<in> set ms
      then Inr (drop (length (c_str ms)) ms, n - length (c_str ms), rd + length (c_str ms))
      else Inl OutOfBounds)"
  by (induction ms arbitrary: n rd) (auto simp: c_str_def)

text \<open>
  With no NUL among the \<open>n\<close> bytes the size wraps around and the scan continues behind them:
  the result is never "more bytes are needed".
\<close>

lemma read_info_unterminated:
  assumes "n \<le> length ms" and "length ms < SIZE_MAX" and "0 \<notin> set (take n ms)"
  shows "read_info ms n out = Inl OutOfBounds \<or>
         (\<exists>out'. read_info ms n out = Inr (0, out') \<and> rr_read out + n < rr_read out')"
proof -
  have "c_str (take n ms) = take n ms"
    using assms(3) by (intro c_str_nul_free) (simp add: nul_free_def)
  then have "scan_string ms n rd = Inr (drop n ms, 0, rd + n)" for rd
    using scan_string_in_bounds[OF assms(1)] assms(1) by simp
  moreover have "length (drop (n + 1) ms) < SIZE_MAX" using assms(2) by simp
  ultimately show ?thesis
    using assms(2) unfolding read_info_def Let_def by (auto simp: scan_string_beyond)
qed

text \<open>The four outcomes of \<open>packet_read\<close> by the size of the input.\<close>

lemma packet_read_short_header:
  "n < 20 \<Longrightarrow> packet_read base n out = Inr (1, out\<lparr>rr_read := 0\<rparr>)"
  by (simp add: packet_read_def sizeof_packet_header_def Let_def)

lemma packet_read_short_samples:
  assumes "20 \<le> n" "n \<le> length base" "n < 20 + 28 * unat (base ! 3)"
  shows "\<exists>out'. packet_read base n out = Inr (1, out') \<and> rr_read out' = 20 \<and> rr_buf out' = rr_buf out"
proof -
  obtain h where "read_header base = Inr h" "h_quantity h = base ! 3"
    using read_header_in_bounds[of base] assms by auto
  moreover have "n - 20 < 28 * unat (base ! 3)" using assms by linarith
  ultimately show ?thesis using assms
    by (simp add: packet_read_def sizeof_packet_header_def Let_def NUM_COUNTERS_def)
qed

lemma packet_read_info:
  assumes "20 + 28 * unat (base ! 3) \<le> n" "n \<le> length base" "255 \<le> length (rr_buf out)"
  obtains out' where "rr_read out' = 20 + 28 * unat (base ! 3)"
    "packet_read base n out =
       read_info (drop (20 + 28 * unat (base ! 3)) base) (n - 20 - 28 * unat (base ! 3)) out'"
proof -
  let ?q = "unat (base ! 3)"
  obtain h where h: "read_header base = Inr h" "h_quantity h = base ! 3"
    using read_header_in_bounds[of base] assms by auto
  have "28 * ?q \<le> length (drop 20 base)" "0 + ?q \<le> length (rr_buf out)"
    using assms quantity_lt[of "base ! 3"] by simp_all
  then obtain buf where "read_samples ?q 0 (drop 20 base) (h_pid h) (rr_buf out) = Inr buf"
    using read_samples_in_bounds by blast
  moreover have "\<not> n - 20 < 28 * ?q" using assms by linarith
  ultimately show ?thesis using h assms
    by (intro that[of "out\<lparr>rr_hdr := h, rr_buf := buf, rr_read := 20 + 28 * ?q\<rparr>"])
      (simp_all add: packet_read_def sizeof_packet_header_def Let_def NUM_COUNTERS_def add.commute)
qed

section \<open>A packet that is cut off\<close>

text \<open>
  Memory behind the end of a file is zero up to the end of its page. What the reader makes of
  the first \<open>k\<close> bytes of a packet: nothing while the samples are not complete, or when just the
  executable's part is missing; else a packet whose strings end where the file ends.
\<close>

definition cut_packet :: "nat \<Rightarrow> wire_packet \<Rightarrow> wire_packet option" where
  "cut_packet k p =
     (let r = k - (20 + 28 * length (wp_samples p)); cl = length (wp_cmdline p)
      in if k < 20 + 28 * length (wp_samples p) \<or> r = cl + 1 then None
         else Some (p\<lparr>wp_cmdline := take r (wp_cmdline p), wp_exe := take (r - (cl + 1)) (wp_exe p)\<rparr>))"

lemma wf_cut_packet: "wf_packet p \<Longrightarrow> cut_packet k p = Some q \<Longrightarrow> wf_packet q"
  by (auto simp: cut_packet_def wf_packet_def nul_free_def Let_def dest: in_set_takeD split: if_splits)

lemma cut_packet_all: "wf_packet p \<Longrightarrow> cut_packet (length (wire_bytes p)) p = Some p"
  by (simp add: cut_packet_def length_wire_bytes wf_packet_def)

lemma cut_packet_samples:
  "cut_packet k p = Some q \<Longrightarrow> wp_header q = wp_header p \<and> wp_samples q = wp_samples p"
  by (auto simp: cut_packet_def Let_def split: if_splits)

text \<open>What is left of a stream of packets in a file of its first \<open>n\<close> bytes.\<close>

fun cut_packets :: "nat \<Rightarrow> wire_packet list \<Rightarrow> wire_packet list" where
  "cut_packets n [] = []"
| "cut_packets n (p # ps) =
     (if length (wire_bytes p) \<le> n then p # cut_packets (n - length (wire_bytes p)) ps
      else case cut_packet n p of None \<Rightarrow> [] | Some q \<Rightarrow> [q])"

lemma wf_cut_packets: "\<forall>p \<in> set ps. wf_packet p \<Longrightarrow> \<forall>q \<in> set (cut_packets n ps). wf_packet q"
  by (induction n ps rule: cut_packets.induct) (auto split: option.splits dest: wf_cut_packet[OF _ sym])

lemma cut_packets_0 [simp]: "\<forall>p \<in> set ps. wf_packet p \<Longrightarrow> cut_packets 0 ps = []"
  by (cases ps) (auto simp: cut_packet_def length_wire_bytes)

lemma cut_packets_samples: "prefix (map wp_samples (cut_packets n ps)) (map wp_samples ps)"
  by (induction n ps rule: cut_packets.induct) (auto split: option.splits dest: cut_packet_samples)

lemma cut_packets_headers: "prefix (map wp_header (cut_packets n ps)) (map wp_header ps)"
  by (induction n ps rule: cut_packets.induct) (auto split: option.splits dest: cut_packet_samples)

text \<open>A string that the end of the file cuts off: the scan stops at the zero behind it.\<close>

lemma scan_string_stop: "scan_string ms 0 rd = Inr (ms, 0, rd)"
  by (cases ms) simp_all

lemma scan_string_cut: "nul_free s \<Longrightarrow> scan_string (s @ rest) (length s) rd = Inr (rest, 0, rd + length s)"
  by (induction s arbitrary: rd) (auto intro: scan_string_stop)

lemma read_info_cut:
  assumes "nul_free cmd" and "nul_free exe" and "r < length (info_bytes cmd exe)"
    and bs_def: "bs = take r (info_bytes cmd exe) @ 0 # 0 # pad"
  shows "if r = length cmd + 1 then \<exists>out'. read_info bs r out = Inr (1, out')
         else \<exists>rest rest' rd. rr_read out + r < rd \<and> read_info bs r out =
           Inr (0, out\<lparr>rr_cmdline := Some (take r cmd @ 0 # rest),
                        rr_exe := Some (take (r - (length cmd + 1)) exe @ 0 # rest'), rr_read := rd\<rparr>)"
proof -
  consider "r \<le> length cmd" | "r = length cmd + 1" | e where "r = length cmd + 1 + e" "0 < e" "e \<le> length exe"
    using assms(3) by (fastforce simp: info_bytes_def dest: less_imp_Suc_add intro: that(3)[of "r - (length cmd + 1)"])
  then show ?thesis
  proof cases
    case 1
    then have bs: "bs = take r cmd @ 0 # 0 # pad" and nf: "nul_free (take r cmd)" and l: "length (take r cmd) = r"
      using assms(1) by (auto simp: bs_def info_bytes_def nul_free_def dest: in_set_takeD)
    have "read_info bs r out = Inr (0, out\<lparr>rr_cmdline := Some (take r cmd @ 0 # 0 # pad),
        rr_exe := Some (0 # pad), rr_read := rr_read out + r + 2\<rparr>)"
      using scan_string_cut[OF nf, of "0 # 0 # pad"] l
      by (simp add: read_info_def Let_def bs size_pred_def SIZE_MAX_def)
    then show ?thesis
      using 1 by (simp, intro exI[of _ "0 # pad"] exI[of _ pad] exI[of _ "rr_read out + r + 2"]) simp
  next
    case 2
    then have "bs = cmd @ 0 # 0 # 0 # pad" by (simp add: bs_def info_bytes_def)
    then show ?thesis using 2 by (simp add: read_info_def Let_def scan_string_nul_free[OF assms(1)])
  next
    case (3 e)
    then have bs: "bs = cmd @ 0 # take e exe @ 0 # 0 # pad" and nf: "nul_free (take e exe)" and l: "length (take e exe) = e"
      using assms(2) by (auto simp: bs_def info_bytes_def nul_free_def dest: in_set_takeD)
    have "read_info bs r out = Inr (0, out\<lparr>rr_cmdline := Some (cmd @ 0 # take e exe @ 0 # 0 # pad),
        rr_exe := Some (take e exe @ 0 # 0 # pad), rr_read := rr_read out + r + 1\<rparr>)"
      using 3 scan_string_cut[OF nf, of "0 # 0 # pad"] l
      by (simp add: read_info_def Let_def bs scan_string_nul_free[OF assms(1)])
    then show ?thesis
      using 3 by (simp, intro exI[of _ "take e exe @ 0 # 0 # pad"] exI[of _ "0 # pad"] exI[of _ "rr_read out + r + 1"]) simp
  qed
qed

theorem packet_read_cut:
  assumes p: "wf_packet p" and k: "k < length (wire_bytes p)"
    and buf: "length (wp_samples p) \<le> length (rr_buf out)" "\<forall>s \<in> set (rr_buf out). wf_sample s"
  shows "case cut_packet k p of
      None \<Rightarrow> \<exists>out'. packet_read (take k (wire_bytes p) @ 0 # 0 # pad) k out = Inr (1, out')
    | Some q \<Rightarrow> \<exists>rest rest' rd. k < rd \<and> packet_read (take k (wire_bytes p) @ 0 # 0 # pad) k out =
        Inr (0, out\<lparr>rr_hdr := wp_header p,
                    rr_buf := map (wire_sample (h_pid (wp_header p))) (wp_samples p) @
                              drop (length (wp_samples p)) (rr_buf out),
                    rr_cmdline := Some (wp_cmdline q @ 0 # rest), rr_exe := Some (wp_exe q @ 0 # rest'),
                    rr_read := rd\<rparr>)"
proof -
  let ?ss = "wp_samples p" and ?info = "info_bytes (wp_cmdline p) (wp_exe p)"
  let ?out = "out\<lparr>rr_hdr := wp_header p,
      rr_buf := map (wire_sample (h_pid (wp_header p))) ?ss @ drop (length ?ss) (rr_buf out),
      rr_read := 20 + 28 * length ?ss\<rparr>"
  let ?hl = "20 + 28 * length ?ss" and ?bs = "take k (wire_bytes p) @ 0 # 0 # pad"
  have q: "unat (h_quantity (wp_header p)) = length ?ss" and nf: "nul_free (wp_cmdline p)" "nul_free (wp_exe p)"
    and len: "length (concat (map sample_bytes ?ss)) = 28 * length ?ss"
    using p length_samples_bytes by (auto simp: wf_packet_def)
  show ?thesis
  proof (cases "k < ?hl")
    case True
    have "\<exists>out'. packet_read ?bs k out = Inr (1, out')"
    proof (cases "k < 20")
      case False
      then have "?bs ! 3 = h_quantity (wp_header p)"
        by (simp add: nth_append wire_bytes_def packet_bytes_def header_bytes_def)
      then show ?thesis
        using packet_read_short_samples[of k ?bs out] False True k q by auto
    qed (use packet_read_short_header in blast)
    then show ?thesis using True by (simp add: cut_packet_def)
  next
    case False
    let ?r = "k - ?hl"
    have bs: "?bs = header_bytes (wp_header p) @ concat (map sample_bytes ?ss) @ take ?r ?info @ 0 # 0 # pad"
      using False len by (simp add: wire_bytes_def packet_bytes_def)
    have r: "?r < length ?info" using k False len by (simp add: wire_bytes_def packet_bytes_def)
    note i = packet_read_header_samples[OF p _ buf, of k "take ?r ?info @ 0 # 0 # pad"] read_info_cut[OF nf r refl]
    show ?thesis
    proof (cases "?r = length (wp_cmdline p) + 1")
      case True
      then have "cut_packet k p = None" by (simp add: cut_packet_def)
      with i True False show ?thesis unfolding bs by (simp del: diff_diff_left)
    next
      case r1: False
      then obtain rest rest' rd where "?hl + ?r < rd" and "packet_read ?bs k out =
          Inr (0, ?out\<lparr>rr_cmdline := Some (take ?r (wp_cmdline p) @ 0 # rest),
                   rr_exe := Some (take (?r - (length (wp_cmdline p) + 1)) (wp_exe p) @ 0 # rest'), rr_read := rd\<rparr>)"
        using i(1) i(2)[of pad ?out] False unfolding bs
        by (simp del: diff_diff_left) blast
      with r1 False show ?thesis by (auto simp: cut_packet_def Let_def)
    qed
  qed
qed

section \<open>Progress\<close>

text \<open>A packet that is delivered always advances the reader.\<close>

lemma scan_string_read: "scan_string ms n rd = Inr (ms', n', rd') \<Longrightarrow> rd \<le> rd'"
  by (induction ms n rd rule: scan_string.induct) (auto split: if_splits)

lemma read_info_read: "read_info ms n out = Inr (0, out') \<Longrightarrow> rr_read out < rr_read out'"
  by (auto simp: read_info_def Let_def fault_bind_Inr_iff dest!: scan_string_read split: if_splits)

lemma packet_read_progress:
  "packet_read base n out = Inr (0, out') \<Longrightarrow> 20 < rr_read out'"
  by (auto simp: packet_read_def Let_def fault_bind_Inr_iff sizeof_packet_header_def
      dest!: read_info_read split: if_splits)

end
