(* ===== verification/Network.thy ===== *)
theory Network
  imports Packet_Read
begin

text \<open>
  sender/network.cpp: the connection to the collecting host, and \<open>network_send\<close>, which cuts
  one buffer of samples into packets and transmits them.

  What the operating system answers is the parameter \<open>os_env\<close>, indexed by a clock that every
  use of it advances: the result of \<open>sendto\<close> for a length, of \<open>fwrite\<close> to the debug file,
  the state of /proc, and memory allocation. \<open>wire\<close> is the byte stream the socket has taken.
\<close>

section \<open>State\<close>

record os_env =
  os_sendto :: "nat \<Rightarrow> nat \<Rightarrow> int"
  os_fwrite :: "nat \<Rightarrow> nat \<Rightarrow> nat"
  os_proc :: "nat \<Rightarrow> proc_fs"
  os_alloc :: "nat \<Rightarrow> alloc_env"

record net_state =
  the_socket :: int
  addr_set :: bool
  net_debug :: bool
  network_debug :: "bytes option"
  wire :: bytes

record sender_state =
  clock :: nat
  table :: proc_table
  pkt :: packet_state
  net :: net_state

definition net_state0 :: net_state where
  "net_state0 = \<lparr>the_socket = 0, addr_set = False, net_debug = False, network_debug = None, wire = []\<rparr>"

definition network_set_debug :: "net_state \<Rightarrow> net_state" where
  "network_set_debug ns = ns\<lparr>net_debug := True\<rparr>"

section \<open>The connection\<close>

text \<open>
  The answers of \<open>getaddrinfo\<close>, \<open>socket\<close>, \<open>connect\<close> (with \<open>errno\<close>) and of opening the
  debug file.
\<close>

record connect_env =
  ce_getaddrinfo :: int
  ce_socket :: int
  ce_connect :: int
  ce_errno :: int
  ce_debug_opens :: bool

definition network_init :: "connect_env \<Rightarrow> net_state \<Rightarrow> fault + (int \<times> net_state)" where
  "network_init ce ns =
     (let ns = ns\<lparr>the_socket := 0, addr_set := False\<rparr>;
          ns = ns\<lparr>addr_set := (ce_getaddrinfo ce = 0)\<rparr>
      in if ce_getaddrinfo ce < 0 then Inr (-1, ns\<lparr>the_socket := 0, addr_set := False\<rparr>)
         else
           let ns = ns\<lparr>the_socket := ce_socket ce\<rparr>
           in if the_socket ns < 0 then Inr (-1, ns\<lparr>the_socket := 0, addr_set := False\<rparr>)
              else if \<not> addr_set ns then Inl NullDeref
              else if ce_connect ce \<noteq> 0 then Inr (ce_errno ce, ns\<lparr>the_socket := 0, addr_set := False\<rparr>)
              else Inr (0, if net_debug ns
                           then ns\<lparr>network_debug := (if ce_debug_opens ce then Some [] else None)\<rparr>
                           else ns))"

definition network_finish :: "net_state \<Rightarrow> packet_state \<Rightarrow> net_state \<times> packet_state" where
  "network_finish ns ps =
     (let ns = (if the_socket ns \<noteq> 0 then ns\<lparr>the_socket := 0\<rparr> else ns);
          ns = (if addr_set ns then ns\<lparr>addr_set := False\<rparr> else ns);
          ns = (if network_debug ns \<noteq> None then ns\<lparr>network_debug := None\<rparr> else ns)
      in (ns, packet_clean ps))"

section \<open>Sending a packet\<close>

text \<open>
  \<open>data\<close> is the object \<open>packet\<close> points to. \<open>sent\<close> is the variable behind the pointer of the
  same name, \<open>None\<close> for a null pointer.
\<close>

definition network_packet ::
  "os_env \<Rightarrow> nat \<Rightarrow> bytes \<Rightarrow> nat \<Rightarrow> nat option \<Rightarrow> net_state \<Rightarrow> fault + (int \<times> nat option \<times> net_state)" where
  "network_packet env i data n sent ns =
     (if length data < n then Inl OutOfBounds
      else
        let packet = take n data;
            sent_bytes = os_sendto env i n;
            ns = ns\<lparr>wire := wire ns @ take (nat sent_bytes) packet\<rparr>
        in if sent_bytes < 0 then Inr (-1, sent, ns)
           else if sent_bytes \<noteq> int n then Inr (-1, sent, ns)
           else
             case network_debug ns of
               None \<Rightarrow> Inr (0, map_option (\<lambda>_. nat sent_bytes) sent, ns)
             | Some f \<Rightarrow>
                 let written = os_fwrite env i n;
                     ns = ns\<lparr>network_debug := Some (f @ take written packet)\<rparr>
                 in if written = 0 then Inr (-1, sent, ns)
                    else Inr (0, map_option (\<lambda>_. nat sent_bytes) sent, ns))"

definition transmit :: "os_env \<Rightarrow> nat \<Rightarrow> sender_state \<Rightarrow> fault + (int \<times> nat \<times> sender_state)" where
  "transmit env sent st =
     (let i = clock st; st = st\<lparr>clock := i + 1\<rparr>
      in fault_bind (packet_create (os_alloc env i) (table st) (pkt st)) (\<lambda>(rc, packet, n, ps).
           let st = st\<lparr>pkt := ps\<rparr>
           in if rc \<noteq> 0 then Inr (-1, sent, st)
              else case packet of
                None \<Rightarrow> Inr (0, sent, st)
              | Some data \<Rightarrow>
                  fault_bind (network_packet env i data n (Some sent) (net st)) (\<lambda>(rc, sent', ns).
                    Inr (rc, the sent', st\<lparr>net := ns\<rparr>))))"

section \<open>Sending a buffer\<close>

definition lookup_process :: "os_env \<Rightarrow> u64 \<Rightarrow> sender_state \<Rightarrow> sender_state" where
  "lookup_process env pid st =
     st\<lparr>table := getProcessInfo (os_proc env (clock st)) pid (packet_empty (pkt st)) (table st),
        clock := clock st + 1\<rparr>"

text \<open>
  The body of the loop of \<open>network_send\<close> for one sample, with the variables \<open>sent\<close> and
  \<open>sent_total\<close>; a return code other than 0 leaves the function.
\<close>

definition send_one ::
  "os_env \<Rightarrow> buffer \<Rightarrow> u32 \<Rightarrow> sample \<Rightarrow> nat \<Rightarrow> nat \<Rightarrow> sender_state
     \<Rightarrow> fault + (int \<times> nat \<times> nat \<times> sender_state)" where
  "send_one env b missed s sent sent_total st =
     (let st = lookup_process env (s_pid s) st;
          p = proc_entry (table st) (s_pid s);
          (make, ps) = packet_should_create b s p (pkt st);
          st = st\<lparr>pkt := ps\<rparr>
      in fault_bind (if make then fault_bind (transmit env sent st) (\<lambda>(rc, sent, st).
                                    Inr (rc, sent, sent_total + sent, st))
                     else Inr (0, sent, sent_total, st)) (\<lambda>(rc, sent, sent_total, st).
           if rc \<noteq> 0 then Inr (-1, sent, sent_total, st)
           else
             let (rc, ps) = packet_append b s (table st) (s_pid s) missed (pkt st)
             in Inr (if rc \<noteq> 0 then -1 else 0, sent, sent_total, st\<lparr>pkt := ps\<rparr>)))"

fun send_samples ::
  "os_env \<Rightarrow> buffer \<Rightarrow> u32 \<Rightarrow> sample list \<Rightarrow> nat \<Rightarrow> nat \<Rightarrow> sender_state
     \<Rightarrow> fault + (int \<times> nat \<times> nat \<times> sender_state)" where
  "send_samples env b missed [] sent sent_total st = Inr (0, sent, sent_total, st)"
| "send_samples env b missed (s # ss) sent sent_total st =
     fault_bind (send_one env b missed s sent sent_total st) (\<lambda>(rc, sent, sent_total, st).
       if rc \<noteq> 0 then Inr (-1, sent, sent_total, st)
       else send_samples env b missed ss sent sent_total st)"

text \<open>The result carries \<open>*total\<close>, which is assigned on success only.\<close>

definition network_send ::
  "os_env \<Rightarrow> buffer \<Rightarrow> u32 \<Rightarrow> nat \<Rightarrow> sender_state \<Rightarrow> fault + (int \<times> nat \<times> sender_state)" where
  "network_send env b missed total0 st =
     (if \<not> unat (b_num_samples b) \<le> BUFFER_ENTRIES then Inl AssertFail
      else
        let st = st\<lparr>pkt := packet_start_batch (pkt st)\<rparr>
        in fault_bind (send_samples env b missed (filled b) 0 0 st) (\<lambda>(rc, sent, sent_total, st).
             if rc \<noteq> 0 then Inr (-1, total0, st)
             else
               fault_bind (transmit env sent st) (\<lambda>(rc, sent, st).
                 if rc \<noteq> 0 then Inr (-1, total0, st)
                 else Inr (0, sent_total + sent, st))))"

end
