(* ===== verification/Sender.thy ===== *)
theory Sender
  imports Network
begin

text \<open>
  sender/sender.cpp: the program that reads buffers of samples from the device and sends them.
  The files it reads are streams: of \<open>/dev/pmu_samples\<close> the results of the successive reads, of
  \<open>/sys/sync_pmu/missed\<close> the text that is left, of every other attribute its contents.
  Messages on stderr are not modelled.
\<close>

section \<open>Streams\<close>

text \<open>A read of the device gives a whole buffer or an error; after the last one it gives nothing.\<close>

datatype dev_read = GotBuffer buffer | ReadError

record device =
  dev_reads :: "dev_read list"
  dev_eof :: bool

instantiation device_ext :: (type) size
begin

definition size_device_ext :: "'a device_scheme \<Rightarrow> nat" where
  "size_device_ext f = length (dev_reads f) + (if dev_eof f then 0 else 1)"

instance ..

end

text \<open>\<open>fread(&b, sizeof(struct buffer), 1, f)\<close>: \<open>b\<close> changes only when a buffer was read.\<close>

definition dev_fread :: "device \<Rightarrow> buffer \<Rightarrow> buffer \<times> device" where
  "dev_fread f b =
     (case dev_reads f of
        [] \<Rightarrow> (b, f\<lparr>dev_eof := True\<rparr>)
      | GotBuffer b' # rs \<Rightarrow> (b', f\<lparr>dev_reads := rs\<rparr>)
      | ReadError # rs \<Rightarrow> (b, f\<lparr>dev_reads := rs\<rparr>))"

text \<open>
  \<open>fgets(s, n, f)\<close> on the text left in a stream: at most \<open>n - 1\<close> characters, up to and with
  the first newline; \<open>None\<close> at the end of the stream.
\<close>

fun line_prefix :: "nat \<Rightarrow> bytes \<Rightarrow> bytes" where
  "line_prefix 0 s = []"
| "line_prefix (Suc k) [] = []"
| "line_prefix (Suc k) (c # cs) = (if c = 10 then [c] else c # line_prefix k cs)"

definition fgets :: "nat \<Rightarrow> bytes \<Rightarrow> bytes option \<times> bytes" where
  "fgets n s =
     (if s = [] then (None, s)
      else let l = line_prefix (n - 1) s in (Some l, drop (length l) s))"

section \<open>The header of the stream\<close>

type_synonym sysfs = "bytes \<Rightarrow> bytes option"

text \<open>
  \<open>grab_value\<close> for a buffer of \<open>n\<close> zero bytes: the string left in the buffer. The stream
  returned by a failing \<open>fopen\<close> is passed to \<open>fgets\<close> unchecked.
\<close>

definition sysfs_path :: "string \<Rightarrow> bytes" where
  "sysfs_path pmu_prop = ascii ''/sys/sync_pmu/'' @ ascii pmu_prop"

definition grab_value :: "sysfs \<Rightarrow> nat \<Rightarrow> string \<Rightarrow> fault + bytes" where
  "grab_value fs n pmu_prop =
     (case fs (sysfs_path pmu_prop) of
        None \<Rightarrow> Inl NullDeref
      | Some content \<Rightarrow>
          (case fst (fgets (n - 1) content) of
             None \<Rightarrow> Inr []
           | Some l \<Rightarrow> Inr (c_str l)))"

definition header_text :: "bytes \<Rightarrow> bytes \<Rightarrow> bytes \<Rightarrow> bytes \<Rightarrow> bytes \<Rightarrow> bytes \<Rightarrow> bytes \<Rightarrow> bytes" where
  "header_text period c1 c2 c3 c4 c5 c6 =
     ascii ''period:  '' @ period @ ascii ''event1:  '' @ c1 @ ascii ''event2:  '' @ c2 @
     ascii ''event3:  '' @ c3 @ ascii ''event4:  '' @ c4 @ ascii ''event5:  '' @ c5 @
     ascii ''event6:  '' @ c6"

text \<open>\<open>header\<close> has 1024 zero bytes; \<open>sprintf\<close> writes the text and two NULs into it.\<close>

definition send_header :: "os_env \<Rightarrow> sysfs \<Rightarrow> sender_state \<Rightarrow> fault + (int \<times> sender_state)" where
  "send_header env fs st =
     fault_bind (grab_value fs 64 ''period'') (\<lambda>period.
     fault_bind (grab_value fs 64 ''0'') (\<lambda>counter1.
     fault_bind (grab_value fs 64 ''1'') (\<lambda>counter2.
     fault_bind (grab_value fs 64 ''2'') (\<lambda>counter3.
     fault_bind (grab_value fs 64 ''3'') (\<lambda>counter4.
       let t = header_text period counter1 counter2 counter3 counter4 [] []
       in if 1024 < length t + 2 then Inl OutOfBounds
          else
            fault_bind (network_packet env (clock st) (t @ replicate (1024 - length t) 0) (length t + 1) None (net st))
              (\<lambda>(rc, sent, ns). Inr (rc, st\<lparr>clock := clock st + 1, net := ns\<rparr>)))))))"

section \<open>Sampling\<close>

record sampler =
  sm_dev :: device
  sm_missed :: bytes
  sm_debug :: bool
  initial_missed :: int
  missed_count :: int
  kbytes :: nat
  outbytes :: nat
  sm_sender :: sender_state

text \<open>Looking up the processes of a buffer for the messages may repeat a failed lookup.\<close>

definition debug_out :: "os_env \<Rightarrow> buffer \<Rightarrow> sender_state \<Rightarrow> fault + sender_state" where
  "debug_out env b st =
     fault_fold (\<lambda>i st. fault_bind (sample_at (b_samples b) i) (\<lambda>c. Inr (lookup_process env (s_pid c) st)))
       [0..<unat (b_num_samples b)] st"

text \<open>
  The body of the loop: \<open>b\<close>, \<open>count\<close> and \<open>sent\<close> are its variables; \<open>True\<close> is a \<open>break\<close>.
  The part after the call of \<open>network_send\<close> comes first.
\<close>

definition after_send ::
  "os_env \<Rightarrow> bool \<Rightarrow> buffer \<Rightarrow> int \<Rightarrow> nat \<Rightarrow> sampler \<Rightarrow> fault + (bool \<times> sampler)" where
  "after_send env test b rc sent st =
     (if rc \<noteq> 0 then Inr (True, st)
      else
        fault_bind (if sm_debug st then debug_out env b (sm_sender st) else Inr (sm_sender st)) (\<lambda>ss.
          let st = st\<lparr>sm_sender := ss\<rparr>
          in if test then Inr (True, st)
             else
               let st = st\<lparr>outbytes := outbytes st + sent\<rparr>
               in Inr (kbytes st > 0 \<and> outbytes st div 1000 > kbytes st, st)))"

definition sample_step ::
  "os_env \<Rightarrow> bool \<Rightarrow> buffer \<Rightarrow> bytes \<Rightarrow> nat \<Rightarrow> sampler \<Rightarrow> fault + (bool \<times> buffer \<times> bytes \<times> nat \<times> sampler)" where
  "sample_step env test b count sent st =
     (let (b, dev) = dev_fread (sm_dev st) b;
          (rcc, rest) = fgets 23 (sm_missed st);
          count = (case rcc of None \<Rightarrow> count | Some l \<Rightarrow> c_str l);
          st = st\<lparr>sm_dev := dev, sm_missed := rest, missed_count := atoi count - initial_missed st\<rparr>
      in fault_bind (if test then Inr (0, sent, sm_sender st)
                     else network_send env b (of_int (missed_count st)) sent (sm_sender st))
           (\<lambda>(rc, sent, ss).
              fault_bind (after_send env test b rc sent (st\<lparr>sm_sender := ss\<rparr>)) (\<lambda>(stop, st).
                Inr (stop, b, count, sent, st))))"

lemma dev_fread_cases:
  assumes "dev_fread f b = (b', f')"
  shows "dev_reads f' = tl (dev_reads f)" and "dev_eof f' = (dev_eof f \<or> dev_reads f = [])"
  using assms by (auto simp: dev_fread_def split: list.splits dev_read.splits)

lemma dev_fread_size: "\<not> dev_eof f \<Longrightarrow> dev_fread f b = (b', f') \<Longrightarrow> size f' < size f"
  using dev_fread_cases[of f b b' f'] by (auto simp: size_device_ext_def)

lemma after_send_dev: "after_send env test b rc sent st = Inr (stop, st') \<Longrightarrow> sm_dev st' = sm_dev st"
proof (cases "rc = 0")
  case True
  assume "after_send env test b rc sent st = Inr (stop, st')"
  with True show ?thesis
    by (cases test) (auto simp: after_send_def Let_def elim!: fault_bind_InrE)
qed (simp add: after_send_def)

lemma sample_step_dev:
  assumes "sample_step env test b count sent st = Inr (stop, b', count', sent', st')"
  shows "sm_dev st' = snd (dev_fread (sm_dev st) b)"
proof -
  obtain b1 dev where d: "dev_fread (sm_dev st) b = (b1, dev)" by fastforce
  obtain rcc rest where f: "fgets 23 (sm_missed st) = (rcc, rest)" by fastforce
  let ?count = "case rcc of None \<Rightarrow> count | Some l \<Rightarrow> c_str l"
  let ?st = "st\<lparr>sm_dev := dev, sm_missed := rest, missed_count := atoi ?count - initial_missed st\<rparr>"
  obtain rc sent1 ss st1 where "after_send env test b1 rc sent1 (?st\<lparr>sm_sender := ss\<rparr>) = Inr (stop, st1)" "st' = st1"
    using assms unfolding sample_step_def d f Let_def by (auto simp: fault_bind_Inr_iff)
  then show ?thesis using after_send_dev d by fastforce
qed

text \<open>\<open>while (!feof(f))\<close>: every round takes a read off the device or meets its end.\<close>

function sample_loop ::
  "os_env \<Rightarrow> bool \<Rightarrow> buffer \<Rightarrow> bytes \<Rightarrow> nat \<Rightarrow> sampler \<Rightarrow> fault + sampler" where
  "sample_loop env test b count sent st =
     (if dev_eof (sm_dev st) then Inr st
      else fault_bind (sample_step env test b count sent st) (\<lambda>(stop, b, count, sent, st).
             if stop then Inr st else sample_loop env test b count sent st))"
  by pat_completeness auto
termination
proof (relation "measure (\<lambda>(env, test, b, count, sent, st). size (sm_dev st))", goal_cases)
  case 1
  show ?case by simp
next
  case (2 env test b count sent st r stop y b' z count' w sent' st')
  then have "sm_dev st' = snd (dev_fread (sm_dev st) b)"
    by (auto dest: sample_step_dev)
  with 2(1) show ?case
    using dev_fread_size[of "sm_dev st" b] by (cases "dev_fread (sm_dev st) b") auto
qed

declare sample_loop.simps [simp del]

text \<open>\<open>b0\<close> is what the uninitialised \<open>struct buffer b\<close> holds.\<close>

definition sample_device :: "os_env \<Rightarrow> buffer \<Rightarrow> bool \<Rightarrow> sampler \<Rightarrow> fault + sampler" where
  "sample_device env b0 test st = sample_loop env test b0 [] 0 st"

section \<open>main\<close>

text \<open>
  The options in front of the host and the port: an exit code, or the debug flag, the limit in
  kbytes and the arguments left.
\<close>

fun parse_args :: "bytes list \<Rightarrow> bool \<Rightarrow> nat \<Rightarrow> int + (bool \<times> nat \<times> bytes list)" where
  "parse_args [] dbg k = Inr (dbg, k, [])"
| "parse_args (a # as) dbg k =
     (if a = ascii ''-d'' then parse_args as True k
      else if a = ascii ''-k'' then
        (case as of
           [] \<Rightarrow> Inl (-1)
         | arg # rest \<Rightarrow>
             if arg = [] then Inl (-1)
             else if \<not> (\<forall>c \<in> set arg. is_digit c) then Inl (-1)
             else if atoi arg = 0 then Inl 0
             else parse_args rest dbg (nat (atoi arg)))
      else Inr (dbg, k, a # as))"

text \<open>What the program finds: the two streams, the attributes, the network and \<open>b\<close> on its stack.\<close>

record sampler_env =
  se_os :: os_env
  se_connect :: "bytes \<Rightarrow> bytes \<Rightarrow> connect_env"
  se_sysfs :: sysfs
  se_device :: "device option"
  se_missed :: "bytes option"
  se_stack :: buffer

definition sender_state0 :: sender_state where
  "sender_state0 = \<lparr>clock = 0, table = empty_proc_table, pkt = packet_state0, net = net_state0\<rparr>"

definition close_connection :: "sender_state \<Rightarrow> sender_state" where
  "close_connection st = (let (ns, ps) = network_finish (net st) (pkt st) in st\<lparr>net := ns, pkt := ps\<rparr>)"

text \<open>\<open>/dev/pmu_samples\<close>, \<open>/sys/sync_pmu/missed\<close> and the host; failures are only printed.\<close>

definition grab_device :: "sampler_env \<Rightarrow> device option" where
  "grab_device se = se_device se"

definition missed_buffer :: "sampler_env \<Rightarrow> bytes option" where
  "missed_buffer se = se_missed se"

definition make_connection :: "sampler_env \<Rightarrow> bytes \<Rightarrow> bytes \<Rightarrow> net_state \<Rightarrow> fault + (int \<times> net_state)" where
  "make_connection se domain service ns = network_init (se_connect se domain service) ns"

definition run_sampling :: "sampler_env \<Rightarrow> bool \<Rightarrow> nat \<Rightarrow> sender_state \<Rightarrow> fault + sender_state" where
  "run_sampling se dbg k st =
     (case (grab_device se, missed_buffer se) of
        (Some src, Some miss) \<Rightarrow>
          let sm = \<lparr>sm_dev = src, sm_missed = miss, sm_debug = dbg, initial_missed = 0, missed_count = 0,
                    kbytes = k, outbytes = 0, sm_sender = st\<rparr>
          in fault_bind (sample_device (se_os se) (se_stack se) True sm) (\<lambda>sm.
             fault_bind (sample_device (se_os se) (se_stack se) True sm) (\<lambda>sm.
             fault_bind (sample_device (se_os se) (se_stack se) False
                           (sm\<lparr>initial_missed := missed_count sm, outbytes := 0\<rparr>)) (\<lambda>sm.
               Inr (sm_sender sm))))
      | _ \<Rightarrow> Inr st)"

text \<open>\<open>argv\<close> without the name of the program.\<close>

definition sender_main :: "sampler_env \<Rightarrow> bytes list \<Rightarrow> fault + (int \<times> sender_state)" where
  "sender_main se argv =
     (case parse_args argv False 0 of
        Inl code \<Rightarrow> Inr (code, sender_state0)
      | Inr (dbg, k, args) \<Rightarrow>
          let st = sender_state0;
              st = (if dbg then st\<lparr>pkt := packet_set_debug (pkt st), net := network_set_debug (net st)\<rparr> else st)
          in case args of
               host # port # rest \<Rightarrow>
                 fault_bind (make_connection se host port (net st)) (\<lambda>(rc, ns).
                   let st = st\<lparr>net := ns\<rparr>
                   in if rc \<noteq> 0 then Inr (-1, st)
                      else
                        fault_bind (send_header (se_os se) (se_sysfs se) st) (\<lambda>(rc, st).
                          if rc \<noteq> 0 then Inr (-1, close_connection st)
                          else
                            fault_bind (run_sampling se dbg k st) (\<lambda>st.
                              Inr (0, close_connection st))))
             | _ \<Rightarrow> Inr (-1, st))"

end
