(* ===== verification/Network_Correct.thy ===== *)
theory Network_Correct
  imports Network
begin

text \<open>
  What \<open>network_send\<close> promises: whatever the operating system answers, it never leaves the
  objects it works on; and when it returns 0, the bytes it put on the wire are a sequence of
  well-formed packets that carry the samples of the buffer in order, numbered consecutively.
\<close>

section \<open>The mode of a process and its strings\<close>

definition mode_matches :: "ProcessInfo \<Rightarrow> bool" where
  "mode_matches p \<longleftrightarrow> pi_mode p \<noteq> Unknown \<and>
     (pi_mode p = Kernel \<longleftrightarrow> c_str (pi_cmdline p) = [] \<and> c_str (pi_executable p) = [])"

definition mode_ok :: "proc_table \<Rightarrow> bool" where
  "mode_ok t \<longleftrightarrow> (\<forall>pid p. procMap t pid = Some p \<longrightarrow> mode_matches p)"

lemma load_process_info_mode: "mode_matches (snd (load_process_info fs p))"
  by (auto simp: load_process_info_def mode_matches_def Let_def split: prod.splits)

lemma mode_matches_flags [simp]:
  "mode_matches (p\<lparr>cmdexe_flag := a\<rparr>) = mode_matches p"
  "mode_matches (p\<lparr>cmdexe_checks := a\<rparr>) = mode_matches p"
  "mode_matches (p\<lparr>zygote_flag := a\<rparr>) = mode_matches p"
  "mode_matches (p\<lparr>zygote_checks := a\<rparr>) = mode_matches p"
  by (simp_all add: mode_matches_def)

lemma load_cmdexe_matches: "mode_matches (fst (load_cmdexe fs pid p ez))"
  using load_process_info_mode[of fs p]
  by (cases "load_process_info fs p") (simp add: load_cmdexe_def Let_def mode_matches_def)

lemma recheck_zygote_matches: "mode_matches (recheck_zygote fs p)"
proof -
  let ?p = "if zygote_checks p \<noteq> 0 then p\<lparr>zygote_checks := zygote_checks p - 1\<rparr> else p"
  show ?thesis
    using load_process_info_mode[of fs ?p]
    by (cases "load_process_info fs ?p") (simp add: recheck_zygote_def Let_def mode_matches_def)
qed

lemma proc_entry_matches: "mode_ok t \<Longrightarrow> pi_mode (proc_entry t pid) \<noteq> Unknown \<Longrightarrow> mode_matches (proc_entry t pid)"
  by (auto simp: mode_ok_def proc_entry_def new_ProcessInfo_def split: option.splits)

lemma getProcessInfo_mode_ok: "mode_ok t \<Longrightarrow> mode_ok (getProcessInfo fs pid check t)"
  unfolding mode_ok_def getProcessInfo_def Let_def
  by (auto simp: load_cmdexe_matches recheck_zygote_matches proc_entry_matches mode_ok_def)

section \<open>The packets of a batch\<close>

definition packet_of :: "buffer \<Rightarrow> u32 \<Rightarrow> u32 \<Rightarrow> wire_packet \<Rightarrow> bool" where
  "packet_of b missed batch p \<longleftrightarrow>
     wf_packet p \<and> wp_samples p \<noteq> [] \<and>
     h_counters (wp_header p) = 6 \<and> h_core (wp_header p) = ucast (b_core b) \<and>
     h_missed (wp_header p) = missed \<and> h_batch (wp_header p) = batch \<and>
     (\<forall>s \<in> set (wp_samples p). ucast (s_pid s) = h_pid (wp_header p)) \<and>
     h_kernel (wp_header p) = (if wp_cmdline p = [] \<and> wp_exe p = [] then 1 else 0)"

fun consecutive :: "nat \<Rightarrow> wire_packet list \<Rightarrow> bool" where
  "consecutive i [] \<longleftrightarrow> True"
| "consecutive i (p # ps) \<longleftrightarrow>
     h_first_index (wp_header p) = of_nat i \<and> consecutive (i + length (wp_samples p)) ps"

lemma consecutive_append:
  "consecutive i (ps @ qs) \<longleftrightarrow> consecutive i ps \<and> consecutive (i + length (concat (map wp_samples ps))) qs"
  by (induction ps arbitrary: i) (auto simp: add.assoc)

text \<open>The packet under construction belongs to the batch.\<close>

definition building :: "buffer \<Rightarrow> u32 \<Rightarrow> proc_table \<Rightarrow> packet_state \<Rightarrow> bool" where
  "building b missed t ps \<longleftrightarrow>
     packet_inv ps \<and> mode_ok t \<and> unat (h_quantity (header ps)) \<le> current_index ps \<and>
     (h_quantity (header ps) \<noteq> 0 \<longrightarrow>
        (\<exists>k p. info_cmdline ps = Some k \<and> info_exe ps = Some k \<and> procMap t k = Some p \<and>
               h_kernel (header ps) = (if pi_mode p = Kernel then 1 else 0)) \<and>
        h_counters (header ps) = 6 \<and> h_core (header ps) = ucast (b_core b) \<and>
        h_missed (header ps) = missed \<and>
        h_first_index (header ps) = of_nat (current_index ps - unat (h_quantity (header ps))) \<and>
        (\<forall>s \<in> set (pending ps). ucast (s_pid s) = h_pid (header ps)))"

lemma buildingD:
  assumes "building b missed t ps"
  shows "packet_inv ps" "mode_ok t" "initialized ps" "length (pending ps) \<le> current_index ps"
  using assms by (auto simp: building_def packet_inv_def[of ps])

definition fresh :: "packet_state \<Rightarrow> bool" where
  "fresh ps \<longleftrightarrow> (\<exists>d. ps = packet_state0\<lparr>pkt_debug := d\<rparr>)"

lemma fresh_state0 [simp]: "fresh packet_state0" "fresh (packet_set_debug packet_state0)"
  unfolding fresh_def by (auto simp: packet_state0_def packet_set_debug_def)

lemma start_batch_fresh_inv: "fresh ps \<Longrightarrow> packet_inv (packet_start_batch ps)"
  using start_batch_first_inv
  by (auto simp: fresh_def packet_inv_def packet_start_batch_def clear_data_def initialize_def
      packet_state0_def Let_def)

lemma building_start:
  "packet_inv ps \<or> fresh ps \<Longrightarrow> mode_ok t \<Longrightarrow> building b missed t (packet_start_batch ps)"
  unfolding building_def using start_batch_inv start_batch_fresh_inv
  by (auto simp: packet_start_batch_def Let_def)

lemma start_batch_simps [simp]:
  "current_index (packet_start_batch ps) = 0"
  "pending (packet_start_batch ps) = []"
  by (simp_all add: packet_start_batch_def Let_def pending_def)

lemma start_batch_batch [simp]:
  "initialized ps \<Longrightarrow> h_batch (header (packet_start_batch ps)) = h_batch (header ps) + 1"
  by (simp add: packet_start_batch_def Let_def)

section \<open>Looking up, appending, transmitting\<close>

lemma lookup_building:
  assumes "building b missed (table st) (pkt st)"
  shows "building b missed (table (lookup_process env pid st)) (pkt st)"
    and "procMap (table (lookup_process env pid st)) pid = Some (proc_entry (table (lookup_process env pid st)) pid)"
    and "pkt (lookup_process env pid st) = pkt st" and "net (lookup_process env pid st) = net st"
proof -
  let ?t = "table (lookup_process env pid st)"
  have t: "?t = getProcessInfo (os_proc env (clock st)) pid (packet_empty (pkt st)) (table st)"
    by (simp add: lookup_process_def)
  have ok: "mode_ok ?t" unfolding t by (rule getProcessInfo_mode_ok) (rule buildingD(2)[OF assms])
  have stable: "procMap ?t k = Some p"
    if "h_quantity (header (pkt st)) \<noteq> 0" "procMap (table st) k = Some p" for k p
  proof -
    have "pi_mode p \<noteq> Unknown"
      using buildingD(2)[OF assms] that(2) by (auto simp: mode_ok_def mode_matches_def)
    with that show ?thesis unfolding t by (simp add: packet_empty_def getProcessInfo_stable)
  qed
  show "building b missed ?t (pkt st)"
    using assms ok stable unfolding building_def by blast
  obtain p where "procMap ?t pid = Some p" using getProcessInfo_known t by metis
  then show "procMap ?t pid = Some (proc_entry ?t pid)" by (simp add: proc_entry_def)
qed (simp_all add: lookup_process_def)

lemma append_building:
  assumes b: "building b missed t ps" and k: "procMap t k = Some p" and s: "wf_sample s"
    and go: "\<not> fst (packet_should_create b s (proc_entry t k) ps)"
  obtains ps' where "packet_append b s t k missed ps = (0, ps')" "building b missed t ps'"
    "pending ps' = pending ps @ [s]" "current_index ps' = current_index ps + 1"
    "h_quantity (header ps') \<noteq> 0" "h_batch (header ps') = h_batch (header ps)"
proof -
  have inv: "packet_inv ps" and i: "initialized ps" using buildingD[OF b] by auto
  obtain ps' where a: "packet_append b s t k missed ps = (0, ps')" and inv': "packet_inv ps'"
    and pend: "pending ps' = pending ps @ [s]" and cur: "current_index ps' = current_index ps + 1"
    and q: "h_quantity (header ps') = h_quantity (header ps) + 1"
    by (rule packet_append_ok[OF inv s go])
  have qn: "unat (h_quantity (header ps')) = unat (h_quantity (header ps)) + 1"
    unfolding q by (rule quantity_succ) (rule not_should_create_quantity[OF i go])
  then have q0: "h_quantity (header ps') \<noteq> 0" by auto
  have ps': "ps' = snd (packet_append b s t k missed ps)" by (simp add: a)
  have pe: "proc_entry t k = p" using k by (simp add: proc_entry_def)
  have "building b missed t ps'"
  proof (cases "h_quantity (header ps) = 0")
    case True
    with packet_append_unfold[OF i go] a have
      h: "info_cmdline ps' = Some k" "info_exe ps' = Some k"
         "h_kernel (header ps') = (if pi_mode p = Kernel then 1 else 0)" "h_counters (header ps') = 6"
         "h_core (header ps') = ucast (b_core b)" "h_missed (header ps') = missed"
         "h_first_index (header ps') = of_nat (current_index ps)" "h_pid (header ps') = ucast (s_pid s)"
      by (auto simp: Let_def pe)
    have "pending ps = []" using True by (simp add: pending_def)
    with h inv' b k pend cur qn True show ?thesis
      by (auto simp: building_def)
  next
    case False
    from go False i have pid: "ucast (h_pid (header ps)) = s_pid s"
      by (auto simp: packet_should_create_def Let_def)
    have "ucast (s_pid s) = h_pid (header ps)" unfolding pid[symmetric] by simp
    moreover from packet_append_unfold[OF i go] a False have
      "info_cmdline ps' = info_cmdline ps" "info_exe ps' = info_exe ps"
      "header ps' = (header ps)\<lparr>h_quantity := h_quantity (header ps) + 1\<rparr>"
      by (auto simp: Let_def)
    ultimately show ?thesis
      using inv' b pend cur qn False by (auto simp: building_def)
  qed
  moreover have "h_batch (header ps') = h_batch (header ps)"
    using packet_append_unfold[OF i go, of missed] a by (auto simp: Let_def)
  ultimately show ?thesis using that a pend cur q0 by blast
qed

text \<open>An operating system that takes whole packets and has memory.\<close>

definition env_good :: "os_env \<Rightarrow> bool" where
  "env_good env \<longleftrightarrow> (\<forall>i n. os_sendto env i n = int n \<and> os_fwrite env i n \<noteq> 0 \<and> os_alloc env i n \<noteq> None)"

lemma network_packet_ok:
  assumes "n \<le> length data"
  shows "\<exists>rc sent' ns'. network_packet env i data n sent ns = Inr (rc, sent', ns') \<and>
    rc \<in> {0, -1} \<and> (env_good env \<longrightarrow> rc = 0) \<and> (sent' = None \<longleftrightarrow> sent = None) \<and>
    (rc = 0 \<longrightarrow> wire ns' = wire ns @ take n data \<and> sent' = map_option (\<lambda>_. n) sent)"
  using assms unfolding network_packet_def Let_def by (auto simp: env_good_def split: option.split)

definition current_packet :: "proc_table \<Rightarrow> packet_state \<Rightarrow> wire_packet" where
  "current_packet t ps =
     (let p = (case info_cmdline ps of None \<Rightarrow> new_ProcessInfo | Some k \<Rightarrow> proc_entry t k)
      in \<lparr>wp_header = header ps, wp_samples = pending ps,
          wp_cmdline = c_str (pi_cmdline p), wp_exe = c_str (pi_executable p)\<rparr>)"

lemma current_packet_simps [simp]:
  "wp_header (current_packet t ps) = header ps"
  "wp_samples (current_packet t ps) = pending ps"
  by (simp_all add: current_packet_def Let_def)

lemma current_packet_ok:
  assumes "building b missed t ps" and "h_quantity (header ps) \<noteq> 0"
  shows "packet_of b missed (h_batch (header ps)) (current_packet t ps)"
    and "h_first_index (header ps) = of_nat (current_index ps - length (pending ps))"
    and "strings_of t ps (wp_cmdline (current_packet t ps)) (wp_exe (current_packet t ps))"
proof -
  obtain k p where k: "info_cmdline ps = Some k" "info_exe ps = Some k" "procMap t k = Some p"
    and kern: "h_kernel (header ps) = (if pi_mode p = Kernel then 1 else 0)"
    using assms by (auto simp: building_def)
  have inv: "packet_inv ps" and "mode_ok t" using buildingD[OF assms(1)] by auto
  then have m: "mode_matches p" using k(3) by (auto simp: mode_ok_def)
  have cp: "wp_cmdline (current_packet t ps) = c_str (pi_cmdline p)"
    "wp_exe (current_packet t ps) = c_str (pi_executable p)"
    using k by (simp_all add: current_packet_def proc_entry_def)
  have len: "length (pending ps) = unat (h_quantity (header ps))" using inv by simp
  with assms(2) have "pending ps \<noteq> []" by (auto simp: unat_eq_zero)
  moreover have "wf_packet (current_packet t ps)"
    unfolding wf_packet_def cp using wf_pending[OF inv] len by simp
  ultimately show "packet_of b missed (h_batch (header ps)) (current_packet t ps)"
    using assms kern m unfolding packet_of_def cp by (auto simp: building_def mode_matches_def)
  show "h_first_index (header ps) = of_nat (current_index ps - length (pending ps))"
    using assms unfolding len by (simp add: building_def)
  show "strings_of t ps (wp_cmdline (current_packet t ps)) (wp_exe (current_packet t ps))"
    unfolding cp strings_of_def using k by (simp add: deref_info_def)
qed

lemma building_after_create:
  "building b missed t ps \<Longrightarrow> building b missed t (after_create ps blk)"
  unfolding building_def by (auto intro: after_create_inv)

text \<open>What a call of \<open>transmit\<close> with a packet under construction does.\<close>

definition transmitted :: "buffer \<Rightarrow> u32 \<Rightarrow> sender_state \<Rightarrow> nat \<Rightarrow> sender_state \<Rightarrow> bool" where
  "transmitted b missed st sent' st' \<longleftrightarrow>
     (let p = current_packet (table st) (pkt st) in
      wire (net st') = wire (net st) @ wire_bytes p \<and> sent' = length (wire_bytes p) \<and>
      table st' = table st \<and> building b missed (table st') (pkt st') \<and>
      pending (pkt st') = [] \<and> h_quantity (header (pkt st')) = 0 \<and>
      current_index (pkt st') = current_index (pkt st) \<and>
      h_batch (header (pkt st')) = h_batch (header (pkt st)))"

lemma transmit_ok:
  assumes b: "building b missed (table st) (pkt st)" and q: "h_quantity (header (pkt st)) \<noteq> 0"
  shows "\<exists>rc sent' st'. transmit env sent st = Inr (rc, sent', st') \<and> rc \<in> {0, -1} \<and>
           (env_good env \<longrightarrow> rc = 0) \<and> packet_inv (pkt st') \<and> mode_ok (table st') \<and>
           (rc = 0 \<longrightarrow> transmitted b missed st sent' st')"
proof -
  let ?p = "current_packet (table st) (pkt st)"
  have inv: "packet_inv (pkt st)" "mode_ok (table st)" using buildingD[OF b] by auto
  have out: "packet_bytes (header (pkt st)) (pending (pkt st)) (wp_cmdline ?p) (wp_exe ?p) = wire_bytes ?p"
    by (simp add: wire_bytes_def)
  from inv(1) q current_packet_ok(3)[OF b q] show ?thesis
  proof (cases rule: packet_create_cases[where alloc = "os_alloc env (clock st)"])
    case fail
    then show ?thesis
      using inv by (auto simp: transmit_def Let_def packet_inv_def env_good_def)
  next
    case (ok blk)
    let ?n = "length (wire_bytes ?p)"
    obtain rc sent' ns' where np:
      "network_packet env (clock st) blk ?n (Some sent) (net st) = Inr (rc, sent', ns')" "rc \<in> {0, -1}"
      "env_good env \<longrightarrow> rc = 0" "sent' \<noteq> None" "rc = 0 \<longrightarrow> wire ns' = wire (net st) @ take ?n blk \<and> sent' = Some ?n"
      using network_packet_ok[of ?n blk env "clock st" "Some sent" "net st"] ok(1) unfolding out by auto
    let ?st = "st\<lparr>clock := clock st + 1, pkt := after_create (pkt st) blk, net := ns'\<rparr>"
    have t: "transmit env sent st = Inr (rc, the sent', ?st)"
      using ok(3) np(1) unfolding out by (simp add: transmit_def)
    have "rc = 0 \<longrightarrow> transmitted b missed st (the sent') ?st"
      using np(5) ok(2) building_after_create[OF b] unfolding out by (simp add: transmitted_def)
    with t np(2,3) inv show ?thesis by (auto intro: after_create_inv)
  qed
qed

lemma transmit_nothing:
  assumes "building b missed (table st) (pkt st)" and "h_quantity (header (pkt st)) = 0"
  shows "\<exists>st'. transmit env sent st = Inr (0, sent, st') \<and> net st' = net st \<and>
           packet_inv (pkt st') \<and> mode_ok (table st') \<and> h_batch (header (pkt st')) = h_batch (header (pkt st))"
proof -
  have "packet_inv (pkt st)" "mode_ok (table st)" using buildingD[OF assms(1)] by auto
  then show ?thesis
    using packet_create_empty[OF _ assms(2)] by (auto simp: transmit_def Let_def)
qed

section \<open>The loop of network_send\<close>

text \<open>
  \<open>ps\<close> are the packets transmitted between \<open>st\<close> and \<open>st'\<close>: with the samples still pending they
  carry what was pending before and the samples \<open>ss\<close> consumed since.
\<close>

definition sent_between ::
  "buffer \<Rightarrow> u32 \<Rightarrow> sample list \<Rightarrow> wire_packet list \<Rightarrow> sender_state \<Rightarrow> sender_state \<Rightarrow> bool" where
  "sent_between b missed ss ps st st' \<longleftrightarrow>
     wire (net st') = wire (net st) @ concat (map wire_bytes ps) \<and>
     concat (map wp_samples ps) @ pending (pkt st') = pending (pkt st) @ ss \<and>
     (\<forall>p \<in> set ps. packet_of b missed (h_batch (header (pkt st))) p) \<and>
     consecutive (current_index (pkt st) - length (pending (pkt st))) ps \<and>
     building b missed (table st') (pkt st') \<and>
     current_index (pkt st') = current_index (pkt st) + length ss \<and>
     h_batch (header (pkt st')) = h_batch (header (pkt st))"

lemma sent_between_trans:
  assumes 1: "sent_between b missed ss ps st st1" and 2: "sent_between b missed ts qs st1 st2"
    and b: "building b missed (table st) (pkt st)"
  shows "sent_between b missed (ss @ ts) (ps @ qs) st st2"
proof -
  have le: "length (pending (pkt st)) \<le> current_index (pkt st)"
    "length (pending (pkt st1)) \<le> current_index (pkt st1)"
    using b 1 by (auto simp: sent_between_def dest: buildingD)
  have "length (concat (map wp_samples ps) @ pending (pkt st1)) = length (pending (pkt st) @ ss)"
    using 1 unfolding sent_between_def by metis
  then have "length (concat (map wp_samples ps)) + length (pending (pkt st1)) = length (pending (pkt st)) + length ss"
    by (simp only: length_append)
  moreover have "current_index (pkt st1) = current_index (pkt st) + length ss"
    using 1 by (simp add: sent_between_def)
  ultimately have "current_index (pkt st1) - length (pending (pkt st1)) =
     current_index (pkt st) - length (pending (pkt st)) + length (concat (map wp_samples ps))"
    using le by linarith
  moreover have "concat (map wp_samples (ps @ qs)) @ pending (pkt st2) = pending (pkt st) @ ss @ ts"
    using 1 2 unfolding sent_between_def by (metis append_assoc concat_append map_append)
  ultimately show ?thesis
    using 1 2 unfolding sent_between_def by (auto simp: consecutive_append)
qed

lemma sent_between_transmitted:
  assumes "building b missed (table st) (pkt st)" and "h_quantity (header (pkt st)) \<noteq> 0"
    and "transmitted b missed st sent' st'"
  shows "sent_between b missed [] [current_packet (table st) (pkt st)] st st'"
  using assms current_packet_ok[OF assms(1,2)]
  unfolding sent_between_def transmitted_def Let_def by auto

lemma sent_between_append:
  assumes "building b missed t ps'" "pending ps' = pending (pkt st) @ [s]"
    "current_index ps' = current_index (pkt st) + 1" "h_batch (header ps') = h_batch (header (pkt st))"
    "t = table st"
  shows "sent_between b missed [s] [] st (st\<lparr>pkt := ps'\<rparr>)"
  using assms unfolding sent_between_def by simp

lemma append_ok:
  assumes b: "building b missed (table st) (pkt st)" and s: "wf_sample s"
    and k: "procMap (table st) (s_pid s) = Some p"
    and go: "\<not> fst (packet_should_create b s (proc_entry (table st) (s_pid s)) (pkt st))"
  obtains ps' where "packet_append b s (table st) (s_pid s) missed (pkt st) = (0, ps')"
    "sent_between b missed [s] [] st (st\<lparr>pkt := ps'\<rparr>)" "h_quantity (header ps') \<noteq> 0"
  using append_building[OF b k s go] sent_between_append[of b missed "table st" _ st s] by metis

text \<open>The outcome of one round, and of the loop: success with the packets sent, or -1.\<close>

definition round_ok ::
  "os_env \<Rightarrow> buffer \<Rightarrow> u32 \<Rightarrow> sample list \<Rightarrow> nat \<Rightarrow> sender_state
     \<Rightarrow> fault + (int \<times> nat \<times> nat \<times> sender_state) \<Rightarrow> bool" where
  "round_ok env b missed ss tot st r \<longleftrightarrow>
     (\<exists>rc sent' tot' st'. r = Inr (rc, sent', tot', st') \<and> rc \<in> {0, -1} \<and>
        (env_good env \<longrightarrow> rc = 0) \<and> packet_inv (pkt st') \<and> mode_ok (table st') \<and>
        (rc = 0 \<longrightarrow> (\<exists>ps. sent_between b missed ss ps st st' \<and>
                        tot' = tot + length (concat (map wire_bytes ps)) \<and>
                        (ss \<noteq> [] \<longrightarrow> h_quantity (header (pkt st')) \<noteq> 0))))"

lemma round_okI:
  assumes "sent_between b missed ss ps st st'" "tot' = tot + length (concat (map wire_bytes ps))"
    "ss \<noteq> [] \<longrightarrow> h_quantity (header (pkt st')) \<noteq> 0"
  shows "round_ok env b missed ss tot st (Inr (0, sent', tot', st'))"
proof -
  have "packet_inv (pkt st')" "mode_ok (table st')"
    using assms(1) by (auto simp: sent_between_def dest: buildingD)
  with assms show ?thesis unfolding round_ok_def by blast
qed

lemma round_ok_fail:
  "packet_inv (pkt st') \<Longrightarrow> mode_ok (table st') \<Longrightarrow> \<not> env_good env \<Longrightarrow> round_ok env b missed ss tot st (Inr (-1, sent', tot', st'))"
  by (simp add: round_ok_def)

lemma round_okE:
  assumes "round_ok env b missed ss tot st r"
  obtains (fail) sent' tot' st' where "r = Inr (-1, sent', tot', st')" "packet_inv (pkt st')" "mode_ok (table st')"
        "\<not> env_good env"
    | (ok) sent' st' ps where "r = Inr (0, sent', tot + length (concat (map wire_bytes ps)), st')"
        "sent_between b missed ss ps st st'" "ss \<noteq> [] \<longrightarrow> h_quantity (header (pkt st')) \<noteq> 0"
proof -
  from assms obtain rc sent' tot' st' where r: "r = Inr (rc, sent', tot', st')" "rc \<in> {0, -1}"
    "env_good env \<longrightarrow> rc = 0" "packet_inv (pkt st')" "mode_ok (table st')"
    and o: "rc = 0 \<longrightarrow> (\<exists>ps. sent_between b missed ss ps st st' \<and>
        tot' = tot + length (concat (map wire_bytes ps)) \<and> (ss \<noteq> [] \<longrightarrow> h_quantity (header (pkt st')) \<noteq> 0))"
    unfolding round_ok_def by blast
  show ?thesis
  proof (cases "rc = 0")
    case True
    with o r(1) ok show ?thesis by blast
  next
    case False
    with r fail show ?thesis by auto
  qed
qed

lemma send_one_ok:
  assumes b0: "building b missed (table st) (pkt st)" and s: "wf_sample s"
  shows "round_ok env b missed [s] tot st (send_one env b missed s sent tot st)"
proof -
  let ?st = "lookup_process env (s_pid s) st"
  let ?p = "proc_entry (table ?st) (s_pid s)"
  note look = lookup_building[OF b0, of env "s_pid s"]
  have b: "building b missed (table ?st) (pkt ?st)" using look(1,3) by simp
  have i: "initialized (pkt ?st)" using b by (rule buildingD)
  have look_sb: "sent_between b missed xs ps st st' = sent_between b missed xs ps ?st st'" for xs ps st'
    by (simp add: sent_between_def look(3,4))
  have m: "packet_should_create b s ?p (pkt ?st) = (fst (packet_should_create b s ?p (pkt ?st)), pkt ?st)"
    using should_create_state[OF i] by (metis prod.collapse)
  show ?thesis
  proof (cases "fst (packet_should_create b s ?p (pkt ?st))")
    case False
    from append_ok[OF b s look(2) False] obtain ps' where
      a: "packet_append b s (table ?st) (s_pid s) missed (pkt ?st) = (0, ps')"
         "sent_between b missed [s] [] ?st (?st\<lparr>pkt := ps'\<rparr>)" "h_quantity (header ps') \<noteq> 0" .
    have "send_one env b missed s sent tot st = Inr (0, sent, tot, ?st\<lparr>pkt := ps'\<rparr>)"
      using m False a(1) by (simp add: send_one_def Let_def)
    with a look_sb show ?thesis by (auto intro!: round_okI[where ps = "[]"])
  next
    case True
    then have q: "h_quantity (header (pkt ?st)) \<noteq> 0" using i by (auto dest: should_create_empty)
    from transmit_ok[OF b q, of env sent] obtain rc sent1 st1 where
      t: "transmit env sent ?st = Inr (rc, sent1, st1)" "rc \<in> {0, -1}" "env_good env \<longrightarrow> rc = 0"
        "packet_inv (pkt st1)" "mode_ok (table st1)" "rc = 0 \<longrightarrow> transmitted b missed ?st sent1 st1" by blast
    show ?thesis
    proof (cases "rc = 0")
      case False
      then have "send_one env b missed s sent tot st = Inr (-1, sent1, tot + sent1, st1)"
        using m True t(1) by (simp add: send_one_def Let_def)
      with t \<open>rc \<noteq> 0\<close> show ?thesis by (auto simp: round_ok_fail)
    next
      case rc0: True
      then have tr: "transmitted b missed ?st sent1 st1" using t(6) by simp
      then have b1: "building b missed (table st1) (pkt st1)" and t1: "table st1 = table ?st"
        and q1: "h_quantity (header (pkt st1)) = 0"
        and s1: "sent1 = length (wire_bytes (current_packet (table ?st) (pkt ?st)))"
        by (auto simp: transmitted_def Let_def)
      have go: "\<not> fst (packet_should_create b s (proc_entry (table st1) (s_pid s)) (pkt st1))"
        using should_create_empty[OF q1 buildingD(3)[OF b1]] by simp
      from append_ok[OF b1 s look(2)[folded t1] go] obtain ps' where
        a: "packet_append b s (table st1) (s_pid s) missed (pkt st1) = (0, ps')"
           "sent_between b missed [s] [] st1 (st1\<lparr>pkt := ps'\<rparr>)" "h_quantity (header ps') \<noteq> 0" .
      have "send_one env b missed s sent tot st = Inr (0, sent1, tot + sent1, st1\<lparr>pkt := ps'\<rparr>)"
        using m True t(1) rc0 a(1) by (simp add: send_one_def Let_def)
      with a(3) s1 sent_between_trans[OF sent_between_transmitted[OF b q tr] a(2) b] show ?thesis
        by (auto simp: look_sb intro!: round_okI[where ps = "[current_packet (table ?st) (pkt ?st)]"])
    qed
  qed
qed

lemma send_samples_ok:
  "building b missed (table st) (pkt st) \<Longrightarrow> \<forall>s \<in> set ss. wf_sample s \<Longrightarrow>
   round_ok env b missed ss tot st (send_samples env b missed ss sent tot st)"
proof (induction ss arbitrary: sent tot st)
  case Nil
  then show ?case by (auto intro!: round_okI[where ps = "[]"] simp: sent_between_def)
next
  case (Cons s ss)
  from Cons.prems have "round_ok env b missed [s] tot st (send_one env b missed s sent tot st)"
    by (intro send_one_ok) auto
  then show ?case
  proof (cases rule: round_okE)
    case fail
    then show ?thesis by (simp add: round_ok_fail)
  next
    case (ok sent1 st1 ps)
    let ?tot = "tot + length (concat (map wire_bytes ps))"
    have "building b missed (table st1) (pkt st1)" using ok(2) by (simp add: sent_between_def)
    then have "round_ok env b missed ss ?tot st1 (send_samples env b missed ss sent1 ?tot st1)"
      using Cons.prems by (intro Cons.IH) auto
    then show ?thesis
    proof (cases rule: round_okE)
      case fail
      with ok(1) show ?thesis by (simp add: round_ok_fail)
    next
      case (ok sent2 st2 qs)
      note ok2 = this
      have "h_quantity (header (pkt st2)) \<noteq> 0"
        using ok2(1,3) \<open>[s] \<noteq> [] \<longrightarrow> h_quantity (header (pkt st1)) \<noteq> 0\<close> by (cases ss) auto
      with sent_between_trans[OF \<open>sent_between b missed [s] ps st st1\<close> ok2(2) Cons.prems(1)]
      have "round_ok env b missed (s # ss) tot st (Inr (0, sent2, ?tot + length (concat (map wire_bytes qs)), st2))"
        by (intro round_okI[where ps = "ps @ qs"]) auto
      with ok2(1) \<open>send_one env b missed s sent tot st = _\<close> show ?thesis by simp
    qed
  qed
qed

section \<open>network_send\<close>

text \<open>
  The packets of one call: well-formed, all of this batch, consecutively numbered from 0, and
  together carrying exactly the samples of the buffer.
\<close>

definition batch_packets :: "buffer \<Rightarrow> u32 \<Rightarrow> u32 \<Rightarrow> wire_packet list \<Rightarrow> bool" where
  "batch_packets b missed batch ps \<longleftrightarrow>
     (\<forall>p \<in> set ps. packet_of b missed batch p) \<and> consecutive 0 ps \<and>
     concat (map wp_samples ps) = filled b"

definition sender_inv :: "sender_state \<Rightarrow> bool" where
  "sender_inv st \<longleftrightarrow> (packet_inv (pkt st) \<or> fresh (pkt st)) \<and> mode_ok (table st)"

lemma sender_inv_after: "packet_inv (pkt st) \<Longrightarrow> mode_ok (table st) \<Longrightarrow> sender_inv st"
  by (simp add: sender_inv_def)

definition next_batch :: "packet_state \<Rightarrow> u32" where
  "next_batch ps = h_batch (header (packet_start_batch ps))"

lemma network_send_ok:
  assumes inv: "sender_inv st" and b: "wf_buffer b" and n: "unat (b_num_samples b) \<le> BUFFER_ENTRIES"
  shows "\<exists>rc tot' st'. network_send env b missed tot st = Inr (rc, tot', st') \<and> rc \<in> {0, -1} \<and>
           (env_good env \<longrightarrow> rc = 0) \<and> sender_inv st' \<and> (rc = -1 \<longrightarrow> tot' = tot) \<and>
           (rc = 0 \<longrightarrow> h_batch (header (pkt st')) = next_batch (pkt st) \<and> packet_inv (pkt st') \<and>
             (\<exists>ps. batch_packets b missed (next_batch (pkt st)) ps \<and>
              wire (net st') = wire (net st) @ concat (map wire_bytes ps) \<and>
              tot' = length (concat (map wire_bytes ps))))"
proof -
  let ?st = "st\<lparr>pkt := packet_start_batch (pkt st)\<rparr>"
  have bd: "building b missed (table ?st) (pkt ?st)"
    using inv building_start[of "pkt st" "table st" b missed] by (simp add: sender_inv_def)
  have wf: "\<forall>s \<in> set (filled b). wf_sample s" using wf_filled[OF b] by blast
  have "round_ok env b missed (filled b) 0 ?st (send_samples env b missed (filled b) 0 0 ?st)"
    by (rule send_samples_ok[OF bd wf])
  then show ?thesis
  proof (cases rule: round_okE)
    case fail
    then show ?thesis using n by (simp add: network_send_def Let_def sender_inv_after)
  next
    case (ok sent1 st1 ps)
    then have b1: "building b missed (table st1) (pkt st1)" by (simp add: sent_between_def)
    show ?thesis
    proof (cases "h_quantity (header (pkt st1)) = 0")
      case True
      with ok have e: "filled b = []" "sent1 = 0" by auto
      with ok have "wire (net st1) = wire (net st)" "h_batch (header (pkt st1)) = next_batch (pkt st)"
        by (auto simp: sent_between_def next_batch_def)
      with transmit_nothing[OF b1 True, of env sent1] ok(1) e n show ?thesis
        by (auto simp: network_send_def Let_def sender_inv_after batch_packets_def
            intro!: exI[of _ "[]"])
    next
      case False
      from transmit_ok[OF b1 False, of env sent1] obtain rc sent2 st2 where
        t: "transmit env sent1 st1 = Inr (rc, sent2, st2)" "rc \<in> {0, -1}" "env_good env \<longrightarrow> rc = 0"
          "packet_inv (pkt st2)" "mode_ok (table st2)" "rc = 0 \<longrightarrow> transmitted b missed st1 sent2 st2" by blast
      show ?thesis
      proof (cases "rc = 0")
        case False
        with t ok(1) n show ?thesis by (simp add: network_send_def Let_def sender_inv_after)
      next
        case rc0: True
        let ?p = "current_packet (table st1) (pkt st1)"
        have "sent_between b missed (filled b @ []) (ps @ [?p]) ?st st2"
          using sent_between_trans[OF ok(2) sent_between_transmitted[OF b1 False] bd] t(6) rc0 by blast
        moreover have "sent2 = length (wire_bytes ?p)" "pending (pkt st2) = []"
          using t(6) rc0 by (auto simp: transmitted_def Let_def)
        ultimately have "batch_packets b missed (next_batch (pkt st)) (ps @ [?p]) \<and>
            wire (net st2) = wire (net st) @ concat (map wire_bytes (ps @ [?p])) \<and>
            length (concat (map wire_bytes ps)) + sent2 = length (concat (map wire_bytes (ps @ [?p]))) \<and>
            h_batch (header (pkt st2)) = next_batch (pkt st)"
          unfolding sent_between_def batch_packets_def next_batch_def by simp
        with t ok(1) n rc0 show ?thesis
          by (auto simp: network_send_def Let_def sender_inv_after)
      qed
    qed
  qed
qed

end
