(* ===== verification/Sender_Correct.thy ===== *)
theory Sender_Correct
  imports Sender Network_Correct
begin

text \<open>
  What the sampling program puts on the wire: the description, then for every buffer it holds
  after a read of the device the packets of one batch, the batches numbered from 1.
\<close>

section \<open>The command line\<close>

text \<open>\<open>-k\<close> with the digits of a number sets the limit to it; with 0 the program ends.\<close>

lemma parse_limit:
  assumes "n < 2 ^ 31"
  shows "parse_args (ascii ''-k'' # dec n # rest) dbg k = (if n = 0 then Inl 0 else parse_args rest dbg n)"
  using atoi_dec[of "[]" n] dec_digits[of _ n] by (auto simp: ascii_def)

section \<open>The description\<close>

lemma length_line_prefix: "length (line_prefix k s) \<le> k"
  by (induction k s rule: line_prefix.induct) auto

lemma length_c_str: "length (c_str s) \<le> length s"
  unfolding c_str_def by (rule length_takeWhile_le)

lemma grab_value_ok:
  assumes "fs (sysfs_path p) = Some content"
  obtains v where "grab_value fs n p = Inr v" "nul_free v" "length v \<le> n - 2"
proof (cases "content = []")
  case True
  with assms that[of "[]"] show ?thesis by (simp add: grab_value_def fgets_def)
next
  case False
  let ?l = "line_prefix (n - 2) content"
  have "length (c_str ?l) \<le> n - 2"
    using length_c_str[of ?l] length_line_prefix[of "n - 2" content] by linarith
  with assms False that[of "c_str ?l"] show ?thesis
    by (simp add: grab_value_def fgets_def Let_def numeral_2_eq_2)
qed

lemma grab_value_missing: "fs (sysfs_path p) = None \<Longrightarrow> grab_value fs n p = Inl NullDeref"
  by (simp add: grab_value_def)

definition attributes :: "string list" where
  "attributes = [''period'', ''0'', ''1'', ''2'', ''3'']"

definition attributes_exist :: "sysfs \<Rightarrow> bool" where
  "attributes_exist fs \<longleftrightarrow> (\<forall>p \<in> set attributes. fs (sysfs_path p) \<noteq> None)"

lemma grab_value_missing_or: "grab_value fs n p = Inl NullDeref \<or> (\<exists>v. grab_value fs n p = Inr v)"
  by (auto simp: grab_value_def split: option.split)

lemma send_header_missing:
  assumes "p \<in> set attributes" and "fs (sysfs_path p) = None"
  shows "send_header env fs st = Inl NullDeref"
proof -
  have g: "grab_value fs 64 p = Inl NullDeref" using assms(2) by (simp add: grab_value_missing)
  have b: "fault_bind (grab_value fs 64 q) f = Inl NullDeref" if "q = p \<or> (\<forall>v. f v = Inl NullDeref)" for q f
    using that g grab_value_missing_or[of fs 64 q] by auto
  show ?thesis using assms(1) unfolding send_header_def attributes_def
    by (auto simp: g intro!: b)
qed

text \<open>The values go out with their labels; the last two events have labels only.\<close>

definition description :: "sysfs \<Rightarrow> bytes" where
  "description fs =
     (let v = (\<lambda>p. case grab_value fs 64 p of Inl e \<Rightarrow> [] | Inr x \<Rightarrow> x)
      in header_text (v ''period'') (v ''0'') (v ''1'') (v ''2'') (v ''3'') [] [])"

lemma length_ascii [simp]: "length (ascii s) = length s"
  by (simp add: ascii_def)

lemma send_header_ok:
  assumes "attributes_exist fs"
  shows "nul_free (description fs)" and
    "\<exists>rc ns. send_header env fs st = Inr (rc, st\<lparr>clock := clock st + 1, net := ns\<rparr>) \<and> rc \<in> {0, -1} \<and>
       (env_good env \<longrightarrow> rc = 0) \<and> (rc = 0 \<longrightarrow> wire ns = wire (net st) @ description fs @ [0])"
proof -
  have ex: "\<exists>v. grab_value fs 64 p = Inr v \<and> nul_free v \<and> length v \<le> 62" if p: "p \<in> set attributes" for p
  proof -
    obtain content where "fs (sysfs_path p) = Some content"
      using assms p unfolding attributes_exist_def by auto
    then obtain v where "grab_value fs 64 p = Inr v" "nul_free v" "length v \<le> 64 - 2"
      by (rule grab_value_ok)
    then show ?thesis by (intro exI[of _ v]) simp
  qed
  obtain period where period: "grab_value fs 64 ''period'' = Inr period" "nul_free period" "length period \<le> 62"
    using ex[of "''period''"] by (auto simp: attributes_def)
  obtain c1 where c1: "grab_value fs 64 ''0'' = Inr c1" "nul_free c1" "length c1 \<le> 62"
    using ex[of "''0''"] by (auto simp: attributes_def)
  obtain c2 where c2: "grab_value fs 64 ''1'' = Inr c2" "nul_free c2" "length c2 \<le> 62"
    using ex[of "''1''"] by (auto simp: attributes_def)
  obtain c3 where c3: "grab_value fs 64 ''2'' = Inr c3" "nul_free c3" "length c3 \<le> 62"
    using ex[of "''2''"] by (auto simp: attributes_def)
  obtain c4 where c4: "grab_value fs 64 ''3'' = Inr c4" "nul_free c4" "length c4 \<le> 62"
    using ex[of "''3''"] by (auto simp: attributes_def)
  note v = period(1) c1(1) c2(1) c3(1) c4(1) and n = period(2) c1(2) c2(2) c3(2) c4(2) and l = period(3) c1(3) c2(3) c3(3) c4(3)
  have d: "description fs = header_text period c1 c2 c3 c4 [] []"
    by (simp add: description_def v)
  then show "nul_free (description fs)" using n by (simp add: header_text_def ascii_def)
  have len: "length (header_text period c1 c2 c3 c4 [] []) + 2 \<le> 1024"
    using l by (simp add: header_text_def)
  let ?t = "header_text period c1 c2 c3 c4 [] []"
  have pre: "take (length ?t + 1) (?t @ replicate (1024 - length ?t) 0) = ?t @ [0]"
    using len by simp
  obtain rc ns where "network_packet env (clock st) (?t @ replicate (1024 - length ?t) 0) (length ?t + 1) None (net st)
      = Inr (rc, None, ns)" "rc \<in> {0, -1}" "env_good env \<longrightarrow> rc = 0" "rc = 0 \<longrightarrow> wire ns = wire (net st) @ ?t @ [0]"
    using network_packet_ok[of "length ?t + 1" "?t @ replicate (1024 - length ?t) 0" env "clock st" None "net st"]
      len unfolding pre by auto
  then show "\<exists>rc ns. send_header env fs st = Inr (rc, st\<lparr>clock := clock st + 1, net := ns\<rparr>) \<and> rc \<in> {0, -1} \<and>
       (env_good env \<longrightarrow> rc = 0) \<and> (rc = 0 \<longrightarrow> wire ns = wire (net st) @ description fs @ [0])"
    unfolding d using len by (intro exI[of _ rc] exI[of _ ns]) (simp add: send_header_def v Let_def)
qed

section \<open>One round\<close>

definition buffer_ok :: "buffer \<Rightarrow> bool" where
  "buffer_ok b \<longleftrightarrow> wf_buffer b \<and> unat (b_num_samples b) \<le> BUFFER_ENTRIES"

lemma lookup_process_frame [simp]:
  "net (lookup_process env pid st) = net st"
  "pkt (lookup_process env pid st) = pkt st"
  by (simp_all add: lookup_process_def)

lemma lookup_process_inv: "sender_inv st \<Longrightarrow> sender_inv (lookup_process env pid st)"
  by (simp add: sender_inv_def lookup_process_def getProcessInfo_mode_ok)

lemma debug_out_ok:
  assumes "buffer_ok b" and "sender_inv st"
  shows "\<exists>st'. debug_out env b st = Inr st' \<and> sender_inv st' \<and> net st' = net st \<and> pkt st' = pkt st"
proof -
  have n: "unat (b_num_samples b) \<le> length (b_samples b)" using assms by (simp add: buffer_ok_def wf_buffer_def)
  have "debug_out env b st = fault_fold (\<lambda>c st. Inr (lookup_process env (s_pid c) st)) (filled b) st"
    unfolding debug_out_def filled_def by (rule fold_sample_at[OF n])
  moreover have "\<exists>st'. fault_fold (\<lambda>c st. Inr (lookup_process env (s_pid c) st)) (filled b) st = Inr st' \<and>
      (sender_inv st' \<and> net st' = net st \<and> pkt st' = pkt st)"
    using assms(2) by (intro fault_fold_total) (auto intro: lookup_process_inv)
  ultimately show ?thesis by simp
qed

definition missed_next :: "int \<Rightarrow> bytes \<Rightarrow> bytes \<Rightarrow> int" where
  "missed_next i count t = atoi (case fst (fgets 23 t) of None \<Rightarrow> count | Some l \<Rightarrow> c_str l) - i"

text \<open>The limit of \<open>-k\<close>, compared with the bytes sent; 0 stands for no limit.\<close>

definition over_limit :: "nat \<Rightarrow> nat \<Rightarrow> bool" where
  "over_limit k n \<longleftrightarrow> 0 < k \<and> k < n div 1000"

definition sent_bytes :: "wire_packet list list \<Rightarrow> nat" where
  "sent_bytes pss = length (concat (map wire_bytes (concat pss)))"

lemma sent_bytes_simps [simp]:
  "sent_bytes [] = 0"
  "sent_bytes (ps # pss) = length (concat (map wire_bytes ps)) + sent_bytes pss"
  by (simp_all add: sent_bytes_def)

text \<open>
  A round of the loop: it does not fault, and when all goes well it sends one batch and stops
  only at the limit.
\<close>

definition round_sends :: "os_env \<Rightarrow> buffer \<Rightarrow> u32 \<Rightarrow> bool \<Rightarrow> sampler \<Rightarrow> sampler \<Rightarrow> bool" where
  "round_sends env b missed stop st st' \<longleftrightarrow>
     (env_good env \<longrightarrow> packet_inv (pkt (sm_sender st')) \<and>
        h_batch (header (pkt (sm_sender st'))) = next_batch (pkt (sm_sender st)) \<and>
        stop = over_limit (kbytes st) (outbytes st') \<and>
        (\<exists>ps. batch_packets b missed (next_batch (pkt (sm_sender st))) ps \<and>
          outbytes st' = outbytes st + sent_bytes [ps] \<and>
          wire (net (sm_sender st')) = wire (net (sm_sender st)) @ concat (map wire_bytes ps)))"

definition same_options :: "sampler \<Rightarrow> sampler \<Rightarrow> bool" where
  "same_options st st' \<longleftrightarrow>
     initial_missed st' = initial_missed st \<and> kbytes st' = kbytes st \<and> sm_debug st' = sm_debug st"

lemma after_send_ok:
  assumes "buffer_ok b" and "sender_inv (sm_sender st)"
  shows "\<exists>stop st'. after_send env test b rc sent st = Inr (stop, st') \<and> sender_inv (sm_sender st') \<and>
     sm_dev st' = sm_dev st \<and> sm_missed st' = sm_missed st \<and> missed_count st' = missed_count st \<and>
     same_options st st' \<and> net (sm_sender st') = net (sm_sender st) \<and> pkt (sm_sender st') = pkt (sm_sender st) \<and>
     (\<not> test \<and> rc = 0 \<longrightarrow> outbytes st' = outbytes st + sent \<and> stop = over_limit (kbytes st) (outbytes st')) \<and>
     (test \<longrightarrow> stop)"
proof (cases "rc = 0")
  case False
  with assms(2) show ?thesis
    by (intro exI[of _ True] exI[of _ st]) (simp add: after_send_def same_options_def)
next
  case True
  obtain ss where "(if sm_debug st then debug_out env b (sm_sender st) else Inr (sm_sender st)) = Inr ss"
    "sender_inv ss" "net ss = net (sm_sender st)" "pkt ss = pkt (sm_sender st)"
    using debug_out_ok[OF assms] assms(2) by (cases "sm_debug st") auto
  with True show ?thesis by (auto simp: after_send_def same_options_def over_limit_def Let_def)
qed

lemma sample_step_ok:
  assumes d: "dev_fread (sm_dev st) b = (b1, dev)" and b: "buffer_ok b1" and inv: "sender_inv (sm_sender st)"
  shows "\<exists>stop count' sent' st'. sample_step env False b count sent st = Inr (stop, b1, count', sent', st') \<and>
     sender_inv (sm_sender st') \<and> sm_dev st' = dev \<and> sm_missed st' = snd (fgets 23 (sm_missed st)) \<and>
     same_options st st' \<and> count' = (case fst (fgets 23 (sm_missed st)) of None \<Rightarrow> count | Some l \<Rightarrow> c_str l) \<and>
     round_sends env b1 (of_int (missed_next (initial_missed st) count (sm_missed st))) stop st st'"
proof -
  obtain rcc rest where f: "fgets 23 (sm_missed st) = (rcc, rest)" by fastforce
  let ?c = "case rcc of None \<Rightarrow> count | Some l \<Rightarrow> c_str l"
  define m where "m = atoi ?c - initial_missed st"
  obtain rc sent' ss where n: "network_send env b1 (of_int m) sent (sm_sender st) = Inr (rc, sent', ss)"
    "rc \<in> {0, -1}" "env_good env \<longrightarrow> rc = 0" "sender_inv ss"
    and ok: "rc = 0 \<longrightarrow> h_batch (header (pkt ss)) = next_batch (pkt (sm_sender st)) \<and> packet_inv (pkt ss) \<and>
      (\<exists>ps. batch_packets b1 (of_int m) (next_batch (pkt (sm_sender st))) ps \<and>
         wire (net ss) = wire (net (sm_sender st)) @ concat (map wire_bytes ps) \<and> sent' = sent_bytes [ps])"
    using network_send_ok[OF inv, of b1 env "of_int m" sent] b unfolding buffer_ok_def sent_bytes_def concat.simps append_Nil2 by blast
  define st1 where "st1 = st\<lparr>sm_dev := dev, sm_missed := rest, missed_count := m, sm_sender := ss\<rparr>"
  have st1: "sm_dev st1 = dev" "sm_missed st1 = rest" "same_options st st1" "sm_sender st1 = ss" "kbytes st1 = kbytes st"
    "outbytes st1 = outbytes st"
    by (simp_all add: st1_def same_options_def)
  obtain stop st' where a: "after_send env False b1 rc sent' st1 = Inr (stop, st')" "sender_inv (sm_sender st')"
    "sm_dev st' = sm_dev st1" "sm_missed st' = sm_missed st1" "same_options st1 st'"
    "net (sm_sender st') = net (sm_sender st1)" "pkt (sm_sender st') = pkt (sm_sender st1)"
    "rc = 0 \<longrightarrow> outbytes st' = outbytes st1 + sent' \<and> stop = over_limit (kbytes st1) (outbytes st')"
    using after_send_ok[OF b, of st1 env False rc sent'] n(4) st1(4) by auto
  have "sample_step env False b count sent st = Inr (stop, b1, ?c, sent', st')"
    using n(1) a(1) unfolding sample_step_def d f Let_def m_def[symmetric] st1_def by (simp del: of_int_diff flip: m_def)
  moreover have "round_sends env b1 (of_int m) stop st st'"
    using n(3) ok a(6-8) st1(4-6) by (auto simp: round_sends_def)
  ultimately show ?thesis
    using a(2-5) st1 f by (simp add: missed_next_def same_options_def m_def)
qed

section \<open>The loop\<close>

text \<open>The buffer that is sent after each read: an error, and the end, repeat the last one.\<close>

fun sent_buffers :: "buffer \<Rightarrow> dev_read list \<Rightarrow> buffer list" where
  "sent_buffers b [] = [b]"
| "sent_buffers b (GotBuffer b' # rs) = b' # sent_buffers b' rs"
| "sent_buffers b (ReadError # rs) = b # sent_buffers b rs"

lemma sent_buffers_all: "sent_buffers b (map GotBuffer bs) = bs @ [last (b # bs)]"
  by (induction bs arbitrary: b) auto

fun missed_seq :: "int \<Rightarrow> bytes \<Rightarrow> bytes \<Rightarrow> nat \<Rightarrow> u32 list" where
  "missed_seq i count t 0 = []"
| "missed_seq i count t (Suc n) =
     of_int (missed_next i count t) #
     missed_seq i (case fst (fgets 23 t) of None \<Rightarrow> count | Some l \<Rightarrow> c_str l) (snd (fgets 23 t)) n"

lemma fgets_empty [simp]: "fgets n [] = (None, [])"
  by (simp add: fgets_def)

lemma missed_seq_exhausted: "missed_seq i count [] n = replicate n (of_int (atoi count - i))"
  by (induction n) (simp_all add: missed_next_def)

text \<open>Batch after batch, with consecutive batch numbers.\<close>

fun batches :: "u32 \<Rightarrow> buffer list \<Rightarrow> u32 list \<Rightarrow> wire_packet list list \<Rightarrow> bool" where
  "batches n (b # bs) (m # ms) (ps # pss) \<longleftrightarrow> batch_packets b m n ps \<and> batches (n + 1) bs ms pss"
| "batches n bs ms pss \<longleftrightarrow> bs = [] \<and> ms = [] \<and> pss = []"

text \<open>
  The batches that are sent, of buffers \<open>bs\<close>, when \<open>n\<close> bytes are sent already and \<open>k\<close> is the
  limit: up to and including the first that exceeds it.
\<close>

fun limited :: "nat \<Rightarrow> nat \<Rightarrow> buffer list \<Rightarrow> wire_packet list list \<Rightarrow> bool" where
  "limited k n (b # bs) (ps # pss) \<longleftrightarrow>
     (if over_limit k (n + sent_bytes [ps]) then pss = [] else limited k (n + sent_bytes [ps]) bs pss)"
| "limited k n bs pss \<longleftrightarrow> bs = [] \<and> pss = []"

lemma limited_prefix:
  "limited k n bs pss \<Longrightarrow> length pss \<le> length bs \<and>
     (\<forall>i. 0 < i \<and> i < length pss \<longrightarrow> \<not> over_limit k (n + sent_bytes (take i pss))) \<and>
     (length pss < length bs \<longrightarrow> over_limit k (n + sent_bytes pss))"
proof (induction k n bs pss rule: limited.induct)
  case (1 k n b bs ps pss)
  show ?case
  proof (cases "over_limit k (n + sent_bytes [ps])")
    case True
    with 1(2) show ?thesis by simp
  next
    case False
    note IH = 1(1)[OF False]
    have "\<not> over_limit k (n + sent_bytes (take i (ps # pss)))" if "0 < i" "i < length (ps # pss)" for i
    proof (cases i)
      case (Suc j)
      with IH False 1(2) that show ?thesis by (cases j) (auto simp: add.assoc)
    qed (use that in simp)
    with IH False 1(2) show ?thesis by (simp add: add.assoc)
  qed
qed simp_all

lemma limited_0: "limited 0 n bs pss \<longleftrightarrow> length pss = length bs"
  by (induction "0 :: nat" n bs pss rule: limited.induct) (auto simp: over_limit_def)

definition loop_sends ::
  "nat \<Rightarrow> nat \<Rightarrow> u32 \<Rightarrow> buffer list \<Rightarrow> u32 list \<Rightarrow> sender_state \<Rightarrow> sender_state \<Rightarrow> bool" where
  "loop_sends k out n bs ms st st' \<longleftrightarrow>
     (\<exists>pss. limited k out bs pss \<and> batches n (take (length pss) bs) (take (length pss) ms) pss \<and>
        wire (net st') = wire (net st) @ concat (map wire_bytes (concat pss)))"

lemma loop_sends_Nil: "loop_sends k out n [] [] st st' \<longleftrightarrow> wire (net st') = wire (net st)"
proof -
  have "limited k out [] pss \<longleftrightarrow> pss = []" for pss by (cases pss) auto
  then show ?thesis by (auto simp: loop_sends_def)
qed

lemma loop_sends_Cons:
  assumes "batch_packets b m n ps" "wire (net st1) = wire (net st) @ concat (map wire_bytes ps)"
    and "\<not> over_limit k (out + sent_bytes [ps])" and "loop_sends k (out + sent_bytes [ps]) (n + 1) bs ms st1 st2"
  shows "loop_sends k out n (b # bs) (m # ms) st st2"
proof -
  obtain pss where "limited k (out + sent_bytes [ps]) bs pss"
    "batches (n + 1) (take (length pss) bs) (take (length pss) ms) pss"
    "wire (net st2) = wire (net st1) @ concat (map wire_bytes (concat pss))"
    using assms(4) by (auto simp: loop_sends_def)
  with assms(1-3) show ?thesis unfolding loop_sends_def by (intro exI[of _ "ps # pss"]) simp
qed

lemma loop_sends_last:
  assumes "batch_packets b m n ps" "wire (net st1) = wire (net st) @ concat (map wire_bytes ps)"
    and "over_limit k (out + sent_bytes [ps])"
  shows "loop_sends k out n (b # bs) (m # ms) st st1"
  using assms unfolding loop_sends_def by (intro exI[of _ "[ps]"]) simp

lemma next_batch_succ: "packet_inv ps' \<Longrightarrow> h_batch (header ps') = n \<Longrightarrow> next_batch ps' = n + 1"
  by (simp add: next_batch_def packet_inv_def)

lemma sample_loop_eof: "dev_eof (sm_dev st) \<Longrightarrow> sample_loop env test b count sent st = Inr st"
  by (subst sample_loop.simps) simp

lemma sample_loop_step:
  assumes "\<not> dev_eof (sm_dev st)" and "sample_step env test b count sent st = Inr (stop, b1, count1, sent1, st1)"
  shows "sample_loop env test b count sent st =
     (if stop then Inr st1 else sample_loop env test b1 count1 sent1 st1)"
  using assms by (subst sample_loop.simps) simp

text \<open>Whatever happens the loop ends without a fault; when all goes well it sends every buffer.\<close>

definition loop_ok :: "os_env \<Rightarrow> buffer list \<Rightarrow> bytes \<Rightarrow> sampler \<Rightarrow> sampler \<Rightarrow> bool" where
  "loop_ok env bs count st st' \<longleftrightarrow> sender_inv (sm_sender st') \<and>
     (env_good env \<longrightarrow>
        loop_sends (kbytes st) (outbytes st) (next_batch (pkt (sm_sender st))) bs
          (missed_seq (initial_missed st) count (sm_missed st) (length bs)) (sm_sender st) (sm_sender st'))"

lemma dev_fread_eof: "dev_reads f = [] \<Longrightarrow> dev_fread f b = (b, f\<lparr>dev_eof := True\<rparr>)"
  by (simp add: dev_fread_def)

lemma loop_ok_step:
  assumes r: "round_sends env b1 (of_int (missed_next (initial_missed st) count (sm_missed st))) False st st1"
    and o: "same_options st st1" and m: "sm_missed st1 = snd (fgets 23 (sm_missed st))"
    and rest: "loop_ok env bs (case fst (fgets 23 (sm_missed st)) of None \<Rightarrow> count | Some l \<Rightarrow> c_str l) st1 st'"
  shows "loop_ok env (b1 # bs) count st st'"
proof -
  have "loop_sends (kbytes st) (outbytes st) (next_batch (pkt (sm_sender st))) (b1 # bs)
      (missed_seq (initial_missed st) count (sm_missed st) (length (b1 # bs))) (sm_sender st) (sm_sender st')"
    if good: "env_good env"
  proof -
    obtain ps where ps: "batch_packets b1 (of_int (missed_next (initial_missed st) count (sm_missed st)))
        (next_batch (pkt (sm_sender st))) ps"
      "wire (net (sm_sender st1)) = wire (net (sm_sender st)) @ concat (map wire_bytes ps)"
      and out: "outbytes st1 = outbytes st + sent_bytes [ps]" "\<not> over_limit (kbytes st) (outbytes st + sent_bytes [ps])"
      and n: "next_batch (pkt (sm_sender st1)) = next_batch (pkt (sm_sender st)) + 1"
      using r good next_batch_succ unfolding round_sends_def by metis
    have "kbytes st1 = kbytes st" "initial_missed st1 = initial_missed st" using o by (simp_all add: same_options_def)
    then show ?thesis
      using loop_sends_Cons[OF ps out(2)] rest good n m out(1) by (simp add: loop_ok_def)
  qed
  with rest show ?thesis by (simp add: loop_ok_def)
qed

lemma loop_ok_stop:
  assumes "round_sends env b1 (of_int (missed_next (initial_missed st) count (sm_missed st))) True st st1"
    and "sender_inv (sm_sender st1)"
  shows "loop_ok env (b1 # bs) count st st1"
  using assms loop_sends_last[of b1 _ "next_batch (pkt (sm_sender st))"]
  by (auto simp: loop_ok_def round_sends_def)

lemma sent_buffers_Cons:
  assumes "dev_reads f = r # rs"
  obtains b1 where "dev_fread f b = (b1, f\<lparr>dev_reads := rs\<rparr>)" "sent_buffers b (r # rs) = b1 # sent_buffers b1 rs"
  using assms that by (cases r) (auto simp: dev_fread_def)

lemma sample_loop_ok:
  assumes "\<not> dev_eof (sm_dev st)" and "dev_reads (sm_dev st) = rs" and "sender_inv (sm_sender st)"
    and "\<forall>x \<in> set (sent_buffers b rs). buffer_ok x"
  shows "\<exists>st'. sample_loop env False b count sent st = Inr st' \<and> loop_ok env (sent_buffers b rs) count st st'"
  using assms
proof (induction rs arbitrary: b count sent st)
  case Nil
  then have d: "dev_fread (sm_dev st) b = (b, (sm_dev st)\<lparr>dev_eof := True\<rparr>)" and b: "buffer_ok b"
    by (simp_all add: dev_fread_eof)
  obtain stop count1 sent1 st1 where s: "sample_step env False b count sent st = Inr (stop, b, count1, sent1, st1)"
    "sender_inv (sm_sender st1)" "sm_dev st1 = (sm_dev st)\<lparr>dev_eof := True\<rparr>" "same_options st st1"
    "sm_missed st1 = snd (fgets 23 (sm_missed st))"
    and r: "round_sends env b (of_int (missed_next (initial_missed st) count (sm_missed st))) stop st st1"
    using sample_step_ok[OF d b Nil.prems(3), of env count sent] by blast
  have "sample_loop env False b count sent st = Inr st1"
    using sample_loop_step[OF Nil.prems(1) s(1)] s(3) by (simp add: sample_loop_eof)
  moreover have "loop_ok env [] c st1 st1" for c
    using s(2) by (simp add: loop_ok_def loop_sends_Nil)
  ultimately show ?case
    using loop_ok_step[OF _ s(4,5), of env b count "[]" st1] loop_ok_stop[of env b st count st1 "[]"] r s(2)
    by (cases stop) auto
next
  case (Cons rd rs)
  obtain b1 where d: "dev_fread (sm_dev st) b = (b1, (sm_dev st)\<lparr>dev_reads := rs\<rparr>)"
    and bs: "sent_buffers b (rd # rs) = b1 # sent_buffers b1 rs"
    using sent_buffers_Cons[OF Cons.prems(2)] by metis
  have b: "buffer_ok b1" "\<forall>x \<in> set (sent_buffers b1 rs). buffer_ok x" using Cons.prems(4) bs by auto
  obtain stop count1 sent1 st1 where s: "sample_step env False b count sent st = Inr (stop, b1, count1, sent1, st1)"
    "sender_inv (sm_sender st1)" "sm_dev st1 = (sm_dev st)\<lparr>dev_reads := rs\<rparr>" "same_options st st1"
    "sm_missed st1 = snd (fgets 23 (sm_missed st))"
    and c1: "count1 = (case fst (fgets 23 (sm_missed st)) of None \<Rightarrow> count | Some l \<Rightarrow> c_str l)"
    and r: "round_sends env b1 (of_int (missed_next (initial_missed st) count (sm_missed st))) stop st st1"
    using sample_step_ok[OF d b(1) Cons.prems(3), of env count sent] by blast
  obtain st' where "sample_loop env False b1 count1 sent1 st1 = Inr st'"
    "loop_ok env (sent_buffers b1 rs) count1 st1 st'"
    using Cons.IH[of st1 b1 count1 sent1] s b(2) Cons.prems(1) by auto
  then show ?case
    using sample_loop_step[OF Cons.prems(1) s(1)] loop_ok_step[OF _ s(4,5), of env b1 count] loop_ok_stop[of env b1 st count st1] r s(2)
    unfolding bs c1 by (cases stop) auto
qed

section \<open>The test reads\<close>

definition after_test :: "sampler \<Rightarrow> sampler \<Rightarrow> bool" where
  "after_test st st' \<longleftrightarrow> same_options st st' \<and> sender_inv (sm_sender st') \<and>
     net (sm_sender st') = net (sm_sender st) \<and> pkt (sm_sender st') = pkt (sm_sender st)"

lemma test_read_ok:
  assumes "\<not> dev_eof (sm_dev st)" and d: "dev_fread (sm_dev st) b0 = (b1, dev)"
    and b: "buffer_ok b1" and inv: "sender_inv (sm_sender st)"
  shows "\<exists>st'. sample_device env b0 True st = Inr st' \<and> after_test st st' \<and> sm_dev st' = dev \<and>
     sm_missed st' = snd (fgets 23 (sm_missed st)) \<and>
     missed_count st' = missed_next (initial_missed st) [] (sm_missed st)"
proof -
  obtain rcc rest where f: "fgets 23 (sm_missed st) = (rcc, rest)" by fastforce
  let ?c = "case rcc of None \<Rightarrow> [] | Some l \<Rightarrow> c_str l"
  define st1 where "st1 = st\<lparr>sm_dev := dev, sm_missed := rest, missed_count := atoi ?c - initial_missed st\<rparr>"
  have st1: "sm_dev st1 = dev" "sm_missed st1 = rest" "same_options st st1" "sm_sender st1 = sm_sender st"
    "missed_count st1 = missed_next (initial_missed st) [] (sm_missed st)"
    by (simp_all add: st1_def same_options_def missed_next_def f)
  obtain stop st' where a: "after_send env True b1 0 0 st1 = Inr (stop, st')" "sender_inv (sm_sender st')"
    "sm_dev st' = sm_dev st1" "sm_missed st' = sm_missed st1" "missed_count st' = missed_count st1" "same_options st1 st'"
    "net (sm_sender st') = net (sm_sender st1)" "pkt (sm_sender st') = pkt (sm_sender st1)" "stop"
    using after_send_ok[OF b, of st1 env True 0 0] inv st1(4) by auto
  have "sample_step env True b0 [] 0 st = Inr (True, b1, ?c, 0, st')"
    using a(1,9) unfolding sample_step_def d f Let_def by (simp add: st1_def)
  then have "sample_device env b0 True st = Inr st'"
    using sample_loop_step[OF assms(1)] by (simp add: sample_device_def)
  with a st1 f show ?thesis by (simp add: after_test_def same_options_def)
qed

section \<open>main\<close>

text \<open>
  The device delivers at least two buffers, and every buffer that is sent or looked at is one
  the kernel module could have filled; the missed attribute is a single line.
\<close>

definition device_ok :: "sampler_env \<Rightarrow> dev_read list \<Rightarrow> bool" where
  "device_ok se rs \<longleftrightarrow>
     (\<exists>b1 b2 t. se_device se = Some \<lparr>dev_reads = GotBuffer b1 # GotBuffer b2 # rs, dev_eof = False\<rparr> \<and>
        buffer_ok b1 \<and> buffer_ok b2 \<and> se_missed se = Some t \<and> snd (fgets 23 t) = []) \<and>
     (\<forall>b \<in> set (sent_buffers (se_stack se) rs). buffer_ok b)"

text \<open>The count that is sent with a batch is always 0: the missed stream is used up by then.\<close>

definition run_ok :: "os_env \<Rightarrow> buffer list \<Rightarrow> nat \<Rightarrow> sender_state \<Rightarrow> sender_state \<Rightarrow> bool" where
  "run_ok env bs k st st' \<longleftrightarrow> sender_inv st' \<and>
     (env_good env \<longrightarrow> loop_sends k 0 (next_batch (pkt st)) bs (replicate (length bs) 0) st st')"

lemma run_sampling_ok:
  assumes dev: "device_ok se rs" and inv: "sender_inv st"
  shows "\<exists>st'. run_sampling se dbg k st = Inr st' \<and> run_ok (se_os se) (sent_buffers (se_stack se) rs) k st st'"
proof -
  let ?bs = "sent_buffers (se_stack se) rs" and ?b0 = "se_stack se" and ?env = "se_os se"
  obtain b1 b2 t where d: "se_device se = Some \<lparr>dev_reads = GotBuffer b1 # GotBuffer b2 # rs, dev_eof = False\<rparr>"
    "buffer_ok b1" "buffer_ok b2" "se_missed se = Some t" "snd (fgets 23 t) = []"
    and bs: "\<forall>b \<in> set ?bs. buffer_ok b"
    using dev unfolding device_ok_def by blast
  define sm where "sm = \<lparr>sm_dev = \<lparr>dev_reads = GotBuffer b1 # GotBuffer b2 # rs, dev_eof = False\<rparr>,
    sm_missed = t, sm_debug = dbg, initial_missed = 0, missed_count = 0, kbytes = k, outbytes = 0, sm_sender = st\<rparr>"
  obtain s1 where s1: "sample_device ?env ?b0 True sm = Inr s1" "after_test sm s1"
    "sm_dev s1 = \<lparr>dev_reads = GotBuffer b2 # rs, dev_eof = False\<rparr>" "sm_missed s1 = []"
    using test_read_ok[of sm ?b0 b1 _ ?env] d(2,5) inv by (auto simp: sm_def dev_fread_def)
  have i1: "sender_inv (sm_sender s1)" using s1(2) by (simp add: after_test_def)
  obtain s2 where s2: "sample_device ?env ?b0 True s1 = Inr s2" "after_test s1 s2"
    "sm_dev s2 = \<lparr>dev_reads = rs, dev_eof = False\<rparr>" "sm_missed s2 = []" "missed_count s2 = 0"
    using test_read_ok[of s1 ?b0 b2 _ ?env] s1 d(3) i1
    by (auto simp: dev_fread_def missed_next_def after_test_def same_options_def sm_def)
  define s3 where "s3 = s2\<lparr>initial_missed := missed_count s2, outbytes := 0\<rparr>"
  have s3: "\<not> dev_eof (sm_dev s3)" "dev_reads (sm_dev s3) = rs" "sender_inv (sm_sender s3)" "kbytes s3 = k" "outbytes s3 = 0"
    "initial_missed s3 = 0" "sm_missed s3 = []" "net (sm_sender s3) = net st" "pkt (sm_sender s3) = pkt st"
    using s1(2) s2 by (simp_all add: s3_def after_test_def same_options_def sm_def)
  obtain s4 where s4: "sample_loop ?env False ?b0 [] 0 s3 = Inr s4" "loop_ok ?env ?bs [] s3 s4"
    using sample_loop_ok[OF s3(1,2,3) bs] by blast
  have "run_sampling se dbg k st = Inr (sm_sender s4)"
    using d(1,4) s1(1) s2(1) s4(1)
    unfolding run_sampling_def by (simp add: grab_device_def missed_buffer_def sm_def[symmetric] sample_device_def s3_def)
  moreover have "run_ok ?env ?bs k st (sm_sender s4)"
    using s4(2) s3 by (simp add: loop_ok_def run_ok_def missed_seq_exhausted loop_sends_def)
  ultimately show ?thesis by blast
qed

lemma close_connection_wire [simp]: "wire (net (close_connection st)) = wire (net st)"
  by (simp add: close_connection_def network_finish_def Let_def)

definition connects :: "connect_env \<Rightarrow> bool" where
  "connects ce \<longleftrightarrow> ce_getaddrinfo ce = 0 \<and> ce_socket ce \<ge> 0 \<and> ce_connect ce = 0"

lemma network_init_ok:
  "connects ce \<Longrightarrow> \<exists>ns'. network_init ce ns = Inr (0, ns') \<and> wire ns' = wire ns"
  by (simp add: network_init_def connects_def Let_def)

lemma sender_main_ok:
  assumes args: "parse_args argv False 0 = Inr (dbg, k, host # port # extra)"
    and con: "connects (se_connect se host port)" and att: "attributes_exist (se_sysfs se)"
    and dev: "device_ok se rs"
  shows "\<exists>code st'. sender_main se argv = Inr (code, st') \<and> code \<in> {0, -1} \<and>
     (env_good (se_os se) \<longrightarrow> code = 0) \<and>
     (env_good (se_os se) \<longrightarrow>
        (\<exists>pss. limited k 0 (sent_buffers (se_stack se) rs) pss \<and>
           batches 1 (take (length pss) (sent_buffers (se_stack se) rs)) (replicate (length pss) 0) pss \<and>
           wire (net st') = description (se_sysfs se) @ 0 # concat (map wire_bytes (concat pss))))"
proof -
  let ?bs = "sent_buffers (se_stack se) rs"
  define st0 where "st0 = (if dbg then sender_state0\<lparr>pkt := packet_set_debug (pkt sender_state0),
    net := network_set_debug (net sender_state0)\<rparr> else sender_state0)"
  have p0: "fresh (pkt st0)" "table st0 = empty_proc_table" "wire (net st0) = []"
    by (auto simp: st0_def sender_state0_def net_state0_def network_set_debug_def)
  obtain ns where ns: "network_init (se_connect se host port) (net st0) = Inr (0, ns)" "wire ns = []"
    using network_init_ok[OF con, of "net st0"] p0(3) by auto
  let ?st1 = "st0\<lparr>net := ns\<rparr>"
  obtain rc ns2 where h: "send_header (se_os se) (se_sysfs se) ?st1 = Inr (rc, ?st1\<lparr>clock := clock st0 + 1, net := ns2\<rparr>)"
    "rc \<in> {0, -1}" "env_good (se_os se) \<longrightarrow> rc = 0" "rc = 0 \<longrightarrow> wire ns2 = description (se_sysfs se) @ [0]"
    using send_header_ok(2)[OF att, of "se_os se" ?st1] ns(2) by auto
  let ?st2 = "?st1\<lparr>clock := clock st0 + 1, net := ns2\<rparr>"
  have inv: "sender_inv ?st2" and n: "next_batch (pkt ?st2) = 1"
    using p0 by (auto simp: sender_inv_def mode_ok_def empty_proc_table_def next_batch_def fresh_def
        packet_start_batch_def clear_data_def initialize_def packet_state0_def zero_header_def Let_def)
  obtain st3 where r: "run_sampling se dbg k ?st2 = Inr st3" "run_ok (se_os se) ?bs k ?st2 st3"
    using run_sampling_ok[OF dev inv] by blast
  have main: "sender_main se argv = (if rc \<noteq> 0 then Inr (-1, close_connection ?st2) else Inr (0, close_connection st3))"
    using ns(1) h(1) r(1) by (simp add: sender_main_def make_connection_def args st0_def Let_def split: if_splits)
  show ?thesis
  proof (cases "rc = 0")
    case True
    have "take (length pss) (replicate (length bs) x) = replicate (length pss) x" if "limited k m bs pss"
      for m bs pss and x :: u32
      using limited_prefix[OF that] by (simp add: min_absorb1)
    with True main r(2) h n show ?thesis by (fastforce simp: run_ok_def loop_sends_def)
  next
    case False
    with main h(3) show ?thesis by simp
  qed
qed

lemma sender_main_missing:
  assumes "parse_args argv False 0 = Inr (dbg, k, host # port # extra)"
    and con: "connects (se_connect se host port)" and "p \<in> set attributes" and "se_sysfs se (sysfs_path p) = None"
  shows "sender_main se argv = Inl NullDeref"
proof -
  define st0 where "st0 = (if dbg then sender_state0\<lparr>pkt := packet_set_debug (pkt sender_state0),
    net := network_set_debug (net sender_state0)\<rparr> else sender_state0)"
  obtain ns where "network_init (se_connect se host port) (net st0) = Inr (0, ns)"
    using network_init_ok[OF con] by blast
  then show ?thesis
    using assms send_header_missing[of p "se_sysfs se"] by (simp add: sender_main_def make_connection_def st0_def Let_def)
qed

end
