(* ===== verification/Reader.thy ===== *)
theory Reader
  imports Packet_Read
begin

text \<open>
  reader/reader.cpp and reader/reader.hpp: mapping a recorded stream into memory and handing
  its packets to a client. The two functions of reader.hpp that the client program defines
  are the fields of \<open>reader_client\<close>; the locale states what a client that only looks at the C
  strings and at the samples of the packet owes the reader, and proves what it is given.
\<close>

section \<open>The interface of reader.hpp\<close>

record 's reader_client =
  process_file :: "bytes \<Rightarrow> bytes \<Rightarrow> 's \<Rightarrow> fault + 's"
  process_packet :: "packet_header \<Rightarrow> bytes \<Rightarrow> bytes \<Rightarrow> sample list \<Rightarrow> 's \<Rightarrow> fault + 's"

section \<open>The loop over the packets\<close>

text \<open>
  \<open>mem\<close> is the mapping, which may extend beyond the \<open>file_size\<close> bytes of the file to the end
  of its last page; \<open>out\<close> holds the variables \<open>pkt_head\<close>, \<open>samples\<close>, \<open>cmdline\<close>, \<open>exe\<close>, \<open>pbytes\<close>.
\<close>

function packet_loop ::
  "'s reader_client \<Rightarrow> bytes \<Rightarrow> nat \<Rightarrow> nat \<Rightarrow> read_result \<Rightarrow> 's \<Rightarrow> fault + 's" where
  "packet_loop c mem file_size position out s =
     (if position < file_size then
        fault_bind (packet_read (drop position mem) (file_size - position) out) (\<lambda>(rc, out').
          if rc \<noteq> 0 then Inr s
          else
            case (rr_cmdline out', rr_exe out') of
              (Some cmdline, Some exe) \<Rightarrow>
                fault_bind (process_packet c (rr_hdr out') cmdline exe (rr_buf out') s)
                  (packet_loop c mem file_size (position + rr_read out') out')
            | _ \<Rightarrow> Inl NullDeref)
      else Inr s)"
  by pat_completeness auto
termination
  by (relation "measure (\<lambda>(c, mem, file_size, position, out, s). file_size - position)")
    (auto dest!: packet_read_progress)

declare packet_loop.simps [simp del]

lemma packet_loop_end: "file_size \<le> position \<Longrightarrow> packet_loop c mem file_size position out s = Inr s"
  by (simp add: packet_loop.simps)

definition read_file_loop ::
  "'s reader_client \<Rightarrow> bytes \<Rightarrow> bytes \<Rightarrow> nat \<Rightarrow> read_result \<Rightarrow> 's \<Rightarrow> fault + 's" where
  "read_file_loop c fileName file file_size out s =
     fault_bind (c_string file) (\<lambda>str.
       let position = length str + 1
       in fault_bind (process_file c fileName file s)
            (packet_loop c file file_size position out))"

section \<open>read_file\<close>

text \<open>The answers of \<open>stat\<close> (the size), \<open>open\<close> and \<open>mmap\<close> (the mapped memory).\<close>

record file_env =
  fe_stat :: "nat option"
  fe_open :: bool
  fe_mmap :: "bytes option"

definition read_file ::
  "'s reader_client \<Rightarrow> file_env \<Rightarrow> bytes \<Rightarrow> read_result \<Rightarrow> 's \<Rightarrow> fault + (int \<times> 's)" where
  "read_file c fe fileName out s =
     (case fe_stat fe of
        None \<Rightarrow> Inr (1, s)
      | Some filesize \<Rightarrow>
          if \<not> fe_open fe then Inr (1, s)
          else case fe_mmap fe of
                 None \<Rightarrow> Inr (1, s)
               | Some file \<Rightarrow>
                   fault_bind (read_file_loop c fileName file filesize out s) (\<lambda>s. Inr (0, s)))"

text \<open>What every packet of a client keeps, reading a file keeps, whatever the file holds.\<close>

lemma packet_loop_invariant:
  assumes step: "\<And>h cmdline exe buf s s'. P s \<Longrightarrow> process_packet c h cmdline exe buf s = Inr s' \<Longrightarrow> P s'"
    and "packet_loop c mem file_size position out s = Inr s'" and "P s"
  shows "P s'"
  using assms
proof (induction c mem file_size position out s rule: packet_loop.induct)
  case (1 c mem file_size position out s)
  show ?case
  proof (cases "position < file_size")
    case False
    with 1(3,4) show ?thesis by (simp add: packet_loop.simps)
  next
    case True
    obtain rc out' where r: "packet_read (drop position mem) (file_size - position) out = Inr (rc, out')"
      using 1(3) True by (subst (asm) packet_loop.simps) (auto simp: fault_bind_Inr_iff)
    show ?thesis
    proof (cases "rc = 0")
      case False
      with 1(3,4) True r show ?thesis by (simp add: packet_loop.simps)
    next
      case rc: True
      obtain cmdline exe s1 where e: "rr_cmdline out' = Some cmdline" "rr_exe out' = Some exe"
        "process_packet c (rr_hdr out') cmdline exe (rr_buf out') s = Inr s1"
        "packet_loop c mem file_size (position + rr_read out') out' s1 = Inr s'"
        using 1(3) True r rc
        by (subst (asm) packet_loop.simps) (auto split: option.splits simp: fault_bind_Inr_iff)
      have "P s1" by (rule 1(2)[OF 1(4) e(3)])
      show ?thesis by (rule 1(1)[OF True r refl _ refl e(1,2,3) 1(2) e(4) \<open>P s1\<close>]) (use rc in simp_all)
    qed
  qed
qed

lemma read_file_invariant:
  assumes step: "\<And>h cmdline exe buf s s'. P s \<Longrightarrow> process_packet c h cmdline exe buf s = Inr s' \<Longrightarrow> P s'"
    and file_step: "\<And>desc s s'. P s \<Longrightarrow> process_file c fileName desc s = Inr s' \<Longrightarrow> P s'"
    and "read_file c fe fileName out s = Inr (rc, s')" and "P s"
  shows "P s'"
proof -
  have loop: "P s2" if loop: "read_file_loop c fileName mem n out s = Inr s2" for mem n s2
  proof -
    obtain s1 and str :: bytes where 1: "process_file c fileName mem s = Inr s1"
      "packet_loop c mem n (length str + 1) out s1 = Inr s2"
      using loop unfolding read_file_loop_def Let_def by (elim fault_bind_InrE) blast
    show ?thesis by (rule packet_loop_invariant[of P, OF step 1(2) file_step[OF \<open>P s\<close> 1(1)]])
  qed
  show ?thesis
    using assms(3,4) loop by (auto simp: read_file_def fault_bind_Inr_iff split: option.splits if_splits)
qed

section \<open>What a client is given\<close>

text \<open>The sample array of \<open>read_file_loop\<close>: 256 entries.\<close>

definition wf_out :: "read_result \<Rightarrow> bool" where
  "wf_out out \<longleftrightarrow> length (rr_buf out) = 256 \<and> (\<forall>s \<in> set (rr_buf out). wf_sample s)"

text \<open>Delivering a packet as values: what the reader's calls amount to.\<close>

definition deliver ::
  "(packet_header \<Rightarrow> bytes \<Rightarrow> bytes \<Rightarrow> sample list \<Rightarrow> 's \<Rightarrow> fault + 's) \<Rightarrow> wire_packet \<Rightarrow> 's \<Rightarrow> fault + 's" where
  "deliver on_packet p =
     on_packet (wp_header p) (wp_cmdline p) (wp_exe p)
       (map (wire_sample (h_pid (wp_header p))) (wp_samples p))"

lemma length_wp_samples: "wf_packet p \<Longrightarrow> length (wp_samples p) \<le> 255"
  using quantity_lt[of "h_quantity (wp_header p)"] by (simp add: wf_packet_def)

lemma wf_wire_sample [simp]: "wf_sample (wire_sample pid s) = wf_sample s"
  by (simp add: wf_sample_def wire_sample_def)

lemma wire_bytes_nonempty: "wf_packet p \<Longrightarrow> wire_bytes p \<noteq> []"
  using length_wire_bytes[of p] by auto

section \<open>Samples, as the clients print them\<close>

text \<open>\<open>"%u,%u,%u,%u,%u,%u"\<close> of \<open>c.counters[0]\<close> to \<open>c.counters[5]\<close>.\<close>

definition print_counters :: "sample \<Rightarrow> bytes" where
  "print_counters s = comma_separated (map (\<lambda>i. dec (unat (s_counters s ! i))) [0..<6])"

section \<open>The contract\<close>

locale reader_client_contract =
  fixes c :: "'s reader_client"
    and on_file :: "bytes \<Rightarrow> bytes \<Rightarrow> 's \<Rightarrow> fault + 's"
    and on_packet :: "packet_header \<Rightarrow> bytes \<Rightarrow> bytes \<Rightarrow> sample list \<Rightarrow> 's \<Rightarrow> fault + 's"
  assumes process_file_string:
      "nul_free desc \<Longrightarrow> process_file c fileName (desc @ 0 # rest) s = on_file fileName desc s"
    and process_packet_strings:
      "nul_free cmdline \<Longrightarrow> nul_free exe \<Longrightarrow> unat (h_quantity h) \<le> length buf \<Longrightarrow>
       \<forall>x \<in> set buf. wf_sample x \<Longrightarrow>
       process_packet c h (cmdline @ 0 # rest) (exe @ 0 # rest') buf s =
       on_packet h cmdline exe (take (unat (h_quantity h)) buf) s"
begin

lemma packet_loop_step:
  assumes p: "wf_packet p" and out: "wf_out out"
    and mem: "mem = pre @ wire_bytes p @ rest" and size: "length pre + length (wire_bytes p) \<le> file_size"
  obtains out' where "wf_out out'" and "\<And>s. packet_loop c mem file_size (length pre) out s =
      fault_bind (deliver on_packet p s) (packet_loop c mem file_size (length (pre @ wire_bytes p)) out')"
proof -
  let ?ss = "map (wire_sample (h_pid (wp_header p))) (wp_samples p)"
  let ?out = "\<lparr>rr_hdr = wp_header p, rr_buf = ?ss @ drop (length (wp_samples p)) (rr_buf out),
               rr_cmdline = Some (wp_cmdline p @ 0 # wp_exe p @ 0 # rest),
               rr_exe = Some (wp_exe p @ 0 # rest), rr_read = length (wire_bytes p)\<rparr>"
  have wfs: "\<forall>s \<in> set (wp_samples p). wf_sample s" and buf: "length (rr_buf out) = 256"
    "\<forall>s \<in> set (rr_buf out). wf_sample s"
    using p out by (auto simp: wf_out_def wf_packet_def)
  have q: "unat (h_quantity (wp_header p)) = length (wp_samples p)" and len: "length (wp_samples p) \<le> 255"
    using p length_wp_samples by (auto simp: wf_packet_def)
  have r: "packet_read (drop (length pre) mem) (file_size - length pre) out = Inr (0, ?out)"
    using mem size packet_read_wire_bytes[OF p _ _ buf(2), where rest = rest] buf(1) len by simp
  have pos: "length pre < file_size" using size wire_bytes_nonempty[OF p] by (cases "wire_bytes p") auto
  have wfbuf: "\<forall>x \<in> set (rr_buf ?out). wf_sample x" using wfs buf(2) by (auto dest: in_set_dropD)
  have d: "process_packet c (wp_header p) (wp_cmdline p @ 0 # wp_exe p @ 0 # rest) (wp_exe p @ 0 # rest) (rr_buf ?out) s
      = deliver on_packet p s" for s
    using p wfbuf q by (subst process_packet_strings) (auto simp: wf_packet_def deliver_def)
  show ?thesis
  proof (rule that[of ?out])
    show "wf_out ?out" using wfbuf buf(1) len by (simp add: wf_out_def)
    show "packet_loop c mem file_size (length pre) out s =
        fault_bind (deliver on_packet p s) (packet_loop c mem file_size (length (pre @ wire_bytes p)) ?out)" for s
      using pos d by (simp add: packet_loop.simps[of c mem _ "length pre"] r)
  qed
qed

lemma packet_loop_packets:
  assumes "\<forall>p \<in> set ps. wf_packet p" and "wf_out out"
    and "mem = pre @ concat (map wire_bytes ps) @ pad"
    and "file_size = length pre + length (concat (map wire_bytes ps))"
  shows "packet_loop c mem file_size (length pre) out s = fault_fold (deliver on_packet) ps s"
  using assms
proof (induction ps arbitrary: pre out s)
  case Nil
  then show ?case by (simp add: packet_loop_end)
next
  case (Cons p ps)
  have p: "wf_packet p" and mem: "mem = pre @ wire_bytes p @ concat (map wire_bytes ps) @ pad"
    and size: "length pre + length (wire_bytes p) \<le> file_size"
    using Cons.prems by auto
  obtain out' where out': "wf_out out'" and step: "\<And>s. packet_loop c mem file_size (length pre) out s =
      fault_bind (deliver on_packet p s) (packet_loop c mem file_size (length (pre @ wire_bytes p)) out')"
    by (rule packet_loop_step[OF p Cons.prems(2) mem size]) (rule that)
  have IH: "packet_loop c mem file_size (length (pre @ wire_bytes p)) out' s' = fault_fold (deliver on_packet) ps s'" for s'
    by (rule Cons.IH[OF _ out']) (use Cons.prems in simp_all)
  then show ?case by (cases "deliver on_packet p s") (simp_all add: step)
qed

text \<open>A file that ends within a packet.\<close>

lemma packet_loop_cut:
  assumes p: "wf_packet p" and k: "k < length (wire_bytes p)" and out: "wf_out out"
    and mem: "mem = pre @ take k (wire_bytes p) @ 0 # 0 # pad"
  shows "packet_loop c mem (length pre + k) (length pre) out s =
    fault_fold (deliver on_packet) (case cut_packet k p of None \<Rightarrow> [] | Some q \<Rightarrow> [q]) s"
proof (cases "k = 0")
  case True
  then show ?thesis by (simp add: packet_loop_end cut_packet_def)
next
  case False
  have buf: "length (wp_samples p) \<le> length (rr_buf out)" "\<forall>s \<in> set (rr_buf out). wf_sample s"
    and wfs: "\<forall>s \<in> set (wp_samples p). wf_sample s"
    and q: "unat (h_quantity (wp_header p)) = length (wp_samples p)"
    using p out length_wp_samples[OF p] by (auto simp: wf_out_def wf_packet_def)
  note cut = packet_read_cut[OF p k buf, of pad]
  show ?thesis
  proof (cases "cut_packet k p")
    case None
    with cut False show ?thesis by (auto simp: packet_loop.simps[of c _ _ "length pre"] mem)
  next
    case (Some q)
    with p have wfq: "wf_packet q" and h: "wp_header q = wp_header p" "wp_samples q = wp_samples p"
      by (auto simp: wf_cut_packet) (auto simp: cut_packet_def Let_def split: if_splits)
    let ?buf = "map (wire_sample (h_pid (wp_header p))) (wp_samples p) @ drop (length (wp_samples p)) (rr_buf out)"
    from Some cut obtain rest rest' rd where "k < rd" and r: "packet_read (take k (wire_bytes p) @ 0 # 0 # pad) k out =
        Inr (0, out\<lparr>rr_hdr := wp_header p, rr_buf := ?buf, rr_cmdline := Some (wp_cmdline q @ 0 # rest),
                    rr_exe := Some (wp_exe q @ 0 # rest'), rr_read := rd\<rparr>)"
      by auto
    have d: "process_packet c (wp_header p) (wp_cmdline q @ 0 # rest) (wp_exe q @ 0 # rest') ?buf s = deliver on_packet q s"
      using wfq h wfs buf by (subst process_packet_strings) (auto simp: wf_packet_def deliver_def dest: in_set_dropD)
    have "packet_loop c mem (length pre + k) (length pre + rd) out' s' = Inr s'" for out' s'
      using \<open>k < rd\<close> by (simp add: packet_loop_end)
    then show ?thesis
      using False Some r d by (cases "deliver on_packet q s") (simp_all add: packet_loop.simps[of c _ _ "length pre"] mem)
  qed
qed

lemma read_file_loop_packets:
  assumes "nul_free desc" and "\<forall>p \<in> set ps. wf_packet p" and "wf_out out"
  shows "read_file_loop c fileName (desc @ 0 # concat (map wire_bytes ps) @ pad)
           (length desc + 1 + length (concat (map wire_bytes ps))) out s =
         fault_bind (on_file fileName desc s) (fault_fold (deliver on_packet) ps)"
proof -
  let ?mem = "desc @ 0 # concat (map wire_bytes ps) @ pad"
  have "packet_loop c ?mem (length desc + 1 + length (concat (map wire_bytes ps))) (length (desc @ [0])) out
      = fault_fold (deliver on_packet) ps"
    by (rule ext, rule packet_loop_packets[OF assms(2,3)]) simp_all
  then show ?thesis
    using assms(1) by (simp add: read_file_loop_def c_string_nul_free process_file_string)
qed

text \<open>A file that ends anywhere in the stream.\<close>

lemma packet_loop_prefix:
  assumes "\<forall>p \<in> set ps. wf_packet p" and "wf_out out" and "n \<le> length (concat (map wire_bytes ps))"
    and "mem = pre @ take n (concat (map wire_bytes ps)) @ 0 # 0 # pad"
    and "file_size = length pre + n"
  shows "packet_loop c mem file_size (length pre) out s = fault_fold (deliver on_packet) (cut_packets n ps) s"
  using assms
proof (induction ps arbitrary: pre n out s)
  case Nil
  then show ?case by (simp add: packet_loop_end)
next
  case (Cons p ps)
  let ?rest = "take (n - length (wire_bytes p)) (concat (map wire_bytes ps)) @ 0 # 0 # pad"
  have p: "wf_packet p" using Cons.prems by simp
  show ?case
  proof (cases "length (wire_bytes p) \<le> n")
    case True
    with Cons.prems have mem: "mem = pre @ wire_bytes p @ ?rest"
      and size: "length pre + length (wire_bytes p) \<le> file_size" by auto
    obtain out' where out': "wf_out out'" and step: "\<And>s. packet_loop c mem file_size (length pre) out s =
        fault_bind (deliver on_packet p s) (packet_loop c mem file_size (length (pre @ wire_bytes p)) out')"
      by (rule packet_loop_step[OF p Cons.prems(2) mem size]) (rule that)
    have IH: "packet_loop c mem file_size (length (pre @ wire_bytes p)) out' s' =
        fault_fold (deliver on_packet) (cut_packets (n - length (wire_bytes p)) ps) s'" for s'
      by (rule Cons.IH[OF _ out']) (use Cons.prems True mem in simp_all)
    with True show ?thesis by (cases "deliver on_packet p s") (simp_all add: step)
  next
    case False
    with Cons.prems packet_loop_cut[OF p _ Cons.prems(2), of n mem pre pad s] show ?thesis by simp
  qed
qed

lemma read_file_loop_prefix:
  assumes "nul_free desc" and "\<forall>p \<in> set ps. wf_packet p" and "wf_out out"
    and "n \<le> length (concat (map wire_bytes ps))"
  shows "read_file_loop c fileName (desc @ 0 # take n (concat (map wire_bytes ps)) @ 0 # 0 # pad)
           (length desc + 1 + n) out s =
         fault_bind (on_file fileName desc s) (fault_fold (deliver on_packet) (cut_packets n ps))"
proof -
  let ?mem = "desc @ 0 # take n (concat (map wire_bytes ps)) @ 0 # 0 # pad"
  have "packet_loop c ?mem (length desc + 1 + n) (length (desc @ [0])) out =
      fault_fold (deliver on_packet) (cut_packets n ps)"
    by (rule ext, rule packet_loop_prefix[OF assms(2-4)]) simp_all
  then show ?thesis
    using assms(1) by (simp add: read_file_loop_def c_string_nul_free process_file_string)
qed

text \<open>A file that ends within the description has no packets.\<close>

lemma read_file_loop_description:
  assumes "nul_free desc"
  shows "read_file_loop c fileName (desc @ 0 # pad) (length desc) out s = on_file fileName desc s"
proof -
  have "packet_loop c (desc @ 0 # pad) (length desc) (Suc (length desc)) out = Inr"
    by (rule ext) (simp add: packet_loop_end)
  then show ?thesis
    using assms by (simp add: read_file_loop_def c_string_nul_free process_file_string)
qed

text \<open>
  So the first \<open>n\<close> bytes of a stream are read as if they were the whole recording of what is
  left of the description and of the packets.
\<close>

lemma read_file_prefix:
  assumes desc: "nul_free desc" and wf: "\<forall>p \<in> set ps. wf_packet p" and out: "wf_out out"
    and n: "n \<le> length (desc @ 0 # concat (map wire_bytes ps))"
  defines "qs \<equiv> cut_packets (n - (length desc + 1)) ps"
  shows "read_file_loop c fileName (take n (desc @ 0 # concat (map wire_bytes ps)) @ 0 # 0 # pad) n out s =
         read_file_loop c fileName (take n desc @ 0 # concat (map wire_bytes qs) @ pad')
           (length (take n desc) + 1 + length (concat (map wire_bytes qs))) out s"
proof (cases "n \<le> length desc")
  case True
  have none: "fault_fold (deliver on_packet) [] = Inr" by (rule ext) simp
  have "nul_free (take n desc)" using desc by (auto simp: nul_free_def dest: in_set_takeD)
  with True wf show ?thesis
    using read_file_loop_description[of "take n desc" fileName "0 # pad" out s]
      read_file_loop_packets[of "take n desc" "[]" out fileName pad' s] out
    by (simp add: qs_def none)
next
  case False
  then obtain k where k: "n = length desc + 1 + k" by (metis add.commute less_imp_Suc_add not_le plus_1_eq_Suc add.assoc)
  with n have "k \<le> length (concat (map wire_bytes ps))" by simp
  with read_file_loop_prefix[OF desc wf out this] read_file_loop_packets[OF desc wf_cut_packets[OF wf] out]
  show ?thesis by (simp add: qs_def k)
qed

end

end
