(* ===== verification/Text_Reader.thy ===== *)
theory Text_Reader
  imports Reader
begin

text \<open>
  reader/text_reader.cpp: the client of the reader that prints every packet. Its state is what
  has been written to standard output.
\<close>

section \<open>Printing\<close>

definition text_process_file :: "bytes \<Rightarrow> bytes \<Rightarrow> bytes \<Rightarrow> fault + bytes" where
  "text_process_file fileName desc stdout =
     fault_bind (c_string desc) (\<lambda>d.
       Inr (stdout @ ascii ''-- Description --'' @ newline @ d @ newline @ ascii ''-----------'' @ newline))"

definition print_header :: "packet_header \<Rightarrow> bytes" where
  "print_header h =
     ascii ''== Krnl '' @ dec (unat (h_kernel h)) @ ascii '', #Ctrs '' @ dec (unat (h_counters h)) @
     ascii '', Core '' @ dec (unat (h_core h)) @ ascii '', Qty '' @ dec (unat (h_quantity h)) @
     ascii '', Batch '' @ dec (unat (h_batch h)) @ ascii '', Miss '' @ dec (unat (h_missed h)) @
     ascii '', 1st Idx '' @ dec (unat (h_first_index h)) @ ascii '', PID '' @ dec (unat (h_pid h)) @
     ascii '' =='' @ newline"

definition print_info :: "bytes \<Rightarrow> bytes \<Rightarrow> bytes" where
  "print_info cmdline exe =
     ascii ''<< cmd:  '' @ cmdline @ ascii ''; exe:  '' @ exe @ ascii '' >>'' @ newline"

definition print_sample :: "sample \<Rightarrow> bytes" where
  "print_sample s = [9] @ ascii ''('' @ dec (unat (s_cycles s)) @ ascii ''): '' @ print_counters s @ newline"

definition text_process_packet ::
  "packet_header \<Rightarrow> bytes \<Rightarrow> bytes \<Rightarrow> sample list \<Rightarrow> bytes \<Rightarrow> fault + bytes" where
  "text_process_packet head cmdline exe buf stdout =
     fault_bind (c_string cmdline) (\<lambda>cmd.
     fault_bind (c_string exe) (\<lambda>ex.
     fault_bind (fault_fold (\<lambda>i out. fault_bind (sample_at buf i) (\<lambda>c. Inr (out @ print_sample c)))
                   [0..<unat (h_quantity head)]
                   (stdout @ print_header head @ print_info cmd ex)) (\<lambda>out.
       Inr (out @ newline))))"

definition text_client :: "bytes reader_client" where
  "text_client = \<lparr>process_file = text_process_file, process_packet = text_process_packet\<rparr>"

text \<open>\<open>main\<close>: the exit code and the output.\<close>

definition text_main :: "bytes list \<Rightarrow> file_env \<Rightarrow> read_result \<Rightarrow> fault + (int \<times> bytes)" where
  "text_main argv fe out =
     (case argv of
        [prog, fileName] \<Rightarrow> read_file text_client fe fileName out []
      | _ \<Rightarrow> Inr (1, ascii ''Usage: '' @ (case argv of [] \<Rightarrow> [] | prog # _ \<Rightarrow> prog) @
                    ascii '' <data filename>'' @ newline))"

section \<open>The client's contract\<close>

text \<open>The output for a description and for a packet, as values.\<close>

definition text_on_file :: "bytes \<Rightarrow> bytes \<Rightarrow> bytes \<Rightarrow> fault + bytes" where
  "text_on_file fileName d stdout =
     Inr (stdout @ ascii ''-- Description --'' @ newline @ d @ newline @ ascii ''-----------'' @ newline)"

definition render_packet :: "packet_header \<Rightarrow> bytes \<Rightarrow> bytes \<Rightarrow> sample list \<Rightarrow> bytes" where
  "render_packet h cmdline exe ss =
     print_header h @ print_info cmdline exe @ concat (map print_sample ss) @ newline"

definition text_on_packet ::
  "packet_header \<Rightarrow> bytes \<Rightarrow> bytes \<Rightarrow> sample list \<Rightarrow> bytes \<Rightarrow> fault + bytes" where
  "text_on_packet h cmdline exe ss stdout = Inr (stdout @ render_packet h cmdline exe ss)"

lemma fold_append_output:
  "fault_fold (\<lambda>c out. Inr (out @ g c)) ss out = Inr (out @ concat (map g ss))"
  by (induction ss arbitrary: out) auto

interpretation text_reader: reader_client_contract text_client text_on_file text_on_packet
proof unfold_locales
  fix desc rest fileName s :: bytes
  assume "nul_free desc"
  then show "process_file text_client fileName (desc @ 0 # rest) s = text_on_file fileName desc s"
    by (simp add: text_client_def text_process_file_def text_on_file_def c_string_nul_free)
next
  fix cmdline exe rest rest' s :: bytes and h :: packet_header and buf :: "sample list"
  assume "nul_free cmdline" "nul_free exe" "unat (h_quantity h) \<le> length buf"
  then show "process_packet text_client h (cmdline @ 0 # rest) (exe @ 0 # rest') buf s =
      text_on_packet h cmdline exe (take (unat (h_quantity h)) buf) s"
    by (simp add: text_client_def text_process_packet_def text_on_packet_def c_string_nul_free
        fold_sample_at fold_append_output render_packet_def)
qed

end
