(* ===== verification/Splitter.thy ===== *)
theory Splitter
  imports Reader
begin

text \<open>
  reader/splitter_reader.cpp: the client of the reader that sorts the samples into one file per
  process. The files opened for writing are the list \<open>files\<close>, a \<open>FILE *\<close> is an index into
  it; what opening a file, resolving a path and \<open>write\<close> give are the parameter \<open>sp_env\<close>
  (\<open>sp_write\<close>: how many of \<open>n\<close> bytes are written, if it does not fail).
\<close>

section \<open>State\<close>

datatype output_format = Text | Binary

record out_file =
  f_path :: bytes
  f_content :: bytes
  f_open :: bool

record FileInfo =
  fi_f :: "nat option"
  fi_pid :: u32
  fi_exe :: bytes
  fi_cmdline :: bytes
  fi_fileName :: bytes

record CoreOutput =
  has_last_head :: bool
  last_head :: packet_header
  currFile :: "nat option"

record splitter =
  topDir :: bytes
  outputFormat :: output_format
  files :: "out_file list"
  pid_files :: "u32 \<Rightarrow> FileInfo option"
  cores :: "CoreOutput list"
  indexfd :: "bytes option"
  setup_txt :: "bytes option"

record sp_env =
  sp_fopen :: "bytes \<Rightarrow> bool"
  sp_realpath :: "bytes \<Rightarrow> bytes option"
  sp_mkdir :: bool
  sp_write :: "nat \<Rightarrow> nat option"

text \<open>\<open>pid\<close> is left uninitialised by the constructor; it is overwritten before it is read.\<close>

definition new_FileInfo :: FileInfo where
  "new_FileInfo = \<lparr>fi_f = None, fi_pid = 0, fi_exe = [], fi_cmdline = [], fi_fileName = []\<rparr>"

definition new_CoreOutput :: CoreOutput where
  "new_CoreOutput = \<lparr>has_last_head = False, last_head = zero_header, currFile = None\<rparr>"

section \<open>Output\<close>

definition write_file :: "nat option \<Rightarrow> bytes \<Rightarrow> splitter \<Rightarrow> fault + splitter" where
  "write_file f d st =
     (case f of None \<Rightarrow> Inl NullDeref
      | Some i \<Rightarrow>
          if i < length (files st) \<and> f_open (files st ! i)
          then Inr (st\<lparr>files := (files st)[i := (files st ! i)\<lparr>f_content := f_content (files st ! i) @ d\<rparr>]\<rparr>)
          else Inl UseAfterFree)"

definition putbinstr :: "bytes \<Rightarrow> bytes" where
  "putbinstr str = str @ [0]"

definition zeros :: "u32 list" where
  "zeros = replicate 7 0"

definition separator :: "output_format \<Rightarrow> bytes" where
  "separator fmt = (case fmt of
       Text \<Rightarrow> ascii '',,,,,,'' @ newline
     | Binary \<Rightarrow> concat (map bytes_of_u32 zeros))"

definition file_header :: "output_format \<Rightarrow> bytes \<Rightarrow> bytes \<Rightarrow> bytes" where
  "file_header fmt cmdline exe = (case fmt of
       Text \<Rightarrow> cmdline @ ascii '', '' @ exe @ newline
     | Binary \<Rightarrow> putbinstr (ascii ''Trace binary file'' @ newline) @ putbinstr cmdline @ putbinstr exe)"

definition sample_record :: "output_format \<Rightarrow> sample \<Rightarrow> bytes" where
  "sample_record fmt c = (case fmt of
       Text \<Rightarrow> dec (unat (s_cycles c)) @ comma @ print_counters c @ newline
     | Binary \<Rightarrow> concat (map bytes_of_u32 (ucast (s_cycles c) # map (\<lambda>i. s_counters c ! i) [0..<6])))"

section \<open>CoreOutput\<close>

text \<open>\<open>snprintf(fn, 1024, "%s/%u.csv", topDir, new_head.pid)\<close>.\<close>

definition data_path :: "bytes \<Rightarrow> u32 \<Rightarrow> bytes" where
  "data_path dir pid = take 1023 (dir @ ascii ''/'' @ dec (unat pid) @ ascii ''.csv'')"

definition open_data_file ::
  "sp_env \<Rightarrow> packet_header \<Rightarrow> bytes \<Rightarrow> bytes \<Rightarrow> nat \<Rightarrow> splitter \<Rightarrow> fault + splitter" where
  "open_data_file env new_head cmdline exe core st =
     (let fn = data_path (topDir st) (h_pid new_head)
      in if \<not> sp_fopen env fn then Inl (ExitCall (-1))
         else
           let i = length (files st);
               st = st\<lparr>files := files st @ [\<lparr>f_path = fn, f_content = [], f_open = True\<rparr>],
                       cores := (cores st)[core := (cores st ! core)\<lparr>currFile := Some i\<rparr>]\<rparr>
           in case sp_realpath env fn of
                None \<Rightarrow> Inl (ExitCall (-1))
              | Some fn2 \<Rightarrow>
                  write_file (Some i) (file_header (outputFormat st) cmdline exe)
                    (st\<lparr>pid_files := (pid_files st)(h_pid new_head \<mapsto>
                          \<lparr>fi_f = Some i, fi_pid = h_pid new_head, fi_exe = exe,
                           fi_cmdline = cmdline, fi_fileName = fn2\<rparr>)\<rparr>))"

definition update_info :: "packet_header \<Rightarrow> bytes \<Rightarrow> bytes \<Rightarrow> splitter \<Rightarrow> splitter" where
  "update_info new_head cmdline exe st =
     (let info = (case pid_files st (h_pid new_head) of None \<Rightarrow> new_FileInfo | Some i \<Rightarrow> i)
      in st\<lparr>pid_files := (pid_files st)(h_pid new_head \<mapsto> info\<lparr>fi_cmdline := cmdline, fi_exe := exe\<rparr>)\<rparr>)"

text \<open>\<open>checkIncrFile\<close> of \<open>cores[core]\<close>; \<open>cmdline\<close> and \<open>exe\<close> are the C strings passed in.\<close>

definition checkIncrFile ::
  "sp_env \<Rightarrow> packet_header \<Rightarrow> bytes \<Rightarrow> bytes \<Rightarrow> nat \<Rightarrow> splitter \<Rightarrow> fault + splitter" where
  "checkIncrFile env new_head cmdline exe core st =
     (let st = update_info new_head cmdline exe st;
          currInfo_f = fi_f (the (pid_files st (h_pid new_head)));
          co = cores st ! core
      in fault_bind
           (if \<not> has_last_head co \<or> h_pid (last_head co) \<noteq> h_pid new_head then
              fault_bind (if currFile co \<noteq> None
                          then write_file (currFile co) (separator (outputFormat st)) st
                          else Inr st) (\<lambda>st.
                let st = st\<lparr>cores := (cores st)[core := \<lparr>has_last_head = True, last_head = new_head,
                                                        currFile = currInfo_f\<rparr>]\<rparr>
                in if currInfo_f = None then open_data_file env new_head cmdline exe core st
                   else Inr st)
            else Inr st) (\<lambda>st.
         if currFile (cores st ! core) = None then Inl AssertFail else Inr st))"

definition core_process_packet ::
  "sp_env \<Rightarrow> packet_header \<Rightarrow> bytes \<Rightarrow> bytes \<Rightarrow> sample list \<Rightarrow> nat \<Rightarrow> splitter \<Rightarrow> fault + splitter" where
  "core_process_packet env head cmdline exe buf core st =
     fault_bind (checkIncrFile env head cmdline exe core st)
       (fault_fold (\<lambda>i st. fault_bind (sample_at buf i) (\<lambda>c.
            write_file (currFile (cores st ! core)) (sample_record (outputFormat st) c) st))
          [0..<unat (h_quantity head)])"

section \<open>The functions of the client\<close>

text \<open>The content of the file that is left behind; a short \<open>write\<close> is not repeated.\<close>

definition outputStringToFile :: "sp_env \<Rightarrow> bytes \<Rightarrow> bytes \<Rightarrow> fault + bytes" where
  "outputStringToFile env fn str =
     (if \<not> sp_fopen env fn then Inl (ExitCall (-1))
      else
        fault_bind (c_string str) (\<lambda>s.
          case sp_write env (length s) of
            None \<Rightarrow> Inl (ExitCall (-1))
          | Some wrc \<Rightarrow> Inr (take wrc s)))"

definition splitter_process_file :: "sp_env \<Rightarrow> bytes \<Rightarrow> bytes \<Rightarrow> splitter \<Rightarrow> fault + splitter" where
  "splitter_process_file env fileName desc st =
     fault_bind (outputStringToFile env (take 499 (topDir st @ ascii ''/setup.txt'')) desc) (\<lambda>txt.
       Inr (st\<lparr>setup_txt := Some txt\<rparr>))"

definition splitter_process_packet ::
  "sp_env \<Rightarrow> packet_header \<Rightarrow> bytes \<Rightarrow> bytes \<Rightarrow> sample list \<Rightarrow> splitter \<Rightarrow> fault + splitter" where
  "splitter_process_packet env head cmdline exe buf st =
     (if unat (h_core head) > 16 then Inr st
      else if \<not> unat (h_core head) < 16 then Inl AssertFail
      else
        fault_bind (c_string cmdline) (\<lambda>cmd.
        fault_bind (c_string exe) (\<lambda>ex.
          core_process_packet env head cmd ex buf (unat (h_core head)) st)))"

definition splitter_client :: "sp_env \<Rightarrow> splitter reader_client" where
  "splitter_client env =
     \<lparr>process_file = splitter_process_file env, process_packet = splitter_process_packet env\<rparr>"

section \<open>The index and main\<close>

definition startIndex :: "sp_env \<Rightarrow> splitter \<Rightarrow> splitter" where
  "startIndex env st =
     st\<lparr>indexfd := (if sp_fopen env (take 1023 (topDir st @ ascii ''/index.csv'')) then Some [] else None)\<rparr>"

definition index_line :: "FileInfo \<Rightarrow> bytes" where
  "index_line p =
     dec (unat (fi_pid p)) @ comma @ fi_cmdline p @ comma @ fi_exe p @ comma @ fi_fileName p @ newline"

definition close_info :: "u32 \<Rightarrow> splitter \<Rightarrow> fault + splitter" where
  "close_info pid st =
     (case pid_files st pid of
        None \<Rightarrow> Inr st
      | Some p \<Rightarrow>
          (case indexfd st of
             None \<Rightarrow> Inl NullDeref
           | Some idx \<Rightarrow>
               let st = st\<lparr>indexfd := Some (idx @ index_line p)\<rparr>
               in case fi_f p of
                    None \<Rightarrow> Inl NullDeref
                  | Some i \<Rightarrow>
                      if i < length (files st) \<and> f_open (files st ! i)
                      then Inr (st\<lparr>files := (files st)[i := (files st ! i)\<lparr>f_open := False\<rparr>]\<rparr>)
                      else Inl UseAfterFree))"

text \<open>\<open>order\<close> is the order in which iterating over the unordered map visits its keys.\<close>

definition closeAll :: "u32 list \<Rightarrow> splitter \<Rightarrow> fault + (bytes \<times> splitter)" where
  "closeAll order st =
     fault_bind (fault_fold close_info order st) (\<lambda>st.
       case indexfd st of
         None \<Rightarrow> Inl NullDeref
       | Some idx \<Rightarrow> Inr (idx, st\<lparr>pid_files := (\<lambda>_. None), indexfd := None\<rparr>))"

definition initial_splitter :: "bytes \<Rightarrow> output_format \<Rightarrow> splitter" where
  "initial_splitter dir fmt =
     \<lparr>topDir = dir, outputFormat = fmt, files = [], pid_files = (\<lambda>_. None),
      cores = replicate 16 new_CoreOutput, indexfd = None, setup_txt = None\<rparr>"

text \<open>The format argument: its first character decides, no argument means binary.\<close>

definition parse_format :: "bytes list \<Rightarrow> output_format option" where
  "parse_format argv =
     (if length argv > 3 then
        (if take 1 (argv ! 3) = ascii ''t'' then Some Text
         else if take 1 (argv ! 3) = ascii ''b'' then Some Binary else None)
      else Some Binary)"

text \<open>\<open>main\<close>: the exit code, the index written and the final state.\<close>

definition splitter_main ::
  "sp_env \<Rightarrow> file_env \<Rightarrow> (splitter \<Rightarrow> u32 list) \<Rightarrow> read_result \<Rightarrow> bytes list \<Rightarrow> fault + (int \<times> (bytes \<times> splitter) option)" where
  "splitter_main env fe order out argv =
     (if length argv < 3 then Inr (1, None)
      else case parse_format argv of
        None \<Rightarrow> Inr (-1, None)
      | Some fmt \<Rightarrow>
          if \<not> sp_mkdir env then Inr (-1, None)
          else
            fault_bind (read_file (splitter_client env) fe (argv ! 1) out
                          (startIndex env (initial_splitter (argv ! 2) fmt))) (\<lambda>(rc, st).
            fault_bind (closeAll (order st) st) (\<lambda>r. Inr (rc, Some r))))"

end
