(* ===== verification/Splitter_Correct.thy ===== *)
theory Splitter_Correct
  imports Splitter
begin

text \<open>
  Correctness of the splitter: the table of open files stays consistent with what every core
  believes its current file is, no assertion fails and no closed or null file is written
  while the core numbers are below 16, and the file of a process holds exactly its samples.
\<close>

section \<open>The client as values\<close>

definition splitter_on_file :: "sp_env \<Rightarrow> bytes \<Rightarrow> bytes \<Rightarrow> splitter \<Rightarrow> fault + splitter" where
  "splitter_on_file env fileName desc st =
     (if \<not> sp_fopen env (take 499 (topDir st @ ascii ''/setup.txt'')) then Inl (ExitCall (-1))
      else case sp_write env (length desc) of
             None \<Rightarrow> Inl (ExitCall (-1))
           | Some wrc \<Rightarrow> Inr (st\<lparr>setup_txt := Some (take wrc desc)\<rparr>))"

definition write_record :: "nat \<Rightarrow> sample \<Rightarrow> splitter \<Rightarrow> fault + splitter" where
  "write_record core c st = write_file (currFile (cores st ! core)) (sample_record (outputFormat st) c) st"

definition splitter_on_packet ::
  "sp_env \<Rightarrow> packet_header \<Rightarrow> bytes \<Rightarrow> bytes \<Rightarrow> sample list \<Rightarrow> splitter \<Rightarrow> fault + splitter" where
  "splitter_on_packet env h cmdline exe ss st =
     (if unat (h_core h) > 16 then Inr st
      else if \<not> unat (h_core h) < 16 then Inl AssertFail
      else fault_bind (checkIncrFile env h cmdline exe (unat (h_core h)) st)
             (fault_fold (write_record (unat (h_core h))) ss))"

interpretation split_reader: reader_client_contract
  "splitter_client env" "splitter_on_file env" "splitter_on_packet env" for env
proof unfold_locales
  fix desc rest fileName :: bytes and s
  assume "nul_free desc"
  then show "process_file (splitter_client env) fileName (desc @ 0 # rest) s = splitter_on_file env fileName desc s"
    by (simp add: splitter_client_def splitter_process_file_def outputStringToFile_def splitter_on_file_def
        c_string_nul_free split: option.split)
next
  fix cmdline exe rest rest' :: bytes and h :: packet_header and buf :: "sample list" and s
  assume "nul_free cmdline" "nul_free exe" and q: "unat (h_quantity h) \<le> length buf"
  have "(\<lambda>i st. fault_bind (sample_at buf i) (\<lambda>c. write_file (currFile (cores st ! k)) (sample_record (outputFormat st) c) st))
      = (\<lambda>i st. fault_bind (sample_at buf i) (\<lambda>c. write_record k c st))" for k
    by (simp add: write_record_def)
  then have "fault_fold (\<lambda>i st. fault_bind (sample_at buf i) (\<lambda>c. write_file (currFile (cores st ! k)) (sample_record (outputFormat st) c) st))
      [0..<unat (h_quantity h)] = fault_fold (write_record k) (take (unat (h_quantity h)) buf)" for k
    using fold_sample_at[OF q, of "write_record k"] by (auto intro!: ext)
  with \<open>nul_free cmdline\<close> \<open>nul_free exe\<close>
  show "process_packet (splitter_client env) h (cmdline @ 0 # rest) (exe @ 0 # rest') buf s =
      splitter_on_packet env h cmdline exe (take (unat (h_quantity h)) buf) s"
    by (simp add: splitter_client_def splitter_process_packet_def splitter_on_packet_def c_string_nul_free
        core_process_packet_def)
qed

section \<open>The invariant\<close>

text \<open>
  Every process in the table has an open file of its own, every file opened belongs to a
  process, and a core that has seen a packet
  writes to the file of its last packet's process.
\<close>

definition table_files :: "(u32 \<Rightarrow> FileInfo option) \<Rightarrow> out_file list \<Rightarrow> bool" where
  "table_files m fs \<longleftrightarrow>
     (\<forall>pid i. m pid = Some i \<longrightarrow>
        (\<exists>h. fi_f i = Some h \<and> h < length fs \<and> f_open (fs ! h) \<and> fi_pid i = pid)) \<and>
     (\<forall>p q i j. m p = Some i \<and> m q = Some j \<and> fi_f i = fi_f j \<longrightarrow> p = q) \<and>
     (\<forall>h < length fs. \<exists>pid i. m pid = Some i \<and> fi_f i = Some h)"

definition core_ok :: "(u32 \<Rightarrow> FileInfo option) \<Rightarrow> CoreOutput \<Rightarrow> bool" where
  "core_ok m co \<longleftrightarrow>
     (if has_last_head co then (\<exists>i. m (h_pid (last_head co)) = Some i \<and> currFile co = fi_f i)
      else currFile co = None)"

definition handles_ok :: "splitter \<Rightarrow> bool" where
  "handles_ok st \<longleftrightarrow>
     table_files (pid_files st) (files st) \<and> length (cores st) = 16 \<and>
     (\<forall>co \<in> set (cores st). core_ok (pid_files st) co)"

lemma table_filesD:
  assumes "table_files m fs" and "m pid = Some i"
  obtains h where "fi_f i = Some h" "h < length fs" "f_open (fs ! h)" "fi_pid i = pid"
  using assms unfolding table_files_def by blast

lemma table_files_distinct:
  "table_files m fs \<Longrightarrow> m p = Some i \<Longrightarrow> m q = Some j \<Longrightarrow> p \<noteq> q \<Longrightarrow> fi_f i \<noteq> fi_f j"
  unfolding table_files_def by blast

lemma table_files_owner:
  assumes "table_files m fs" and "h < length fs"
  obtains pid i where "m pid = Some i" "fi_f i = Some h"
  using assms unfolding table_files_def by blast

lemma table_files_same_info:
  assumes "table_files m fs" and "m pid = Some i" and "fi_f i' = fi_f i" and "fi_pid i' = fi_pid i"
  shows "table_files (m(pid \<mapsto> i')) fs"
proof -
  have "\<exists>q j. (m(pid \<mapsto> i')) q = Some j \<and> fi_f j = Some h" if "h < length fs" for h
    using table_files_owner[OF assms(1) that] assms(2,3) by (metis fun_upd_apply option.inject)
  then show ?thesis
    using assms unfolding table_files_def by simp metis
qed

lemma table_files_new:
  assumes t: "table_files m fs" and "m pid = None" and i: "fi_f i = Some (length fs)" "fi_pid i = pid" and "f_open f"
  shows "table_files (m(pid \<mapsto> i)) (fs @ [f])"
proof -
  have old: "\<exists>h. fi_f j = Some h \<and> h < length fs \<and> f_open (fs ! h) \<and> fi_pid j = q" if "m q = Some j" for q j
    using table_filesD[OF t that] by metis
  have "fi_f j \<noteq> fi_f i" if "m q = Some j" for q j
    using old[OF that] i by auto
  moreover have "\<exists>q j. (m(pid \<mapsto> i)) q = Some j \<and> fi_f j = Some h" if "h < length (fs @ [f])" for h
  proof (cases "h < length fs")
    case True
    then obtain q j where qj: "m q = Some j" "fi_f j = Some h" by (rule table_files_owner[OF t])
    with assms(2) have "q \<noteq> pid" by auto
    with qj show ?thesis by (intro exI[of _ q] exI[of _ j]) simp
  next
    case False
    with that i have "(m(pid \<mapsto> i)) pid = Some i \<and> fi_f i = Some h" by simp
    then show ?thesis by blast
  qed
  ultimately show ?thesis
    using t assms(5) i unfolding table_files_def by (simp add: nth_append) (fastforce dest: old)
qed

lemma core_ok_mono:
  assumes "core_ok m co" and "\<And>pid i. m pid = Some i \<Longrightarrow> \<exists>i'. m' pid = Some i' \<and> fi_f i' = fi_f i"
  shows "core_ok m' co"
  using assms unfolding core_ok_def by (metis (full_types))

lemma all_list_update: "\<forall>x \<in> set xs. P x \<Longrightarrow> P y \<Longrightarrow> \<forall>x \<in> set (xs[n := y]). P x"
  using set_update_subset_insert[of xs n y] by blast

text \<open>What a file holds after its header: separators, and records of samples.\<close>

datatype item = Separator | Record sample

fun render :: "output_format \<Rightarrow> item \<Rightarrow> bytes" where
  "render fmt Separator = separator fmt"
| "render fmt (Record s) = sample_record fmt s"

fun records :: "item list \<Rightarrow> sample list" where
  "records [] = []"
| "records (Separator # is) = records is"
| "records (Record s # is) = s # records is"

lemma records_append [simp]: "records (is @ js) = records is @ records js"
  by (induction "is" rule: records.induct) auto

text \<open>A history: the samples delivered, with the process of their packet.\<close>

definition samples_of :: "u32 \<Rightarrow> (u32 \<times> sample list) list \<Rightarrow> sample list" where
  "samples_of pid hist = concat (map snd (filter (\<lambda>e. fst e = pid) hist))"

lemma samples_of_append [simp]: "samples_of pid (xs @ ys) = samples_of pid xs @ samples_of pid ys"
  by (simp add: samples_of_def)

lemma samples_of_single [simp]: "samples_of pid [(q, ss)] = (if q = pid then ss else [])"
  by (simp add: samples_of_def)

definition holds :: "output_format \<Rightarrow> bytes \<Rightarrow> sample list \<Rightarrow> bool" where
  "holds fmt content ss \<longleftrightarrow>
     (\<exists>cmdline exe is. content = file_header fmt cmdline exe @ concat (map (render fmt) is) \<and> records is = ss)"

definition content_ok :: "(u32 \<times> sample list) list \<Rightarrow> splitter \<Rightarrow> bool" where
  "content_ok hist st \<longleftrightarrow>
     (\<forall>pid. pid_files st pid = None \<longrightarrow> samples_of pid hist = []) \<and>
     (\<forall>pid i. pid_files st pid = Some i \<longrightarrow>
        f_path (files st ! the (fi_f i)) = data_path (topDir st) pid \<and>
        holds (outputFormat st) (f_content (files st ! the (fi_f i))) (samples_of pid hist))"

definition splitter_inv :: "(u32 \<times> sample list) list \<Rightarrow> splitter \<Rightarrow> bool" where
  "splitter_inv hist st \<longleftrightarrow> handles_ok st \<and> content_ok hist st"

lemma splitter_inv_initial: "splitter_inv [] (initial_splitter dir fmt)"
  by (simp add: splitter_inv_def handles_ok_def table_files_def core_ok_def content_ok_def
      initial_splitter_def new_CoreOutput_def samples_of_def)

lemma splitter_inv_frame [simp]:
  "splitter_inv hist (st\<lparr>indexfd := a\<rparr>) = splitter_inv hist st"
  "splitter_inv hist (st\<lparr>setup_txt := b\<rparr>) = splitter_inv hist st"
  by (simp_all add: splitter_inv_def handles_ok_def content_ok_def)

lemma holds_snoc:
  assumes "holds fmt content ss"
  shows "holds fmt (content @ render fmt it) (ss @ records [it])"
proof -
  obtain cmdline exe "is" where
    "content = file_header fmt cmdline exe @ concat (map (render fmt) is)" "records is = ss"
    using assms unfolding holds_def by blast
  then show ?thesis
    unfolding holds_def by (intro exI[of _ cmdline] exI[of _ exe] exI[of _ "is @ [it]"]) simp
qed

lemma holds_header: "holds fmt (file_header fmt cmdline exe) []"
  unfolding holds_def by (intro exI[of _ cmdline] exI[of _ exe] exI[of _ "[]"]) simp

section \<open>Writing one item\<close>

definition event_of :: "u32 \<Rightarrow> item \<Rightarrow> (u32 \<times> sample list) list" where
  "event_of q it = (case it of Separator \<Rightarrow> [] | Record s \<Rightarrow> [(q, [s])])"

lemma samples_of_event: "samples_of pid (event_of q it) = (if pid = q then records [it] else [])"
  by (cases it) (auto simp: event_of_def samples_of_def)

lemma write_item:
  assumes inv: "splitter_inv hist st" and q: "pid_files st q = Some i"
  obtains fs where "write_file (fi_f i) (render (outputFormat st) it) st = Inr (st\<lparr>files := fs\<rparr>)"
    "splitter_inv (hist @ event_of q it) (st\<lparr>files := fs\<rparr>)"
proof -
  have h: "handles_ok st" and c: "content_ok hist st" using inv by (auto simp: splitter_inv_def)
  then have t: "table_files (pid_files st) (files st)" by (simp add: handles_ok_def)
  obtain k where k: "fi_f i = Some k" "k < length (files st)" "f_open (files st ! k)"
    using table_filesD[OF t q] by metis
  let ?fs = "(files st)[k := (files st ! k)\<lparr>f_content := f_content (files st ! k) @ render (outputFormat st) it\<rparr>]"
  have w: "write_file (fi_f i) (render (outputFormat st) it) st = Inr (st\<lparr>files := ?fs\<rparr>)"
    using k by (simp add: write_file_def)
  have open_eq: "f_open (?fs ! j) = f_open (files st ! j)" for j
    using k by (cases "j = k") auto
  have "handles_ok (st\<lparr>files := ?fs\<rparr>)"
    using h open_eq by (simp add: handles_ok_def table_files_def)
  moreover have "content_ok (hist @ event_of q it) (st\<lparr>files := ?fs\<rparr>)"
    unfolding content_ok_def
  proof (rule conjI; intro allI impI)
    fix pid assume "pid_files (st\<lparr>files := ?fs\<rparr>) pid = None"
    with c q show "samples_of pid (hist @ event_of q it) = []"
      by (auto simp: content_ok_def samples_of_event)
  next
    fix pid j assume "pid_files (st\<lparr>files := ?fs\<rparr>) pid = Some j"
    then have j: "pid_files st pid = Some j" by simp
    with c have path: "f_path (files st ! the (fi_f j)) = data_path (topDir st) pid"
      and old: "holds (outputFormat st) (f_content (files st ! the (fi_f j))) (samples_of pid hist)"
      by (simp_all add: content_ok_def)
    show "f_path (files (st\<lparr>files := ?fs\<rparr>) ! the (fi_f j)) = data_path (topDir (st\<lparr>files := ?fs\<rparr>)) pid \<and>
      holds (outputFormat (st\<lparr>files := ?fs\<rparr>)) (f_content (files (st\<lparr>files := ?fs\<rparr>) ! the (fi_f j)))
            (samples_of pid (hist @ event_of q it))"
    proof (cases "pid = q")
      case True
      with j q k path holds_snoc[OF old, of it] show ?thesis by (simp add: samples_of_event)
    next
      case False
      have "the (fi_f j) \<noteq> k" using table_files_distinct[OF t j q] False k table_filesD[OF t j] by force
      with False old path show ?thesis by (simp add: samples_of_event)
    qed
  qed
  ultimately show ?thesis using that w by (simp add: splitter_inv_def)
qed

section \<open>checkIncrFile\<close>

lemma write_file_pid_files:
  "write_file f d (st\<lparr>pid_files := m\<rparr>) = fault_bind (write_file f d st) (\<lambda>s. Inr (s\<lparr>pid_files := m\<rparr>))"
  by (simp add: write_file_def split: option.split)

text \<open>The separator goes to the current file of a core, if it has one.\<close>

lemma write_separator:
  assumes inv: "splitter_inv hist st" and c: "c < 16"
  obtains fs where
    "(if currFile (cores st ! c) \<noteq> None
      then write_file (currFile (cores st ! c)) (separator (outputFormat st)) st else Inr st)
     = Inr (st\<lparr>files := fs\<rparr>)" "splitter_inv hist (st\<lparr>files := fs\<rparr>)"
proof (cases "currFile (cores st ! c) = None")
  case True
  then show ?thesis using that[of "files st"] inv by simp
next
  case False
  have "cores st ! c \<in> set (cores st)" using inv c by (simp add: splitter_inv_def handles_ok_def)
  with inv False obtain q i where q: "pid_files st q = Some i" "currFile (cores st ! c) = fi_f i"
    by (auto simp: splitter_inv_def handles_ok_def core_ok_def split: if_splits)
  show ?thesis
    using write_item[OF inv q(1), of Separator] that q(2) False by (auto simp: event_of_def)
qed

text \<open>A core moves to the file of a process that is in the table.\<close>

lemma splitter_inv_set_core:
  assumes "splitter_inv hist st" and "pid_files st (h_pid h) = Some i"
  shows "splitter_inv hist (st\<lparr>cores := (cores st)[c := \<lparr>has_last_head = True, last_head = h, currFile = fi_f i\<rparr>]\<rparr>)"
proof -
  have "core_ok (pid_files st) \<lparr>has_last_head = True, last_head = h, currFile = fi_f i\<rparr>"
    using assms(2) by (simp add: core_ok_def)
  with assms(1) have "\<forall>co \<in> set ((cores st)[c := \<lparr>has_last_head = True, last_head = h, currFile = fi_f i\<rparr>]).
      core_ok (pid_files st) co"
    by (intro all_list_update) (simp_all add: splitter_inv_def handles_ok_def)
  with assms(1) show ?thesis
    by (simp add: splitter_inv_def handles_ok_def content_ok_def)
qed

lemma splitter_inv_update_info:
  assumes inv: "splitter_inv hist st" and i: "pid_files st (h_pid h) = Some i"
  shows "splitter_inv hist (update_info h cmdline exe st)"
proof -
  let ?i = "i\<lparr>fi_cmdline := cmdline, fi_exe := exe\<rparr>"
  have "table_files ((pid_files st)(h_pid h \<mapsto> ?i)) (files st)"
    using inv i by (intro table_files_same_info) (auto simp: splitter_inv_def handles_ok_def)
  moreover have "core_ok ((pid_files st)(h_pid h \<mapsto> ?i)) co" if "co \<in> set (cores st)" for co
    by (rule core_ok_mono[where m = "pid_files st"])
      (use inv i that in \<open>auto simp: splitter_inv_def handles_ok_def\<close>)
  moreover have "content_ok hist (st\<lparr>pid_files := (pid_files st)(h_pid h \<mapsto> ?i)\<rparr>)"
    using inv i by (simp add: splitter_inv_def content_ok_def)
  ultimately show ?thesis
    using inv i by (simp add: splitter_inv_def handles_ok_def update_info_def)
qed

text \<open>A process that is not in the table gets a new file.\<close>

lemma splitter_inv_new_file:
  assumes inv: "splitter_inv hist st" and new: "pid_files st (h_pid h) = None"
    and i: "fi_f i = Some (length (files st))" "fi_pid i = h_pid h"
    and f: "f_open f" "f_content f = file_header (outputFormat st) cmdline exe" "f_path f = data_path (topDir st) (h_pid h)"
  shows "splitter_inv hist (st\<lparr>files := files st @ [f], pid_files := (pid_files st)(h_pid h \<mapsto> i),
     cores := (cores st)[c := \<lparr>has_last_head = True, last_head = h, currFile = Some (length (files st))\<rparr>]\<rparr>)"
    (is "splitter_inv hist ?st")
proof -
  have t: "table_files (pid_files st) (files st)" and co: "content_ok hist st"
    and len: "length (cores st) = 16" and cs: "\<forall>c \<in> set (cores st). core_ok (pid_files st) c"
    using inv by (auto simp: splitter_inv_def handles_ok_def)
  have tf: "table_files (pid_files ?st) (files ?st)"
    using table_files_new[OF t new i f(1)] by simp
  have "core_ok ((pid_files st)(h_pid h \<mapsto> i)) co" if "co \<in> set (cores st)" for co
    by (rule core_ok_mono[where m = "pid_files st"]) (use cs new that in auto)
  then have "\<forall>co \<in> set (cores st). core_ok ((pid_files st)(h_pid h \<mapsto> i)) co" by blast
  moreover have "core_ok (pid_files ?st) \<lparr>has_last_head = True, last_head = h, currFile = Some (length (files st))\<rparr>"
    using i by (simp add: core_ok_def)
  ultimately have cok: "\<forall>c \<in> set (cores ?st). core_ok (pid_files ?st) c"
    using all_list_update[of "cores st" "core_ok (pid_files ?st)"] by simp
  have "the (fi_f j) < length (files st)" if "pid_files st pid = Some j" for pid j
    using table_filesD[OF t that] by force
  then have "content_ok hist ?st"
    using co new i f by (auto simp: content_ok_def nth_append holds_header split: if_splits)
  then show ?thesis using len tf cok by (simp add: splitter_inv_def handles_ok_def)
qed

text \<open>After \<open>checkIncrFile\<close> the core writes to the file of the process of the packet.\<close>

definition core_at :: "splitter \<Rightarrow> nat \<Rightarrow> u32 \<Rightarrow> bool" where
  "core_at st core pid \<longleftrightarrow> (\<exists>i. pid_files st pid = Some i \<and> currFile (cores st ! core) = fi_f i)"

definition same_setup :: "splitter \<Rightarrow> splitter \<Rightarrow> bool" where
  "same_setup st st' \<longleftrightarrow>
     topDir st' = topDir st \<and> outputFormat st' = outputFormat st \<and> indexfd st' = indexfd st \<and>
     setup_txt st' = setup_txt st \<and>
     (\<forall>pid. pid_files st pid \<noteq> None \<longrightarrow> pid_files st' pid \<noteq> None)"

lemma same_setup_refl [simp]: "same_setup st st"
  by (simp add: same_setup_def)

lemma same_setup_trans: "same_setup st st' \<Longrightarrow> same_setup st' st'' \<Longrightarrow> same_setup st st''"
  by (simp add: same_setup_def)

definition can_open :: "sp_env \<Rightarrow> bytes \<Rightarrow> u32 \<Rightarrow> bool" where
  "can_open env dir pid \<longleftrightarrow> sp_fopen env (data_path dir pid) \<and> sp_realpath env (data_path dir pid) \<noteq> None"

lemma splitter_inv_cong:
  "pid_files s = pid_files t \<Longrightarrow> files s = files t \<Longrightarrow> cores s = cores t \<Longrightarrow> outputFormat s = outputFormat t \<Longrightarrow>
   topDir s = topDir t \<Longrightarrow>
   splitter_inv hist s = splitter_inv hist t"
  by (simp add: splitter_inv_def handles_ok_def content_ok_def)

lemma splitter_inv_core:
  "splitter_inv hist st \<Longrightarrow> c < 16 \<Longrightarrow> length (cores st) = 16 \<and> core_ok (pid_files st) (cores st ! c)"
  by (simp add: splitter_inv_def handles_ok_def)

lemma checkIncrFile_known:
  assumes inv: "splitter_inv hist st" and c: "c < 16" and i: "pid_files st (h_pid h) = Some i"
  obtains st' where "checkIncrFile env h cmdline exe c st = Inr st'" "splitter_inv hist st'"
    "core_at st' c (h_pid h)" "same_setup st st'"
proof -
  let ?st = "update_info h cmdline exe st"
  let ?i = "i\<lparr>fi_cmdline := cmdline, fi_exe := exe\<rparr>"
  have inv1: "splitter_inv hist ?st" by (rule splitter_inv_update_info[OF inv i])
  have i1: "pid_files ?st (h_pid h) = Some ?i" using i by (simp add: update_info_def)
  have s1: "same_setup st ?st" by (simp add: same_setup_def update_info_def)
  obtain k where k: "fi_f i = Some k"
    using inv i table_filesD[of "pid_files st" "files st" "h_pid h" i] by (auto simp: splitter_inv_def handles_ok_def)
  note core = splitter_inv_core[OF inv1 c]
  show ?thesis
  proof (cases "has_last_head (cores ?st ! c) \<and> h_pid (last_head (cores ?st ! c)) = h_pid h")
    case True
    with core i1 have cur: "currFile (cores ?st ! c) = fi_f i" by (simp add: core_ok_def)
    with True k have "checkIncrFile env h cmdline exe c st = Inr ?st"
      by (simp add: checkIncrFile_def)
    with that inv1 s1 cur i1 show ?thesis by (simp add: core_at_def)
  next
    case False
    obtain fs where w: "(if currFile (cores ?st ! c) \<noteq> None
        then write_file (currFile (cores ?st ! c)) (separator (outputFormat ?st)) ?st else Inr ?st)
        = Inr (?st\<lparr>files := fs\<rparr>)" and inv2: "splitter_inv hist (?st\<lparr>files := fs\<rparr>)"
      using write_separator[OF inv1 c] by metis
    let ?st' = "?st\<lparr>files := fs, cores := (cores ?st)[c := \<lparr>has_last_head = True, last_head = h, currFile = fi_f ?i\<rparr>]\<rparr>"
    have "checkIncrFile env h cmdline exe c st = Inr ?st'"
      using False w i1 k core c by (simp add: checkIncrFile_def Let_def del: if_not_P)
    moreover have "splitter_inv hist ?st'"
      using splitter_inv_set_core[OF inv2, of h ?i c] i1 by simp
    ultimately show ?thesis
      using that i1 core c s1 by (simp add: core_at_def same_setup_def)
  qed
qed

lemma open_data_file_ok:
  assumes "sp_fopen env (data_path (topDir st) (h_pid h))" "sp_realpath env (data_path (topDir st) (h_pid h)) = Some fn"
  shows "open_data_file env h cmdline exe c st =
     Inr (st\<lparr>pid_files := (pid_files st)(h_pid h \<mapsto>
            \<lparr>fi_f = Some (length (files st)), fi_pid = h_pid h, fi_exe = exe, fi_cmdline = cmdline, fi_fileName = fn\<rparr>),
          cores := (cores st)[c := (cores st ! c)\<lparr>currFile := Some (length (files st))\<rparr>],
          files := files st @ [\<lparr>f_path = data_path (topDir st) (h_pid h),
            f_content = file_header (outputFormat st) cmdline exe, f_open = True\<rparr>]\<rparr>)"
  using assms by (simp add: open_data_file_def Let_def write_file_def list_update_append)

lemma checkIncrFile_new:
  assumes inv: "splitter_inv hist st" and c: "c < 16" and new: "pid_files st (h_pid h) = None"
    and env: "can_open env (topDir st) (h_pid h)"
  obtains st' where "checkIncrFile env h cmdline exe c st = Inr st'" "splitter_inv hist st'"
    "core_at st' c (h_pid h)" "same_setup st st'"
proof -
  define m where "m = (pid_files st)(h_pid h \<mapsto> new_FileInfo\<lparr>fi_cmdline := cmdline, fi_exe := exe\<rparr>)"
  obtain fn where fn: "sp_realpath env (data_path (topDir st) (h_pid h)) = Some fn"
    and op: "sp_fopen env (data_path (topDir st) (h_pid h))"
    using env by (auto simp: can_open_def)
  have up: "update_info h cmdline exe st = st\<lparr>pid_files := m\<rparr>" using new by (simp add: update_info_def m_def)
  have mf: "fi_f (the (m (h_pid h))) = None" by (simp add: m_def new_FileInfo_def)
  have mu: "m(h_pid h \<mapsto> i) = (pid_files st)(h_pid h \<mapsto> i)" for i by (simp add: m_def)
  note core = splitter_inv_core[OF inv c]
  have sw: "has_last_head (cores st ! c) \<Longrightarrow> h_pid (last_head (cores st ! c)) \<noteq> h_pid h"
    using core new by (auto simp: core_ok_def)
  obtain fs where w: "(if currFile (cores st ! c) \<noteq> None
      then write_file (currFile (cores st ! c)) (separator (outputFormat st)) st else Inr st)
      = Inr (st\<lparr>files := fs\<rparr>)" and inv2: "splitter_inv hist (st\<lparr>files := fs\<rparr>)"
    using write_separator[OF inv c] by metis
  have w2: "(if currFile (cores st ! c) \<noteq> None
      then write_file (currFile (cores st ! c)) (separator (outputFormat st)) (st\<lparr>pid_files := m\<rparr>)
      else Inr (st\<lparr>pid_files := m\<rparr>)) = Inr (st\<lparr>files := fs, pid_files := m\<rparr>)"
    using w by (cases "currFile (cores st ! c) = None") (simp_all add: write_file_pid_files)
  have fs0: "currFile (cores st ! c) = None \<Longrightarrow> files st = fs"
    using w by (auto dest: arg_cong[where f = files])
  let ?i = "\<lparr>fi_f = Some (length fs), fi_pid = h_pid h, fi_exe = exe, fi_cmdline = cmdline, fi_fileName = fn\<rparr>"
  let ?f = "\<lparr>f_path = data_path (topDir st) (h_pid h), f_content = file_header (outputFormat st) cmdline exe, f_open = True\<rparr>"
  define st' where "st' = st\<lparr>pid_files := (pid_files st)(h_pid h \<mapsto> ?i),
    cores := (cores st)[c := \<lparr>has_last_head = True, last_head = h, currFile = Some (length fs)\<rparr>], files := fs @ [?f]\<rparr>"
  have "checkIncrFile env h cmdline exe c st = Inr st'"
    unfolding st'_def using w2 core c fn op sw fs0
    by (cases "currFile (cores st ! c) = None")
      (simp_all add: checkIncrFile_def up Let_def mf mu open_data_file_ok)
  moreover have "splitter_inv hist st'"
    using splitter_inv_new_file[OF inv2, of h ?i ?f cmdline exe c] new
    by (subst splitter_inv_cong[where t = "st\<lparr>files := fs @ [?f], pid_files := (pid_files st)(h_pid h \<mapsto> ?i),
        cores := (cores st)[c := \<lparr>has_last_head = True, last_head = h, currFile = Some (length fs)\<rparr>]\<rparr>"])
      (simp_all add: st'_def)
  ultimately show ?thesis
    using that core c by (simp add: core_at_def same_setup_def st'_def)
qed

lemma checkIncrFile_ok:
  assumes "splitter_inv hist st" "c < 16" "can_open env (topDir st) (h_pid h)"
  obtains st' where "checkIncrFile env h cmdline exe c st = Inr st'" "splitter_inv hist st'"
    "core_at st' c (h_pid h)" "same_setup st st'"
proof (cases "pid_files st (h_pid h)")
  case None
  then show ?thesis using checkIncrFile_new[OF assms(1,2) None assms(3)] that by metis
next
  case (Some i)
  then show ?thesis using checkIncrFile_known[OF assms(1,2) Some] that by metis
qed

section \<open>Packets\<close>

lemma write_record_ok:
  assumes inv: "splitter_inv hist st" and at: "core_at st c pid"
  obtains st' where "write_record c s st = Inr st'" "splitter_inv (hist @ [(pid, [s])]) st'"
    "core_at st' c pid" "same_setup st st'"
proof -
  obtain i where i: "pid_files st pid = Some i" "currFile (cores st ! c) = fi_f i"
    using at by (auto simp: core_at_def)
  obtain fs where fs: "write_file (fi_f i) (render (outputFormat st) (Record s)) st = Inr (st\<lparr>files := fs\<rparr>)"
    "splitter_inv (hist @ event_of pid (Record s)) (st\<lparr>files := fs\<rparr>)"
    using write_item[OF inv i(1)] by metis
  then have "write_record c s st = Inr (st\<lparr>files := fs\<rparr>)"
    using i by (simp add: write_record_def)
  with that fs at show ?thesis
    by (simp add: event_of_def core_at_def same_setup_def)
qed

lemma splitter_inv_hist:
  assumes "\<And>p. samples_of p hist = samples_of p hist'"
  shows "splitter_inv hist st = splitter_inv hist' st"
  using assms by (simp add: splitter_inv_def content_ok_def)

lemma write_records_ok:
  assumes "splitter_inv hist st" and "core_at st c pid"
  obtains st' where "fault_fold (write_record c) ss st = Inr st'" "splitter_inv (hist @ [(pid, ss)]) st'"
    "core_at st' c pid" "same_setup st st'"
  using assms
proof (induction ss arbitrary: hist st thesis)
  case Nil
  then show ?case
    using splitter_inv_hist[of hist "hist @ [(pid, [])]" st] by (simp add: samples_of_def)
next
  case (Cons s ss)
  obtain st1 where s: "write_record c s st = Inr st1" "splitter_inv (hist @ [(pid, [s])]) st1"
    "core_at st1 c pid" "same_setup st st1"
    using write_record_ok[OF Cons.prems(2,3)] by metis
  obtain st2 where r: "fault_fold (write_record c) ss st1 = Inr st2"
    "splitter_inv ((hist @ [(pid, [s])]) @ [(pid, ss)]) st2" "core_at st2 c pid" "same_setup st1 st2"
    using Cons.IH[OF _ s(2,3)] by metis
  have "splitter_inv (hist @ [(pid, s # ss)]) st2"
    using r(2) splitter_inv_hist[of "(hist @ [(pid, [s])]) @ [(pid, ss)]" "hist @ [(pid, s # ss)]" st2]
    by (simp add: samples_of_def)
  with Cons.prems(1)[of st2] s r same_setup_trans[OF s(4) r(4)] show ?case by simp
qed

text \<open>
  A packet whose core number is in range reaches the file of its process, and a number above
  16 leaves everything as it is.
\<close>

lemma splitter_on_packet_ok:
  assumes inv: "splitter_inv hist st" and c: "unat (h_core h) < 16" and env: "can_open env (topDir st) (h_pid h)"
  obtains st' where "splitter_on_packet env h cmdline exe ss st = Inr st'"
    "splitter_inv (hist @ [(h_pid h, ss)]) st'" "same_setup st st'" "pid_files st' (h_pid h) \<noteq> None"
proof -
  obtain st1 where 1: "checkIncrFile env h cmdline exe (unat (h_core h)) st = Inr st1" "splitter_inv hist st1"
    "core_at st1 (unat (h_core h)) (h_pid h)" "same_setup st st1"
    using checkIncrFile_ok[OF inv c env] by metis
  obtain st2 where 2: "fault_fold (write_record (unat (h_core h))) ss st1 = Inr st2"
    "splitter_inv (hist @ [(h_pid h, ss)]) st2" "core_at st2 (unat (h_core h)) (h_pid h)" "same_setup st1 st2"
    using write_records_ok[OF 1(2,3)] by metis
  have "splitter_on_packet env h cmdline exe ss st = Inr st2"
    using c 1 2 by (simp add: splitter_on_packet_def)
  moreover have "pid_files st2 (h_pid h) \<noteq> None" using 2(3) by (auto simp: core_at_def)
  ultimately show ?thesis using that 1 2 same_setup_trans by blast
qed

text \<open>The test for a bad core number lets 16 through, and the assertion after it fails.\<close>

lemma splitter_on_packet_core:
  "unat (h_core h) > 16 \<Longrightarrow> splitter_on_packet env h cmdline exe ss st = Inr st"
  "unat (h_core h) = 16 \<Longrightarrow> splitter_on_packet env h cmdline exe ss st = Inl AssertFail"
  by (simp_all add: splitter_on_packet_def)

end
