(* ===== verification/Splitter_Run.thy ===== *)
theory Splitter_Run
  imports Splitter_Correct
begin

text \<open>
  The splitter as a whole: all the packets of a recording, the closing of the files and the
  index, and \<open>main\<close>.
\<close>

section \<open>All the packets\<close>

text \<open>What the packets of a recording carry: a process and its samples, in order.\<close>

definition delivered :: "wire_packet list \<Rightarrow> (u32 \<times> sample list) list" where
  "delivered ps =
     map (\<lambda>p. (h_pid (wp_header p), map (wire_sample (h_pid (wp_header p))) (wp_samples p))) ps"

lemma delivered_simps [simp]:
  "delivered [] = []"
  "delivered (p # ps) =
     (h_pid (wp_header p), map (wire_sample (h_pid (wp_header p))) (wp_samples p)) # delivered ps"
  by (simp_all add: delivered_def)

definition packet_fits :: "sp_env \<Rightarrow> bytes \<Rightarrow> wire_packet \<Rightarrow> bool" where
  "packet_fits env dir p \<longleftrightarrow>
     unat (h_core (wp_header p)) < 16 \<and> can_open env dir (h_pid (wp_header p))"

lemma splitter_packets_ok:
  assumes "splitter_inv hist st" and "\<forall>p \<in> set ps. packet_fits env (topDir st) p"
  obtains st' where "fault_fold (deliver (splitter_on_packet env)) ps st = Inr st'"
    "splitter_inv (hist @ delivered ps) st'" "same_setup st st'"
    "\<forall>p \<in> set ps. pid_files st' (h_pid (wp_header p)) \<noteq> None"
  using assms
proof (induction ps arbitrary: hist st thesis)
  case Nil
  then show ?case by simp
next
  case (Cons p ps)
  let ?h = "wp_header p" and ?ss = "map (wire_sample (h_pid (wp_header p))) (wp_samples p)"
  obtain st1 where 1: "deliver (splitter_on_packet env) p st = Inr st1"
    "splitter_inv (hist @ [(h_pid ?h, ?ss)]) st1" "same_setup st st1" "pid_files st1 (h_pid ?h) \<noteq> None"
    using splitter_on_packet_ok[OF Cons.prems(2), of ?h env "wp_cmdline p" "wp_exe p" ?ss] Cons.prems(3)
    by (auto simp: packet_fits_def deliver_def)
  have "\<forall>p \<in> set ps. packet_fits env (topDir st1) p" using Cons.prems(3) 1(3) by (simp add: same_setup_def)
  then obtain st2 where 2: "fault_fold (deliver (splitter_on_packet env)) ps st1 = Inr st2"
    "splitter_inv ((hist @ [(h_pid ?h, ?ss)]) @ delivered ps) st2" "same_setup st1 st2"
    "\<forall>p \<in> set ps. pid_files st2 (h_pid (wp_header p)) \<noteq> None"
    using Cons.IH[OF _ 1(2)] by metis
  have "pid_files st2 (h_pid ?h) \<noteq> None" using 1(4) 2(3) by (simp add: same_setup_def)
  with Cons.prems(1)[of st2] 1(1) 2 same_setup_trans[OF 1(3) 2(3)] show ?case by simp
qed

section \<open>Closing\<close>

definition handle_of :: "splitter \<Rightarrow> u32 \<Rightarrow> nat" where
  "handle_of st pid = the (fi_f (the (pid_files st pid)))"

definition closable :: "u32 list \<Rightarrow> splitter \<Rightarrow> bool" where
  "closable order st \<longleftrightarrow>
     (\<forall>pid \<in> set order. \<exists>i. pid_files st pid = Some i \<and> fi_f i = Some (handle_of st pid)) \<and>
     (\<forall>pid \<in> set order. handle_of st pid < length (files st) \<and> f_open (files st ! handle_of st pid)) \<and>
     distinct (map (handle_of st) order)"

definition index_of :: "splitter \<Rightarrow> u32 list \<Rightarrow> bytes" where
  "index_of st order = concat (map (\<lambda>pid. index_line (the (pid_files st pid))) order)"

definition close_file :: "nat \<Rightarrow> out_file list \<Rightarrow> out_file list" where
  "close_file h fs = fs[h := (fs ! h)\<lparr>f_open := False\<rparr>]"

lemma close_infos:
  assumes "closable order st" and "indexfd st = Some idx"
  shows "fault_fold close_info order st =
     Inr (st\<lparr>indexfd := Some (idx @ index_of st order), files := fold close_file (map (handle_of st) order) (files st)\<rparr>)"
  using assms
proof (induction order arbitrary: st idx)
  case Nil
  then show ?case by (simp add: index_of_def)
next
  case (Cons pid order)
  let ?h = "handle_of st pid"
  let ?st = "st\<lparr>indexfd := Some (idx @ index_line (the (pid_files st pid))), files := close_file ?h (files st)\<rparr>"
  have c: "close_info pid st = Inr ?st"
    using Cons.prems by (auto simp: closable_def close_info_def close_file_def Let_def)
  have same: "handle_of ?st = handle_of st" by (simp add: handle_of_def fun_eq_iff)
  have "closable order ?st"
    using Cons.prems(1) unfolding closable_def same by (auto simp: close_file_def nth_list_update)
  then have "fault_fold close_info order ?st =
      Inr (?st\<lparr>indexfd := Some ((idx @ index_line (the (pid_files st pid))) @ index_of ?st order),
        files := fold close_file (map (handle_of ?st) order) (files ?st)\<rparr>)"
    by (rule Cons.IH) simp
  with c same show ?case by (simp add: index_of_def)
qed

lemma close_file_nth:
  "h < length fs \<Longrightarrow> close_file a fs ! h = (if h = a then (fs ! h)\<lparr>f_open := False\<rparr> else fs ! h)"
  "length (close_file a fs) = length fs"
  by (simp_all add: close_file_def nth_list_update_neq)

lemma fold_close_file:
  "length (fold close_file hs fs) = length fs"
  "h < length fs \<Longrightarrow> fold close_file hs fs ! h =
     (if h \<in> set hs then (fs ! h)\<lparr>f_open := False\<rparr> else fs ! h)"
  by (induction hs arbitrary: fs) (auto simp: close_file_nth)

text \<open>The order of the unordered map is any order that visits every key once.\<close>

definition visits_keys :: "u32 list \<Rightarrow> splitter \<Rightarrow> bool" where
  "visits_keys order st \<longleftrightarrow> distinct order \<and> set order = dom (pid_files st)"

lemma splitter_inv_closable:
  assumes inv: "splitter_inv hist st" and order: "visits_keys order st"
  shows "closable order st" and "set (map (handle_of st) order) = {..<length (files st)}"
proof -
  have t: "table_files (pid_files st) (files st)" using inv by (simp add: splitter_inv_def handles_ok_def)
  have ex: "\<exists>i. pid_files st pid = Some i" if "pid \<in> set order" for pid
    using order that by (auto simp: visits_keys_def)
  have h: "\<exists>i. pid_files st pid = Some i \<and> fi_f i = Some (handle_of st pid)"
    "handle_of st pid < length (files st)" "f_open (files st ! handle_of st pid)" if pid: "pid \<in> set order" for pid
    using ex[OF pid] table_filesD[OF t, of pid] by (force simp: handle_of_def)+
  have inj: "inj_on (handle_of st) (set order)"
  proof (rule inj_onI)
    fix p q assume "p \<in> set order" "q \<in> set order" "handle_of st p = handle_of st q"
    then show "p = q" using h(1)[of p] h(1)[of q] table_files_distinct[OF t, of p _ q] by force
  qed
  show "closable order st"
    using h inj order by (simp add: closable_def distinct_map visits_keys_def)
  have "\<exists>pid \<in> set order. handle_of st pid = k" if k: "k < length (files st)" for k
  proof -
    obtain pid i where "pid_files st pid = Some i" "fi_f i = Some k" using table_files_owner[OF t k] .
    with order show ?thesis by (intro bexI[of _ pid]) (auto simp: handle_of_def visits_keys_def)
  qed
  with h(2) show "set (map (handle_of st) order) = {..<length (files st)}" by force
qed

lemma closeAll_ok:
  assumes inv: "splitter_inv hist st" and order: "visits_keys order st" and idx: "indexfd st = Some idx"
  shows "closeAll order st = Inr (idx @ index_of st order,
     st\<lparr>files := map (\<lambda>f. f\<lparr>f_open := False\<rparr>) (files st), pid_files := (\<lambda>_. None), indexfd := None\<rparr>)"
proof -
  have "fold close_file (map (handle_of st) order) (files st) = map (\<lambda>f. f\<lparr>f_open := False\<rparr>) (files st)"
    using splitter_inv_closable(2)[OF inv order] by (intro nth_equalityI) (auto simp: fold_close_file)
  then show ?thesis
    by (simp add: closeAll_def close_infos[OF splitter_inv_closable(1)[OF inv order] idx])
qed

text \<open>Without an index file the splitter writes to a null pointer at its end.\<close>

lemma closeAll_no_index: "indexfd st = None \<Longrightarrow> closeAll order st = Inl NullDeref"
proof -
  assume none: "indexfd st = None"
  have "fault_fold close_info order st = Inr st \<or> fault_fold close_info order st = Inl NullDeref"
    by (induction order) (auto simp: close_info_def none split: option.split)
  with none show ?thesis by (auto simp: closeAll_def)
qed

section \<open>main\<close>

text \<open>What the environment of a run has to allow: the directory, the fixed files, whole writes.\<close>

definition split_env_ok :: "sp_env \<Rightarrow> bytes \<Rightarrow> bool" where
  "split_env_ok env dir \<longleftrightarrow>
     sp_mkdir env \<and> sp_fopen env (take 499 (dir @ ascii ''/setup.txt'')) \<and>
     sp_fopen env (take 1023 (dir @ ascii ''/index.csv'')) \<and> (\<forall>n. sp_write env n = Some n)"

definition recording :: "file_env \<Rightarrow> bytes \<Rightarrow> wire_packet list \<Rightarrow> bytes \<Rightarrow> bool" where
  "recording fe desc ps pad \<longleftrightarrow>
     fe_open fe \<and> fe_mmap fe = Some (desc @ 0 # concat (map wire_bytes ps) @ pad) \<and>
     fe_stat fe = Some (length desc + 1 + length (concat (map wire_bytes ps)))"

definition file_of :: "splitter \<Rightarrow> bytes \<Rightarrow> u32 \<Rightarrow> sample list \<Rightarrow> bool" where
  "file_of st dir pid ss \<longleftrightarrow>
     (\<exists>f \<in> set (files st). f_path f = data_path dir pid \<and> holds (outputFormat st) (f_content f) ss)"

lemma splitter_read_file:
  assumes env: "split_env_ok env dir" and rec: "recording fe desc ps pad" and desc: "nul_free desc"
    and wf: "\<forall>p \<in> set ps. wf_packet p" and out: "wf_out out" and fits: "\<forall>p \<in> set ps. packet_fits env dir p"
  obtains st where
    "read_file (splitter_client env) fe fileName out (startIndex env (initial_splitter dir fmt)) = Inr (0, st)"
    "splitter_inv (delivered ps) st" "indexfd st = Some []" "setup_txt st = Some desc" "outputFormat st = fmt"
    "topDir st = dir" "\<forall>p \<in> set ps. pid_files st (h_pid (wp_header p)) \<noteq> None"
proof -
  define st0 where "st0 = startIndex env (initial_splitter dir fmt)"
  have init: "splitter_inv [] (st0\<lparr>setup_txt := Some desc\<rparr>)" "topDir st0 = dir" "outputFormat st0 = fmt"
    "indexfd st0 = Some []"
    using env by (simp_all add: st0_def startIndex_def splitter_inv_initial split_env_ok_def)
      (simp_all add: initial_splitter_def)
  have f: "splitter_on_file env fileName desc st0 = Inr (st0\<lparr>setup_txt := Some desc\<rparr>)"
    using env init(2) by (simp add: splitter_on_file_def split_env_ok_def)
  obtain st where st: "fault_fold (deliver (splitter_on_packet env)) ps (st0\<lparr>setup_txt := Some desc\<rparr>) = Inr st"
    "splitter_inv ([] @ delivered ps) st" "same_setup (st0\<lparr>setup_txt := Some desc\<rparr>) st"
    "\<forall>p \<in> set ps. pid_files st (h_pid (wp_header p)) \<noteq> None"
    using splitter_packets_ok[OF init(1), of ps env] fits init(2) by auto
  have "read_file (splitter_client env) fe fileName out st0 = Inr (0, st)"
    using rec split_reader.read_file_loop_packets[OF desc wf out, of env fileName pad st0] f st(1)
    by (simp add: read_file_def recording_def)
  with that[of st] st init show ?thesis by (simp add: same_setup_def st0_def)
qed

lemma splitter_inv_file_of:
  assumes inv: "splitter_inv hist st"
  shows "pid_files st pid \<noteq> None \<Longrightarrow> file_of st (topDir st) pid (samples_of pid hist)"
    and "f \<in> set (files st) \<Longrightarrow> \<exists>pid. pid_files st pid \<noteq> None \<and> f_path f = data_path (topDir st) pid \<and>
           holds (outputFormat st) (f_content f) (samples_of pid hist)"
proof -
  have t: "table_files (pid_files st) (files st)" and c: "content_ok hist st"
    using inv by (simp_all add: splitter_inv_def handles_ok_def)
  { assume "pid_files st pid \<noteq> None"
    then obtain i h where i: "pid_files st pid = Some i" "fi_f i = Some h" "h < length (files st)"
      using table_filesD[OF t] by (metis option.exhaust)
    with c show "file_of st (topDir st) pid (samples_of pid hist)"
      unfolding file_of_def by (intro bexI[of _ "files st ! h"]) (force simp: content_ok_def)+ }
  assume "f \<in> set (files st)"
  then obtain h where h: "h < length (files st)" "f = files st ! h" by (auto simp: in_set_conv_nth)
  obtain q j where "pid_files st q = Some j" "fi_f j = Some h" using table_files_owner[OF t h(1)] .
  with c h show "\<exists>pid. pid_files st pid \<noteq> None \<and> f_path f = data_path (topDir st) pid \<and>
      holds (outputFormat st) (f_content f) (samples_of pid hist)"
    by (intro exI[of _ q]) (force simp: content_ok_def)
qed

section \<open>Runs that fail\<close>

text \<open>No packet opens the index: without it, whatever the file holds, the run ends in a fault.\<close>

lemma write_file_setup: "write_file f d st = Inr st' \<Longrightarrow> indexfd st' = indexfd st"
  by (auto simp: write_file_def split: option.splits if_splits)

lemma open_data_file_setup: "open_data_file env h cmdline exe core st = Inr st' \<Longrightarrow> indexfd st' = indexfd st"
  by (auto simp: open_data_file_def Let_def dest!: write_file_setup split: option.splits if_splits)

lemma checkIncrFile_setup: "checkIncrFile env h cmdline exe core st = Inr st' \<Longrightarrow> indexfd st' = indexfd st"
  by (auto simp: checkIncrFile_def update_info_def Let_def fault_bind_Inr_iff
      dest!: write_file_setup open_data_file_setup split: if_splits)

lemma process_packet_setup:
  assumes "splitter_process_packet env h cmdline exe buf st = Inr st'"
  shows "indexfd st' = indexfd st"
proof -
  { fix cmd ex core st0 st1
    assume 0: "core_process_packet env h cmd ex buf core st0 = Inr st1"
    then obtain st2 where 1: "checkIncrFile env h cmd ex core st0 = Inr st2"
      "fault_fold (\<lambda>i st. fault_bind (sample_at buf i) (\<lambda>c.
            write_file (currFile (cores st ! core)) (sample_record (outputFormat st) c) st))
          [0..<unat (h_quantity h)] st2 = Inr st1"
      by (auto simp: core_process_packet_def fault_bind_Inr_iff)
    have "indexfd st1 = indexfd st2"
      by (rule fault_fold_invariant[where P = "\<lambda>st. indexfd st = indexfd st2", OF _ refl 1(2)])
        (auto simp: fault_bind_Inr_iff dest!: write_file_setup)
    with checkIncrFile_setup[OF 1(1)] have "indexfd st1 = indexfd st0" by simp }
  note core = this
  show ?thesis using assms core
    by (auto simp: splitter_process_packet_def fault_bind_Inr_iff split: if_splits)
qed

lemma splitter_main_no_index:
  assumes argv: "3 \<le> length argv" "parse_format argv = Some fmt"
    and index: "\<not> sp_fopen env (take 1023 (argv ! 2 @ ascii ''/index.csv''))"
    and mkdir: "sp_mkdir env"
  shows "\<exists>e. splitter_main env fe order out argv = Inl e"
proof -
  let ?st = "startIndex env (initial_splitter (argv ! 2) fmt)"
  have 0: "indexfd ?st = None" using index by (simp add: startIndex_def initial_splitter_def)
  have "indexfd st = None" if r: "read_file (splitter_client env) fe (argv ! 1) out ?st = Inr (rc, st)" for rc st
  proof (rule read_file_invariant[where P = "\<lambda>st. indexfd st = None", OF _ _ r 0])
    fix h cmdline exe buf s s'
    assume "indexfd s = None" "process_packet (splitter_client env) h cmdline exe buf s = Inr s'"
    then show "indexfd s' = None" using process_packet_setup by (simp add: splitter_client_def)
  next
    fix desc s s'
    assume "indexfd s = None" "process_file (splitter_client env) (argv ! 1) desc s = Inr s'"
    then show "indexfd s' = None"
      by (auto simp: splitter_client_def splitter_process_file_def fault_bind_Inr_iff split: if_splits)
  qed
  then show ?thesis
    using argv mkdir closeAll_no_index
    by (cases "read_file (splitter_client env) fe (argv ! 1) out ?st") (auto simp: splitter_main_def)
qed

text \<open>A packet of core 16 stops the run, whatever comes after it.\<close>

lemma splitter_main_core_16:
  assumes argv: "2 < length argv" "argv ! 2 = dir" "parse_format argv = Some fmt"
    and env: "split_env_ok env dir" and rec: "recording fe desc (ps @ p # qs) pad" and desc: "nul_free desc"
    and wf: "\<forall>q \<in> set (ps @ p # qs). wf_packet q" and out: "wf_out out" and fits: "\<forall>q \<in> set ps. packet_fits env dir q"
    and core: "unat (h_core (wp_header p)) = 16"
  shows "splitter_main env fe order out argv = Inl AssertFail"
proof -
  define st0 where "st0 = startIndex env (initial_splitter dir fmt)"
  have init: "splitter_inv [] (st0\<lparr>setup_txt := Some desc\<rparr>)" "topDir st0 = dir"
    using env by (simp_all add: st0_def startIndex_def splitter_inv_initial split_env_ok_def)
      (simp_all add: initial_splitter_def)
  have f: "splitter_on_file env (argv ! 1) desc st0 = Inr (st0\<lparr>setup_txt := Some desc\<rparr>)"
    using env init(2) by (simp add: splitter_on_file_def split_env_ok_def)
  obtain st where st: "fault_fold (deliver (splitter_on_packet env)) ps (st0\<lparr>setup_txt := Some desc\<rparr>) = Inr st"
    using splitter_packets_ok[OF init(1), of ps env] fits init(2) by simp blast
  have "fault_fold (deliver (splitter_on_packet env)) (ps @ p # qs) (st0\<lparr>setup_txt := Some desc\<rparr>) = Inl AssertFail"
    using st core by (simp add: fault_fold_append deliver_def splitter_on_packet_core)
  then have "read_file (splitter_client env) fe (argv ! 1) out st0 = Inl AssertFail"
    using rec split_reader.read_file_loop_packets[OF desc wf out, of env "argv ! 1" pad st0] f
    by (simp add: read_file_def recording_def)
  then show ?thesis using argv env by (simp add: splitter_main_def split_env_ok_def st0_def)
qed

end
