(* ===== verification/Pipeline.thy ===== *)
theory Pipeline
  imports Sender_Correct Text_Reader Splitter_Run
begin

text \<open>
  The programs together: the stream that the sampling program sends, recorded in a file, is
  read back by both readers; what they print and file are the samples of the buffers that the
  device delivered.
\<close>

section \<open>A sequence of batches\<close>

lemma batch_packet: "batch_packets b m n ps \<Longrightarrow> p \<in> set ps \<Longrightarrow> packet_of b m n p"
  by (simp add: batch_packets_def)

lemma batches_packet:
  "batches n bs ms pss \<Longrightarrow> p \<in> set (concat pss) \<Longrightarrow> \<exists>b \<in> set bs. \<exists>m k. packet_of b m k p"
  by (induction n bs ms pss rule: batches.induct) (auto dest: batch_packet)

lemma batches_wf: "batches n bs ms pss \<Longrightarrow> p \<in> set (concat pss) \<Longrightarrow> wf_packet p"
  by (auto dest!: batches_packet simp: packet_of_def)

lemma batches_samples: "batches n bs ms pss \<Longrightarrow> concat (map wp_samples (concat pss)) = concat (map filled bs)"
  by (induction n bs ms pss rule: batches.induct) (auto simp: batch_packets_def)

text \<open>The samples of one process among those of the buffers, as the wire keeps them.\<close>

definition of_pid :: "u32 \<Rightarrow> sample list \<Rightarrow> sample list" where
  "of_pid pid ss = map (wire_sample pid) (filter (\<lambda>s. ucast (s_pid s) = pid) ss)"

lemma of_pid_append [simp]: "of_pid pid (xs @ ys) = of_pid pid xs @ of_pid pid ys"
  by (simp add: of_pid_def)

lemma samples_of_Cons: "samples_of pid ((q, ss) # hist) = (if q = pid then ss else []) @ samples_of pid hist"
  by (simp add: samples_of_def)

lemma of_pid_packet:
  assumes "\<forall>s \<in> set ss. ucast (s_pid s) = q"
  shows "of_pid pid ss = (if q = pid then map (wire_sample q) ss else [])"
proof (cases "q = pid")
  case True
  with assms have "filter (\<lambda>s. ucast (s_pid s) = pid) ss = ss" by (intro filter_True) simp
  with True show ?thesis by (simp add: of_pid_def)
next
  case False
  with assms have "filter (\<lambda>s. ucast (s_pid s) = pid) ss = []" by (intro filter_False) auto
  with False show ?thesis by (simp add: of_pid_def)
qed

lemma samples_of_delivered:
  assumes "\<forall>p \<in> set ps. \<forall>s \<in> set (wp_samples p). ucast (s_pid s) = h_pid (wp_header p)"
  shows "samples_of pid (delivered ps) = of_pid pid (concat (map wp_samples ps))"
  using assms
proof (induction ps)
  case Nil
  then show ?case by (simp add: samples_of_def of_pid_def)
next
  case (Cons p ps)
  then show ?case
    using of_pid_packet[of "wp_samples p" "h_pid (wp_header p)" pid] by (simp add: samples_of_Cons)
qed

lemma batches_delivered:
  assumes "batches n bs ms pss"
  shows "samples_of pid (delivered (concat pss)) = of_pid pid (concat (map filled bs))"
proof -
  have "\<forall>p \<in> set (concat pss). \<forall>s \<in> set (wp_samples p). ucast (s_pid s) = h_pid (wp_header p)"
  proof
    fix p assume "p \<in> set (concat pss)"
    then obtain b m k where "packet_of b m k p" using batches_packet[OF assms] by blast
    then show "\<forall>s \<in> set (wp_samples p). ucast (s_pid s) = h_pid (wp_header p)" by (simp add: packet_of_def)
  qed
  then show ?thesis by (simp add: samples_of_delivered batches_samples[OF assms])
qed

section \<open>The recorded stream\<close>

text \<open>A file that holds exactly the bytes sent; the mapping may go on after its end.\<close>

definition recorded :: "bytes \<Rightarrow> bytes \<Rightarrow> file_env \<Rightarrow> bool" where
  "recorded stream pad fe \<longleftrightarrow>
     fe_open fe \<and> fe_stat fe = Some (length stream) \<and> fe_mmap fe = Some (stream @ pad)"

lemma recorded_recording:
  "recorded (desc @ 0 # concat (map wire_bytes ps)) pad fe \<longleftrightarrow> recording fe desc ps pad"
  by (auto simp: recorded_def recording_def)

text \<open>
  A recording that stops after \<open>n\<close> bytes, anywhere in the description or in a packet; the mapping
  goes on with at least two zero bytes.
\<close>

lemma read_prefix:
  assumes cut: "recorded (take n (desc @ 0 # concat (map wire_bytes ps))) (0 # 0 # pad) fe"
    and whole: "recorded (take n desc @ 0 # concat (map wire_bytes (cut_packets (n - (length desc + 1)) ps))) pad' fe'"
    and n: "n \<le> length (desc @ 0 # concat (map wire_bytes ps))"
    and desc: "nul_free desc" and wf: "\<forall>p \<in> set ps. wf_packet p" and out: "wf_out out"
  shows "read_file text_client fe fileName out s = read_file text_client fe' fileName out s"
    and "read_file (splitter_client env) fe fileName out st = read_file (splitter_client env) fe' fileName out st"
proof -
  have "min (length desc) n + (n - length desc) = n" by simp
  then show "read_file text_client fe fileName out s = read_file text_client fe' fileName out s"
    and "read_file (splitter_client env) fe fileName out st = read_file (splitter_client env) fe' fileName out st"
    using cut whole n text_reader.read_file_prefix[OF desc wf out n, of fileName pad s pad']
      split_reader.read_file_prefix[OF desc wf out n, of env fileName pad st pad']
    by (simp_all add: recorded_def read_file_def)
qed

lemma text_main_recorded:
  assumes "recording fe desc ps pad" and "nul_free desc" and "\<forall>p \<in> set ps. wf_packet p" and "wf_out out"
  shows "text_main [prog, fileName] fe out =
     Inr (0, ascii ''-- Description --'' @ newline @ desc @ newline @ ascii ''-----------'' @ newline @
       concat (map (\<lambda>p. render_packet (wp_header p) (wp_cmdline p) (wp_exe p)
                          (map (wire_sample (h_pid (wp_header p))) (wp_samples p))) ps))"
proof -
  have d: "deliver text_on_packet = (\<lambda>p out. Inr (out @ render_packet (wp_header p) (wp_cmdline p) (wp_exe p)
                          (map (wire_sample (h_pid (wp_header p))) (wp_samples p))))"
    by (simp add: deliver_def text_on_packet_def fun_eq_iff)
  have "read_file_loop text_client fileName (desc @ 0 # concat (map wire_bytes ps) @ pad)
      (length desc + 1 + length (concat (map wire_bytes ps))) out [] =
      fault_bind (text_on_file fileName desc []) (fault_fold (deliver text_on_packet) ps)"
    by (rule text_reader.read_file_loop_packets[OF assms(2-4)])
  then show ?thesis
    using assms(1) unfolding d
    by (simp add: text_main_def read_file_def recording_def text_on_file_def fold_append_output)
qed

definition iterates :: "(splitter \<Rightarrow> u32 list) \<Rightarrow> bool" where
  "iterates order \<longleftrightarrow> (\<forall>st. visits_keys (order st) st)"

text \<open>The result of the splitter: everything closed, and one file for every process.\<close>

definition split_result :: "bytes \<Rightarrow> output_format \<Rightarrow> bytes \<Rightarrow> wire_packet list \<Rightarrow> splitter \<Rightarrow> bool" where
  "split_result dir fmt desc ps st \<longleftrightarrow>
     setup_txt st = Some desc \<and> (\<forall>f \<in> set (files st). \<not> f_open f) \<and>
     (\<forall>p \<in> set ps. \<exists>f \<in> set (files st). f_path f = data_path dir (h_pid (wp_header p)) \<and>
        holds fmt (f_content f) (samples_of (h_pid (wp_header p)) (delivered ps))) \<and>
     (\<forall>f \<in> set (files st). \<exists>pid. f_path f = data_path dir pid \<and>
        holds fmt (f_content f) (samples_of pid (delivered ps)))"

lemma splitter_main_recorded:
  assumes argv: "2 < length argv" "argv ! 2 = dir" "parse_format argv = Some fmt"
    and env: "split_env_ok env dir" and rec: "recording fe desc ps pad" and desc: "nul_free desc"
    and wf: "\<forall>p \<in> set ps. wf_packet p" and out: "wf_out out" and fits: "\<forall>p \<in> set ps. packet_fits env dir p"
    and order: "iterates order"
  shows "\<exists>idx st. splitter_main env fe order out argv = Inr (0, Some (idx, st)) \<and> split_result dir fmt desc ps st"
proof -
  obtain st where st:
    "read_file (splitter_client env) fe (argv ! 1) out (startIndex env (initial_splitter dir fmt)) = Inr (0, st)"
    "splitter_inv (delivered ps) st" "indexfd st = Some []" "setup_txt st = Some desc" "outputFormat st = fmt"
    "topDir st = dir" "\<forall>p \<in> set ps. pid_files st (h_pid (wp_header p)) \<noteq> None"
    using splitter_read_file[OF env rec desc wf out fits, of "argv ! 1" fmt] .
  let ?st = "st\<lparr>files := map (\<lambda>f. f\<lparr>f_open := False\<rparr>) (files st), pid_files := (\<lambda>_. None), indexfd := None\<rparr>"
  have "visits_keys (order st) st" using order by (simp add: iterates_def)
  from closeAll_ok[OF st(2) this st(3)] have
    "splitter_main env fe order out argv = Inr (0, Some ([] @ index_of st (order st), ?st))"
    using argv env st(1) by (simp add: splitter_main_def split_env_ok_def)
  moreover have "file_of st dir (h_pid (wp_header p)) (samples_of (h_pid (wp_header p)) (delivered ps))"
    if "p \<in> set ps" for p
    using splitter_inv_file_of(1)[OF st(2), of "h_pid (wp_header p)"] st(6,7) that by simp
  then have "\<forall>p \<in> set ps. \<exists>f \<in> set (files ?st). f_path f = data_path dir (h_pid (wp_header p)) \<and>
        holds fmt (f_content f) (samples_of (h_pid (wp_header p)) (delivered ps))"
    using st(5) by (fastforce simp: file_of_def)
  moreover have "\<forall>f \<in> set (files ?st). \<exists>pid. f_path f = data_path dir pid \<and>
        holds fmt (f_content f) (samples_of pid (delivered ps))"
    using splitter_inv_file_of(2)[OF st(2)] st(5,6) by fastforce
  ultimately show ?thesis
    using st(4) by (intro exI[of _ "[] @ index_of st (order st)"] exI[of _ ?st]) (simp add: split_result_def)
qed


section \<open>From the device to the files\<close>

text \<open>
  How many of \<open>n\<close> buffers are sent when \<open>k\<close> is the limit of \<open>-k\<close>: all, unless the bytes behind
  the description exceed it. Without a limit (\<open>k = 0\<close>) they are all sent.
\<close>

definition sends_first :: "nat \<Rightarrow> nat \<Rightarrow> nat \<Rightarrow> bytes \<Rightarrow> sender_state \<Rightarrow> bool" where
  "sends_first j n k desc st \<longleftrightarrow>
     0 < j \<and> j \<le> n \<and> (j < n \<longrightarrow> over_limit k (length (wire (net st)) - (length desc + 1)))"

lemma sends_first_all: "sends_first j n 0 desc st \<Longrightarrow> j = n"
  by (auto simp: sends_first_def over_limit_def)

lemma sender_main_batches:
  assumes "parse_args argv False 0 = Inr (dbg, k, host # port # extra)"
    and "connects (se_connect se host port)" and "attributes_exist (se_sysfs se)"
    and "device_ok se (map GotBuffer bs)" and "env_good (se_os se)"
  defines "bs' \<equiv> bs @ [last (se_stack se # bs)]"
  obtains st pss where "sender_main se argv = Inr (0, st)"
    "batches 1 (take (length pss) bs') (replicate (length pss) 0) pss"
    "wire (net st) = description (se_sysfs se) @ 0 # concat (map wire_bytes (concat pss))"
    "limited k 0 bs' pss" "sends_first (length pss) (length bs') k (description (se_sysfs se)) st"
proof -
  obtain st pss where st: "sender_main se argv = Inr (0, st)" "limited k 0 bs' pss"
    "batches 1 (take (length pss) bs') (replicate (length pss) 0) pss"
    "wire (net st) = description (se_sysfs se) @ 0 # concat (map wire_bytes (concat pss))"
    using sender_main_ok[OF assms(1-4)] assms(5) unfolding sent_buffers_all bs'_def by auto
  have "pss \<noteq> []" using st(2) by (auto simp: bs'_def)
  then have "sends_first (length pss) (length bs') k (description (se_sysfs se)) st"
    using limited_prefix[OF st(2)] st(4) by (simp add: sends_first_def sent_bytes_def)
  with st show ?thesis by (intro that)
qed

lemma batches_pid:
  assumes "batches n bs ms pss" and "s \<in> set (concat (map filled bs))"
  shows "\<exists>p \<in> set (concat pss). h_pid (wp_header p) = ucast (s_pid s)"
proof -
  obtain p where p: "p \<in> set (concat pss)" "s \<in> set (wp_samples p)"
    using assms(2) unfolding batches_samples[OF assms(1), symmetric] by auto
  moreover obtain b m k where "packet_of b m k p" using batches_packet[OF assms(1) p(1)] by blast
  ultimately show ?thesis by (intro bexI[of _ p]) (auto simp: packet_of_def)
qed

text \<open>What the splitter needs of the buffers: a core number it has room for, files it can open.\<close>

definition buffer_fits :: "sp_env \<Rightarrow> bytes \<Rightarrow> buffer \<Rightarrow> bool" where
  "buffer_fits env dir b \<longleftrightarrow>
     unat (ucast (b_core b) :: u8) < 16 \<and> (\<forall>s \<in> set (filled b). can_open env dir (ucast (s_pid s)))"

lemma batches_fit:
  assumes "batches n bs ms pss" and "\<forall>b \<in> set bs. buffer_fits env dir b" and p: "p \<in> set (concat pss)"
  shows "packet_fits env dir p"
proof -
  obtain b m k where b: "b \<in> set bs" "packet_of b m k p" using batches_packet[OF assms(1) p] by blast
  then have s: "hd (wp_samples p) \<in> set (wp_samples p)" by (simp add: packet_of_def)
  then have "hd (wp_samples p) \<in> set (concat (map wp_samples (concat pss)))" using p by auto
  then obtain b' where "b' \<in> set bs" "hd (wp_samples p) \<in> set (filled b')"
    unfolding batches_samples[OF assms(1)] by auto
  moreover have "h_pid (wp_header p) = ucast (s_pid (hd (wp_samples p)))" "h_core (wp_header p) = ucast (b_core b)"
    using b(2) s by (simp_all add: packet_of_def)
  ultimately show ?thesis using assms(2) b(1) by (auto simp: packet_fits_def buffer_fits_def)
qed

text \<open>
  The files of a run: all closed, for every process among the samples one that holds its samples
  in order, and no other.
\<close>

definition files_hold :: "bytes \<Rightarrow> output_format \<Rightarrow> bytes \<Rightarrow> sample list \<Rightarrow> splitter \<Rightarrow> bool" where
  "files_hold dir fmt desc ss st \<longleftrightarrow>
     setup_txt st = Some desc \<and> (\<forall>f \<in> set (files st). \<not> f_open f) \<and>
     (\<forall>s \<in> set ss. \<exists>f \<in> set (files st). f_path f = data_path dir (ucast (s_pid s)) \<and>
        holds fmt (f_content f) (of_pid (ucast (s_pid s)) ss)) \<and>
     (\<forall>f \<in> set (files st). \<exists>pid. f_path f = data_path dir pid \<and> holds fmt (f_content f) (of_pid pid ss))"

lemma split_result_files:
  assumes "batches n bs ms pss" and "split_result dir fmt desc (concat pss) st"
  shows "files_hold dir fmt desc (concat (map filled bs)) st"
proof -
  note r = assms(2)[unfolded split_result_def batches_delivered[OF assms(1)]]
  have "\<exists>f \<in> set (files st). f_path f = data_path dir (ucast (s_pid s)) \<and>
      holds fmt (f_content f) (of_pid (ucast (s_pid s)) (concat (map filled bs)))"
    if "s \<in> set (concat (map filled bs))" for s
    using batches_pid[OF assms(1) that] r by metis
  with r show ?thesis unfolding files_hold_def by blast
qed

lemma recorded_files:
  assumes b: "batches n bs ms pss" and desc: "nul_free desc"
    and argv: "2 < length argv" "argv ! 2 = dir" "parse_format argv = Some fmt"
    and env: "split_env_ok env dir" "iterates order" "wf_out out"
    and fits: "\<forall>b \<in> set bs. buffer_fits env dir b"
    and rec: "recorded (desc @ 0 # concat (map wire_bytes (concat pss))) pad fe"
  shows "\<exists>idx sp. splitter_main env fe order out argv = Inr (0, Some (idx, sp)) \<and>
     files_hold dir fmt desc (concat (map filled bs)) sp"
proof -
  have "\<forall>p \<in> set (concat pss). wf_packet p" "\<forall>p \<in> set (concat pss). packet_fits env dir p"
    using batches_wf[OF b] batches_fit[OF b fits] by blast+
  with splitter_main_recorded[OF argv env(1) rec[unfolded recorded_recording] desc _ env(3) _ env(2)]
  show ?thesis using split_result_files[OF b] by blast
qed

end
