(* ===== verification/Kernel_Blist.thy ===== *)
theory Kernel_Blist
  imports Sample_Buffer
begin

text \<open>
  The buffer lists of module/pmu_sync_sample_main.c: singly linked lists threaded through the
  buffers themselves, in a heap of buffers indexed by address. A freed buffer is absent from
  the heap. The spin lock makes an operation one step; it has no state of its own here.
\<close>

section \<open>The list operations\<close>

type_synonym heap = "addr \<Rightarrow> buffer option"

record blist =
  bl_head :: "addr option"
  bl_tail :: "addr option"

definition init_blist :: blist where
  "init_blist = \<lparr>bl_head = None, bl_tail = None\<rparr>"

definition set_next :: "addr \<Rightarrow> addr option \<Rightarrow> heap \<Rightarrow> fault + heap" where
  "set_next a n h =
     (case h a of None \<Rightarrow> Inl UseAfterFree | Some b \<Rightarrow> Inr (h(a \<mapsto> b\<lparr>b_nextBuffer := n\<rparr>)))"

text \<open>\<open>list\<close> and \<open>b\<close> are pointers; \<open>None\<close> is NULL, which both operations check for.\<close>

definition append_blist :: "blist option \<Rightarrow> addr option \<Rightarrow> heap \<Rightarrow> fault + (blist option \<times> heap)" where
  "append_blist list b h =
     (case b of None \<Rightarrow> Inr (list, h)
      | Some a \<Rightarrow>
          (case list of None \<Rightarrow> Inr (list, h)
           | Some l \<Rightarrow>
               fault_bind (set_next a None h) (\<lambda>h.
                 (case (bl_head l, bl_tail l) of
                    (Some _, Some t) \<Rightarrow>
                      fault_bind (set_next t (Some a) h) (\<lambda>h. Inr (Some (l\<lparr>bl_tail := Some a\<rparr>), h))
                  | _ \<Rightarrow> Inr (Some (l\<lparr>bl_head := Some a, bl_tail := Some a\<rparr>), h)))))"

definition pop_blist :: "blist option \<Rightarrow> heap \<Rightarrow> fault + (addr option \<times> blist option \<times> heap)" where
  "pop_blist list h =
     (case list of None \<Rightarrow> Inr (None, list, h)
      | Some l \<Rightarrow>
          (case bl_head l of None \<Rightarrow> Inr (None, list, h)
           | Some ret \<Rightarrow>
               (case h ret of None \<Rightarrow> Inl UseAfterFree
                | Some b \<Rightarrow>
                    let l = l\<lparr>bl_head := b_nextBuffer b\<rparr>;
                        l = (if bl_head l = None then l\<lparr>bl_tail := None\<rparr> else l)
                    in fault_bind (set_next ret None h) (\<lambda>h. Inr (Some ret, Some l, h)))))"

text \<open>The two operations on a list that is there.\<close>

definition enq :: "blist \<Rightarrow> addr \<Rightarrow> heap \<Rightarrow> fault + (blist \<times> heap)" where
  "enq l a h = fault_bind (append_blist (Some l) (Some a) h) (\<lambda>(l', h'). Inr (the l', h'))"

definition deq :: "blist \<Rightarrow> heap \<Rightarrow> fault + (addr option \<times> blist \<times> heap)" where
  "deq l h = fault_bind (pop_blist (Some l) h) (\<lambda>(r, l', h'). Inr (r, the l', h'))"

section \<open>The queue a list stands for\<close>

fun chain :: "heap \<Rightarrow> addr option \<Rightarrow> addr list \<Rightarrow> bool" where
  "chain h p [] \<longleftrightarrow> p = None"
| "chain h p (a # as) \<longleftrightarrow> p = Some a \<and> (\<exists>b. h a = Some b \<and> chain h (b_nextBuffer b) as)"

definition blist_rep :: "heap \<Rightarrow> blist \<Rightarrow> addr list \<Rightarrow> bool" where
  "blist_rep h l as \<longleftrightarrow>
     chain h (bl_head l) as \<and> distinct as \<and> bl_tail l = (if as = [] then None else Some (last as))"

text \<open>What a buffer holds, apart from its link.\<close>

definition payload :: "heap \<Rightarrow> addr \<Rightarrow> buffer option" where
  "payload h a = map_option (\<lambda>b. b\<lparr>b_nextBuffer := None\<rparr>) (h a)"

lemma payload_None [simp]: "payload h a = None \<longleftrightarrow> h a = None"
  by (simp add: payload_def)

lemma payload_set_next: "set_next a n h = Inr h' \<Longrightarrow> payload h' = payload h"
  by (rule ext) (auto simp: set_next_def payload_def split: option.splits)

lemma set_next_live: "h a \<noteq> None \<Longrightarrow> \<exists>h'. set_next a n h = Inr h' \<and> payload h' = payload h \<and>
   (\<forall>x. x \<noteq> a \<longrightarrow> h' x = h x) \<and> (\<exists>b. h' a = Some b \<and> b_nextBuffer b = n)"
proof -
  assume "h a \<noteq> None"
  then obtain b where "h a = Some b" by blast
  moreover from this have "set_next a n h = Inr (h(a \<mapsto> b\<lparr>b_nextBuffer := n\<rparr>))" by (simp add: set_next_def)
  ultimately show ?thesis using payload_set_next by (intro exI[of _ "h(a \<mapsto> b\<lparr>b_nextBuffer := n\<rparr>)"]) auto
qed

lemma chain_frame: "chain h p as \<Longrightarrow> \<forall>a \<in> set as. h' a = h a \<Longrightarrow> chain h' p as"
  by (induction as arbitrary: p) auto

lemma chain_live: "chain h p as \<Longrightarrow> a \<in> set as \<Longrightarrow> h a \<noteq> None"
  by (induction as arbitrary: p) auto

lemma chain_snoc:
  assumes "chain h p (as @ [t])" and "t \<notin> set as" and "\<forall>a \<in> set as. h' a = h a"
    and "h' t = Some b" "b_nextBuffer b = Some n" and "h' n = Some c" "b_nextBuffer c = None"
  shows "chain h' p (as @ [t, n])"
  using assms by (induction as arbitrary: p) auto

lemma blist_rep_init [simp]: "blist_rep h init_blist []"
  by (simp add: blist_rep_def init_blist_def)

lemma blist_rep_frame: "blist_rep h l as \<Longrightarrow> \<forall>a \<in> set as. h' a = h a \<Longrightarrow> blist_rep h' l as"
  unfolding blist_rep_def by (auto intro: chain_frame)

lemma blist_rep_live: "blist_rep h l as \<Longrightarrow> a \<in> set as \<Longrightarrow> h a \<noteq> None"
  unfolding blist_rep_def by (auto dest: chain_live)

definition only_links :: "heap \<Rightarrow> heap \<Rightarrow> addr set \<Rightarrow> bool" where
  "only_links h h' A \<longleftrightarrow> payload h' = payload h \<and> (\<forall>x. x \<notin> A \<longrightarrow> h' x = h x)"

lemma append_blist_ok:
  assumes "blist_rep h l as" and "h a \<noteq> None" and "a \<notin> set as"
  shows "\<exists>l' h'. append_blist (Some l) (Some a) h = Inr (Some l', h') \<and> blist_rep h' l' (as @ [a]) \<and>
           only_links h h' (insert a (set as))"
proof (cases as rule: rev_cases)
  case Nil
  obtain h1 where "set_next a None h = Inr h1" "payload h1 = payload h" "\<forall>x. x \<noteq> a \<longrightarrow> h1 x = h x"
    "\<exists>b. h1 a = Some b \<and> b_nextBuffer b = None"
    using set_next_live[of h a None] assms(2) by metis
  with assms(1) Nil show ?thesis by (auto simp: append_blist_def blist_rep_def only_links_def)
next
  case (snoc ts t)
  obtain h1 where h1: "set_next a None h = Inr h1" "payload h1 = payload h" "\<forall>x. x \<noteq> a \<longrightarrow> h1 x = h x"
    "\<exists>b. h1 a = Some b \<and> b_nextBuffer b = None"
    using set_next_live[of h a None] assms(2) by metis
  have ne: "t \<noteq> a" "t \<notin> set ts" and tl: "h t \<noteq> None"
    using assms snoc blist_rep_live[OF assms(1), of t] by (auto simp: blist_rep_def)
  then have "h1 t \<noteq> None" using h1(3) by simp
  then obtain h2 where h2: "set_next t (Some a) h1 = Inr h2" "payload h2 = payload h1" "\<forall>x. x \<noteq> t \<longrightarrow> h2 x = h1 x"
    "\<exists>b. h2 t = Some b \<and> b_nextBuffer b = Some a"
    using set_next_live[of h1 t "Some a"] by metis
  have ch: "chain h (bl_head l) (ts @ [t])" and tail: "bl_tail l = Some t" and d: "distinct (ts @ [t])"
    using assms(1) snoc by (auto simp: blist_rep_def)
  have "bl_head l \<noteq> None" using ch by (cases ts) auto
  then obtain hd where hd: "bl_head l = Some hd" by auto
  have same: "\<forall>x \<in> set ts. h2 x = h x" using h1(3) h2(3) assms(3) ne(2) snoc by (auto; metis)
  obtain b where bt: "h2 t = Some b" "b_nextBuffer b = Some a" using h2(4) by blast
  obtain c where ca: "h2 a = Some c" "b_nextBuffer c = None" using h1(4) h2(3) ne(1) by auto
  have "chain h2 (bl_head l) (ts @ [t, a])" by (rule chain_snoc[OF ch ne(2) same bt ca])
  moreover have "append_blist (Some l) (Some a) h = Inr (Some (l\<lparr>bl_tail := Some a\<rparr>), h2)"
    using h1(1) h2(1) hd tail by (simp add: append_blist_def)
  moreover have "only_links h h2 (insert a (set as))"
    using h1 h2 snoc by (auto simp: only_links_def)
  ultimately show ?thesis using d assms(3) snoc by (simp add: blist_rep_def)
qed

lemma pop_blist_empty: "blist_rep h l [] \<Longrightarrow> pop_blist (Some l) h = Inr (None, Some l, h)"
  by (simp add: pop_blist_def blist_rep_def)

lemma pop_blist_ok:
  assumes "blist_rep h l (a # as)"
  shows "\<exists>l' h'. pop_blist (Some l) h = Inr (Some a, Some l', h') \<and> blist_rep h' l' as \<and> only_links h h' {a}"
proof -
  obtain b where b: "bl_head l = Some a" "h a = Some b" "chain h (b_nextBuffer b) as" "a \<notin> set as" "distinct as"
    "bl_tail l = Some (last (a # as))"
    using assms by (auto simp: blist_rep_def)
  let ?h = "h(a \<mapsto> b\<lparr>b_nextBuffer := None\<rparr>)"
  let ?l = "l\<lparr>bl_head := b_nextBuffer b, bl_tail := (if as = [] then None else Some (last as))\<rparr>"
  have c: "chain ?h (b_nextBuffer b) as" using b(3,4) by (auto intro: chain_frame)
  have n: "b_nextBuffer b = None \<longleftrightarrow> as = []" using b(3) by (cases as) auto
  have "pop_blist (Some l) h = Inr (Some a, Some ?l, ?h)"
    using b n by (cases l) (auto simp: pop_blist_def set_next_def)
  moreover have "blist_rep ?h ?l as" using c b(5) by (simp add: blist_rep_def)
  moreover have "only_links h ?h {a}" using b(2) by (auto simp: only_links_def payload_def fun_eq_iff)
  ultimately show ?thesis by blast
qed

section \<open>The contract of a queue\<close>

text \<open>
  What the module relies on: taking from the front, adding at the back, no other queue and no
  contents touched. \<open>val\<close> reads the contents at an address, \<open>frame h h' A\<close> says that \<open>h'\<close>
  differs from \<open>h\<close> in the links of \<open>A\<close> only.
\<close>

definition enq_all :: "('l \<Rightarrow> 'a \<Rightarrow> 'h \<Rightarrow> fault + ('l \<times> 'h)) \<Rightarrow> 'a list \<Rightarrow> 'l \<Rightarrow> 'h \<Rightarrow> fault + ('l \<times> 'h)" where
  "enq_all put xs l h = fault_fold (\<lambda>a (l, h). put l a h) xs (l, h)"

fun deq_n :: "('l \<Rightarrow> 'h \<Rightarrow> fault + ('a option \<times> 'l \<times> 'h)) \<Rightarrow> nat \<Rightarrow> 'l \<Rightarrow> 'h \<Rightarrow> fault + ('a list \<times> 'l \<times> 'h)" where
  "deq_n get 0 l h = Inr ([], l, h)"
| "deq_n get (Suc n) l h =
     fault_bind (get l h) (\<lambda>(r, l, h).
       case r of None \<Rightarrow> Inr ([], l, h)
       | Some a \<Rightarrow> fault_bind (deq_n get n l h) (\<lambda>(as, l, h). Inr (a # as, l, h)))"

locale buffer_queue =
  fixes rep :: "'h \<Rightarrow> 'l \<Rightarrow> 'a list \<Rightarrow> bool"
    and put :: "'l \<Rightarrow> 'a \<Rightarrow> 'h \<Rightarrow> fault + ('l \<times> 'h)"
    and get :: "'l \<Rightarrow> 'h \<Rightarrow> fault + ('a option \<times> 'l \<times> 'h)"
    and val :: "'h \<Rightarrow> 'a \<Rightarrow> 'v option"
    and frame :: "'h \<Rightarrow> 'h \<Rightarrow> 'a set \<Rightarrow> bool"
  assumes rep_distinct: "rep h l as \<Longrightarrow> distinct as"
    and rep_live: "rep h l as \<Longrightarrow> a \<in> set as \<Longrightarrow> val h a \<noteq> None"
    and rep_frame: "rep h l as \<Longrightarrow> frame h h' A \<Longrightarrow> A \<inter> set as = {} \<Longrightarrow> rep h' l as"
    and val_frame: "frame h h' A \<Longrightarrow> val h' = val h"
    and put_ok: "rep h l as \<Longrightarrow> val h a \<noteq> None \<Longrightarrow> a \<notin> set as \<Longrightarrow>
      \<exists>l' h'. put l a h = Inr (l', h') \<and> rep h' l' (as @ [a]) \<and> frame h h' (insert a (set as))"
    and get_empty: "rep h l [] \<Longrightarrow> get l h = Inr (None, l, h)"
    and get_ok: "rep h l (a # as) \<Longrightarrow>
      \<exists>l' h'. get l h = Inr (Some a, l', h') \<and> rep h' l' as \<and> frame h h' {a}"
begin

text \<open>Adding to one queue leaves a disjoint one alone.\<close>

lemma put_other:
  assumes "rep h l as" "val h a \<noteq> None" "a \<notin> set as" and "rep h m bs" "set bs \<inter> insert a (set as) = {}"
  obtains l' h' where "put l a h = Inr (l', h')" "rep h' l' (as @ [a])" "rep h' m bs" "val h' = val h"
proof -
  obtain l' h' where p: "put l a h = Inr (l', h')" "rep h' l' (as @ [a])" "frame h h' (insert a (set as))"
    using put_ok[OF assms(1-3)] by blast
  then show ?thesis using that rep_frame[OF assms(4) p(3)] val_frame[OF p(3)] assms(5) by blast
qed

lemma get_other:
  assumes "rep h l (a # as)" and "rep h m bs" "a \<notin> set bs"
  obtains l' h' where "get l h = Inr (Some a, l', h')" "rep h' l' as" "rep h' m bs" "val h' = val h"
proof -
  obtain l' h' where g: "get l h = Inr (Some a, l', h')" "rep h' l' as" "frame h h' {a}"
    using get_ok[OF assms(1)] by blast
  then show ?thesis using that rep_frame[OF assms(2) g(3)] val_frame[OF g(3)] assms(3) by blast
qed

lemma put_all:
  assumes "rep h l as" and "\<forall>a \<in> set xs. val h a \<noteq> None" and "distinct (as @ xs)"
  shows "\<exists>l' h'. enq_all put xs l h = Inr (l', h') \<and> rep h' l' (as @ xs) \<and> val h' = val h"
  using assms
proof (induction xs arbitrary: l h as)
  case Nil
  then show ?case by (simp add: enq_all_def)
next
  case (Cons a xs)
  obtain l1 h1 where 1: "put l a h = Inr (l1, h1)" "rep h1 l1 (as @ [a])" "frame h h1 (insert a (set as))"
    using put_ok[OF Cons.prems(1), of a] Cons.prems(2,3) by auto
  have "\<forall>x \<in> set xs. val h1 x \<noteq> None" using Cons.prems(2) val_frame[OF 1(3)] by simp
  then obtain l2 h2 where "enq_all put xs l1 h1 = Inr (l2, h2)" "rep h2 l2 ((as @ [a]) @ xs)" "val h2 = val h1"
    using Cons.IH[OF 1(2)] Cons.prems(3) by auto
  with 1(1) val_frame[OF 1(3)] show ?case by (simp add: enq_all_def)
qed

lemma get_all:
  assumes "rep h l as"
  shows "\<exists>l' h'. deq_n get (length as) l h = Inr (as, l', h') \<and> rep h' l' [] \<and> val h' = val h"
  using assms
proof (induction as arbitrary: l h)
  case Nil
  then show ?case by simp
next
  case (Cons a as)
  obtain l1 h1 where 1: "get l h = Inr (Some a, l1, h1)" "rep h1 l1 as" "frame h h1 {a}"
    using get_ok[OF Cons.prems] by blast
  obtain l2 h2 where "deq_n get (length as) l1 h1 = Inr (as, l2, h2)" "rep h2 l2 []" "val h2 = val h1"
    using Cons.IH[OF 1(2)] by blast
  with 1(1) val_frame[OF 1(3)] show ?case by simp
qed

text \<open>First in, first out.\<close>

lemma fifo:
  assumes "rep h l []" and "\<forall>a \<in> set xs. val h a \<noteq> None" and "distinct xs"
  shows "\<exists>l1 h1 l2 h2. enq_all put xs l h = Inr (l1, h1) \<and> deq_n get (length xs) l1 h1 = Inr (xs, l2, h2) \<and>
     rep h2 l2 [] \<and> val h2 = val h"
proof -
  obtain l1 h1 where 1: "enq_all put xs l h = Inr (l1, h1)" "rep h1 l1 xs" "val h1 = val h"
    using put_all[OF assms(1,2)] assms(3) by auto
  obtain l2 h2 where "deq_n get (length xs) l1 h1 = Inr (xs, l2, h2)" "rep h2 l2 []" "val h2 = val h1"
    using get_all[OF 1(2)] by blast
  with 1 show ?thesis by simp
qed

end

interpretation bq: buffer_queue blist_rep enq deq payload only_links
proof unfold_locales
  fix h l as a
  assume "blist_rep h l as" "payload h a \<noteq> None" "a \<notin> set as"
  then show "\<exists>l' h'. enq l a h = Inr (l', h') \<and> blist_rep h' l' (as @ [a]) \<and> only_links h h' (insert a (set as))"
    using append_blist_ok[of h l as a] by (auto simp: enq_def)
next
  fix h l a as
  assume "blist_rep h l (a # as)"
  then show "\<exists>l' h'. deq l h = Inr (Some a, l', h') \<and> blist_rep h' l' as \<and> only_links h h' {a}"
    using pop_blist_ok[of h l a as] by (auto simp: deq_def)
next
  fix h l as a
  assume "blist_rep h l as" "a \<in> set as"
  then show "payload h a \<noteq> None" using blist_rep_live by simp
next
  fix h l as h' A
  assume "blist_rep h l as" "only_links h h' A" "A \<inter> set as = {}"
  then have "\<forall>a \<in> set as. h' a = h a" unfolding only_links_def by blast
  with \<open>blist_rep h l as\<close> show "blist_rep h' l as" by (rule blist_rep_frame)
qed (auto simp: blist_rep_def only_links_def deq_def pop_blist_def)

end
