(* ===== verification/Kernel_Module.thy ===== *)
theory Kernel_Module
  imports Kernel_Blist Printf
begin

text \<open>
  module/pmu_sync_sample_main.c: the kernel module between the interrupt handler of an
  architecture and \<open>/dev/pmu_samples\<close>. The functions of module/pmu_api.h that an
  architecture provides are the fields of \<open>pmu_api\<close>, over the state \<open>'a\<close> of its hardware; the
  first number argument is the processor they run on. \<open>printk\<close> and the character
  device's registration have no state here.
\<close>

section \<open>The interface of an architecture\<close>

record 'a pmu_api =
  num_ctrs :: "'a \<Rightarrow> nat"
  read_ccnt :: "nat \<Rightarrow> 'a \<Rightarrow> u64"
  read_pmn :: "nat \<Rightarrow> nat \<Rightarrow> 'a \<Rightarrow> u64 \<times> 'a"
  initialize_arch :: "'a \<Rightarrow> (int \<times> 'a) option"
  cleanup_arch :: "'a \<Rightarrow> 'a"
  startCtrsLocal :: "nat \<Rightarrow> u64 list \<Rightarrow> u64 \<Rightarrow> 'a \<Rightarrow> fault + 'a"
  stopCtrsLocal :: "nat \<Rightarrow> 'a \<Rightarrow> 'a"
  dump_regs :: "nat \<Rightarrow> 'a \<Rightarrow> 'a"
  register_interrupt :: "'a \<Rightarrow> 'a"
  deregister_interrupt :: "'a \<Rightarrow> 'a"

section \<open>State\<close>

definition MIN_PERIOD :: u32 where
  "MIN_PERIOD = 10000"

record 'a kmod =
  k_heap :: heap
  lbuffer :: "nat \<Rightarrow> addr option"
  empty_buffers :: blist
  full_buffers :: blist
  period :: u64
  shutdown :: u8
  total_interrupts :: u64
  period_attr :: u32
  status_attr :: u32
  missed_attr :: u32
  ctr0_attr :: u32
  ctr1_attr :: u32
  ctr2_attr :: u32
  ctr3_attr :: u32
  mykobj :: bool
  wakes :: nat
  arch :: 'a

text \<open>
  \<open>wake_up_all(&read_queue)\<close>: every reader asleep at this time goes on. \<open>wakes\<close> counts the calls.
\<close>

definition wake_up_all :: "'a kmod \<Rightarrow> 'a kmod" where
  "wake_up_all m = m\<lparr>wakes := wakes m + 1\<rparr>"

lemma wake_up_all_simps [simp]:
  "k_heap (wake_up_all m) = k_heap m" "lbuffer (wake_up_all m) = lbuffer m" "empty_buffers (wake_up_all m) = empty_buffers m"
  "full_buffers (wake_up_all m) = full_buffers m" "period (wake_up_all m) = period m" "shutdown (wake_up_all m) = shutdown m"
  "total_interrupts (wake_up_all m) = total_interrupts m" "period_attr (wake_up_all m) = period_attr m"
  "status_attr (wake_up_all m) = status_attr m" "missed_attr (wake_up_all m) = missed_attr m" "mykobj (wake_up_all m) = mykobj m"
  "ctr0_attr (wake_up_all m) = ctr0_attr m" "ctr1_attr (wake_up_all m) = ctr1_attr m" "ctr2_attr (wake_up_all m) = ctr2_attr m"
  "ctr3_attr (wake_up_all m) = ctr3_attr m" "wakes (wake_up_all m) = Suc (wakes m)" "arch (wake_up_all m) = arch m"
  by (simp_all add: wake_up_all_def)

text \<open>The static initialisers; \<open>hw\<close> is the hardware the module finds.\<close>

definition kmod0 :: "'a \<Rightarrow> 'a kmod" where
  "kmod0 hw = \<lparr>k_heap = (\<lambda>_. None), lbuffer = (\<lambda>_. None), empty_buffers = init_blist,
     full_buffers = init_blist, period = 100000, shutdown = 0, total_interrupts = 0,
     period_attr = 1000000, status_attr = 0, missed_attr = 0,
     ctr0_attr = 8, ctr1_attr = 0, ctr2_attr = 0, ctr3_attr = 0, mykobj = False, wakes = 0, arch = hw\<rparr>"

section \<open>The two lists\<close>

definition append_empty :: "addr option \<Rightarrow> 'a kmod \<Rightarrow> fault + 'a kmod" where
  "append_empty b m =
     fault_bind (append_blist (Some (empty_buffers m)) b (k_heap m)) (\<lambda>(l, h).
       Inr (m\<lparr>k_heap := h, empty_buffers := the l\<rparr>))"

definition append_full :: "addr option \<Rightarrow> 'a kmod \<Rightarrow> fault + 'a kmod" where
  "append_full b m =
     fault_bind (append_blist (Some (full_buffers m)) b (k_heap m)) (\<lambda>(l, h).
       Inr (m\<lparr>k_heap := h, full_buffers := the l\<rparr>))"

definition pop_empty :: "'a kmod \<Rightarrow> fault + (addr option \<times> 'a kmod)" where
  "pop_empty m =
     fault_bind (pop_blist (Some (empty_buffers m)) (k_heap m)) (\<lambda>(r, l, h).
       Inr (r, m\<lparr>k_heap := h, empty_buffers := the l\<rparr>))"

definition pop_full :: "'a kmod \<Rightarrow> fault + (addr option \<times> 'a kmod)" where
  "pop_full m =
     fault_bind (pop_blist (Some (full_buffers m)) (k_heap m)) (\<lambda>(r, l, h).
       Inr (r, m\<lparr>k_heap := h, full_buffers := the l\<rparr>))"

section \<open>The file operations\<close>

definition EINVAL :: int where "EINVAL = 22"

definition EPERM :: int where "EPERM = 1"

definition my_open :: "'a kmod \<Rightarrow> int \<times> 'a kmod" where
  "my_open m = (0, m)"

definition my_release :: "'a kmod \<Rightarrow> int \<times> 'a kmod" where
  "my_release m = (0, m)"

text \<open>
  A read returns a code and the structure copied to user space, or it sleeps. A sleeping
  reader goes on with \<open>my_read_wait\<close> when it is woken; \<open>sig\<close> says that a signal is pending,
  \<open>copy_ok\<close> that the user's memory can be written.
\<close>

datatype read_outcome = Blocks | Returned int "buffer option"

definition my_read_wait :: "bool \<Rightarrow> bool \<Rightarrow> 'a kmod \<Rightarrow> fault + (read_outcome \<times> 'a kmod)" where
  "my_read_wait sig copy_ok m =
     fault_bind (pop_full m) (\<lambda>(b, m).
       case b of
         None \<Rightarrow> Inr (if shutdown m = 2 then Returned 0 None
                      else if sig then Returned 0 None else Blocks, m)
       | Some a \<Rightarrow>
           (case k_heap m a of
              None \<Rightarrow> Inl UseAfterFree
            | Some buf \<Rightarrow>
                fault_bind (append_empty (Some a) m) (\<lambda>m.
                  Inr (if copy_ok then Returned (int sizeof_buffer) (Some buf)
                       else Returned (- EINVAL) None, m))))"

definition my_read :: "nat \<Rightarrow> bool \<Rightarrow> bool \<Rightarrow> 'a kmod \<Rightarrow> fault + (read_outcome \<times> 'a kmod)" where
  "my_read count sig copy_ok m =
     (if count < BUFFER_SIZE then Inr (Returned (- EINVAL) None, m)
      else if shutdown m \<noteq> 0 then Inr (Returned 0 None, m)
      else my_read_wait sig copy_ok m)"

definition my_write :: "'a kmod \<Rightarrow> int \<times> 'a kmod" where
  "my_write m = (- EPERM, m)"

section \<open>Taking a sample\<close>

definition initialize_buffer :: "nat \<Rightarrow> addr \<Rightarrow> 'a kmod \<Rightarrow> fault + 'a kmod" where
  "initialize_buffer proc a m =
     (case k_heap m a of
        None \<Rightarrow> Inl UseAfterFree
      | Some b \<Rightarrow> Inr (m\<lparr>k_heap := (k_heap m)(a \<mapsto> b\<lparr>b_core := of_nat proc, b_num_samples := 0\<rparr>)\<rparr>))"

text \<open>The processor's current buffer; without one and without an empty one the sample is missed.\<close>

definition current_buffer :: "nat \<Rightarrow> 'a kmod \<Rightarrow> fault + (addr option \<times> 'a kmod)" where
  "current_buffer proc m =
     (case lbuffer m proc of
        Some a \<Rightarrow> Inr (Some a, m)
      | None \<Rightarrow>
          fault_bind (pop_empty m) (\<lambda>(b, m).
            case b of
              None \<Rightarrow> Inr (None, m\<lparr>missed_attr := missed_attr m + 1\<rparr>)
            | Some a \<Rightarrow>
                fault_bind (initialize_buffer proc a m) (\<lambda>m.
                  Inr (Some a, m\<lparr>lbuffer := (lbuffer m)(proc := Some a)\<rparr>))))"

definition read_counter :: "'a pmu_api \<Rightarrow> nat \<Rightarrow> nat \<Rightarrow> sample \<times> 'a \<Rightarrow> fault + (sample \<times> 'a)" where
  "read_counter api proc i sa =
     (let (s, hw) = sa; (v, hw) = read_pmn api proc i hw
      in if i < length (s_counters s) then Inr (s\<lparr>s_counters := (s_counters s)[i := ucast v]\<rparr>, hw)
         else Inl OutOfBounds)"

definition gatherSample :: "'a pmu_api \<Rightarrow> nat \<Rightarrow> u64 \<Rightarrow> 'a kmod \<Rightarrow> fault + 'a kmod" where
  "gatherSample api proc pid m =
     fault_bind (current_buffer proc m) (\<lambda>(r, m).
       case r of
         None \<Rightarrow> Inr m
       | Some a \<Rightarrow>
           (case k_heap m a of
              None \<Rightarrow> Inl UseAfterFree
            | Some b \<Rightarrow>
                let n = unat (b_num_samples b);
                    b = b\<lparr>b_num_samples := b_num_samples b + 1\<rparr>
                in if \<not> n < length (b_samples b) then Inl OutOfBounds
                   else
                     let s = (b_samples b ! n)\<lparr>s_cycles := read_ccnt api proc (arch m) + period m, s_pid := pid\<rparr>
                     in fault_bind (fault_fold (read_counter api proc) [0..<num_ctrs api (arch m)] (s, arch m)) (\<lambda>(s, hw).
                          let b = b\<lparr>b_samples := (b_samples b)[n := s]\<rparr>;
                              m = m\<lparr>k_heap := (k_heap m)(a \<mapsto> b), arch := hw\<rparr>
                          in if unat (b_num_samples b) \<ge> BUFFER_ENTRIES then
                               fault_bind (append_full (Some a) m) (\<lambda>m.
                                 Inr (wake_up_all (m\<lparr>lbuffer := (lbuffer m)(proc := None)\<rparr>)))
                             else Inr m)))"

section \<open>Starting and stopping\<close>

text \<open>\<open>on_each_cpu(f, NULL, 1)\<close> on \<open>ncpus\<close> processors.\<close>

definition on_each_cpu :: "nat \<Rightarrow> (nat \<Rightarrow> 'a kmod \<Rightarrow> fault + 'a kmod) \<Rightarrow> 'a kmod \<Rightarrow> fault + 'a kmod" where
  "on_each_cpu ncpus f = fault_fold f [0..<ncpus]"

definition cfgs :: "'a kmod \<Rightarrow> u64 list" where
  "cfgs m = [ucast (ctr0_attr m), ucast (ctr1_attr m), ucast (ctr2_attr m), ucast (ctr3_attr m), 0, 0]"

definition startCtrs :: "'a pmu_api \<Rightarrow> nat \<Rightarrow> 'a kmod \<Rightarrow> fault + 'a kmod" where
  "startCtrs api proc m =
     fault_bind (if lbuffer m proc \<noteq> None then append_empty (lbuffer m proc) m else Inr m) (\<lambda>m.
       let m = m\<lparr>lbuffer := (lbuffer m)(proc := None)\<rparr>
       in fault_bind (startCtrsLocal api proc (cfgs m) (period m) (arch m)) (\<lambda>hw.
            Inr (m\<lparr>arch := hw\<rparr>)))"

definition dumpCtrs :: "'a pmu_api \<Rightarrow> nat \<Rightarrow> 'a kmod \<Rightarrow> fault + 'a kmod" where
  "dumpCtrs api proc m = Inr (m\<lparr>arch := dump_regs api proc (arch m)\<rparr>)"

definition stopCtrs :: "'a pmu_api \<Rightarrow> nat \<Rightarrow> 'a kmod \<Rightarrow> fault + 'a kmod" where
  "stopCtrs api proc m = Inr (m\<lparr>arch := stopCtrsLocal api proc (arch m)\<rparr>)"

definition stopAll :: "'a pmu_api \<Rightarrow> nat \<Rightarrow> 'a kmod \<Rightarrow> fault + 'a kmod" where
  "stopAll api ncpus m =
     fault_bind (on_each_cpu ncpus (stopCtrs api) (m\<lparr>shutdown := 1\<rparr>)) (\<lambda>m.
       Inr (wake_up_all (m\<lparr>shutdown := 2, arch := deregister_interrupt api (arch m)\<rparr>)))"

definition process_status_update :: "'a pmu_api \<Rightarrow> nat \<Rightarrow> 'a kmod \<Rightarrow> fault + 'a kmod" where
  "process_status_update api ncpus m =
     (if status_attr m = 0 then stopAll api ncpus m
      else if status_attr m = 1 then
        let m = (if period_attr m < MIN_PERIOD then m\<lparr>period_attr := MIN_PERIOD\<rparr> else m);
            m = m\<lparr>period := ucast (period_attr m), shutdown := 0, arch := register_interrupt api (arch m)\<rparr>
        in on_each_cpu ncpus (startCtrs api) m
      else if status_attr m = 2 then on_each_cpu ncpus (dumpCtrs api) m
      else Inr (m\<lparr>status_attr := (if shutdown m = 0 then 1 else 0)\<rparr>))"

section \<open>The attributes\<close>

datatype attr = Period_attr | Status_attr | Missed_attr | Ctr0_attr | Ctr1_attr | Ctr2_attr | Ctr3_attr

fun attr_value :: "attr \<Rightarrow> 'a kmod \<Rightarrow> u32" where
  "attr_value Period_attr m = period_attr m"
| "attr_value Status_attr m = status_attr m"
| "attr_value Missed_attr m = missed_attr m"
| "attr_value Ctr0_attr m = ctr0_attr m"
| "attr_value Ctr1_attr m = ctr1_attr m"
| "attr_value Ctr2_attr m = ctr2_attr m"
| "attr_value Ctr3_attr m = ctr3_attr m"

fun set_attr_value :: "attr \<Rightarrow> u32 \<Rightarrow> 'a kmod \<Rightarrow> 'a kmod" where
  "set_attr_value Period_attr v m = m\<lparr>period_attr := v\<rparr>"
| "set_attr_value Status_attr v m = m\<lparr>status_attr := v\<rparr>"
| "set_attr_value Missed_attr v m = m\<lparr>missed_attr := v\<rparr>"
| "set_attr_value Ctr0_attr v m = m\<lparr>ctr0_attr := v\<rparr>"
| "set_attr_value Ctr1_attr v m = m\<lparr>ctr1_attr := v\<rparr>"
| "set_attr_value Ctr2_attr v m = m\<lparr>ctr2_attr := v\<rparr>"
| "set_attr_value Ctr3_attr v m = m\<lparr>ctr3_attr := v\<rparr>"

definition default_show :: "attr \<Rightarrow> 'a kmod \<Rightarrow> bytes" where
  "default_show a m = dec_int (sint (attr_value a m)) @ newline"

text \<open>\<open>sscanf\<close> of the kernel with the formats \<open>"0x%x"\<close> and \<open>"%u"\<close>: the value, if it matches.\<close>

record scanner =
  scan_hex :: "bytes \<Rightarrow> u32 option"
  scan_dec :: "bytes \<Rightarrow> u32 option"

definition store_value :: "'a pmu_api \<Rightarrow> nat \<Rightarrow> attr \<Rightarrow> u32 \<Rightarrow> 'a kmod \<Rightarrow> fault + 'a kmod" where
  "store_value api ncpus a v m =
     (let m = set_attr_value a v m
      in if a = Status_attr then process_status_update api ncpus m else Inr m)"

text \<open>The result is what the call returns: the length it was given.\<close>

definition default_store ::
  "'a pmu_api \<Rightarrow> nat \<Rightarrow> scanner \<Rightarrow> attr \<Rightarrow> bytes \<Rightarrow> nat \<Rightarrow> 'a kmod \<Rightarrow> fault + (nat \<times> 'a kmod)" where
  "default_store api ncpus sc a buf len m =
     fault_bind
       (if length buf > 2 \<and> take 2 buf = ascii ''0x'' \<and> scan_hex sc buf \<noteq> None
        then store_value api ncpus a (the (scan_hex sc buf)) m
        else case scan_dec sc buf of
               Some v \<Rightarrow> store_value api ncpus a v m
             | None \<Rightarrow> Inr m) (\<lambda>m. Inr (len, m))"

text \<open>\<open>alloc\<close> and \<open>add\<close>: whether \<open>kzalloc\<close> and \<open>kobject_add\<close> succeed.\<close>

definition init_sysfs_entries :: "bool \<Rightarrow> bool \<Rightarrow> 'a kmod \<Rightarrow> int \<times> 'a kmod" where
  "init_sysfs_entries alloc add m =
     (let err = -1; m = m\<lparr>mykobj := alloc\<rparr>
      in if mykobj m then
           let (err, m) = (if \<not> add then (-1, m\<lparr>mykobj := False\<rparr>) else (err, m));
               err = 0
           in (err, m)
         else (err, m))"

section \<open>Loading and unloading\<close>

text \<open>
  \<open>initialize_arch\<close> may wait for the hardware without end; then loading does not return,
  \<open>None\<close>.
\<close>

definition zero_buffer :: buffer where
  "zero_buffer = \<lparr>b_core = 0, b_num_samples = 0, b_nextBuffer = None,
     b_samples = replicate BUFFER_ENTRIES zero_sample\<rparr>"

text \<open>What allocating memory gives at loading: the object of the attributes and the 8 buffers.\<close>

record init_env =
  ie_kobj_alloc :: bool
  ie_kobj_add :: bool
  ie_kzalloc :: "nat \<Rightarrow> addr option"

definition alloc_buffer :: "init_env \<Rightarrow> nat \<Rightarrow> 'a kmod \<Rightarrow> fault + 'a kmod" where
  "alloc_buffer ie i m =
     append_empty (ie_kzalloc ie i)
       (case ie_kzalloc ie i of None \<Rightarrow> m | Some a \<Rightarrow> m\<lparr>k_heap := (k_heap m)(a \<mapsto> zero_buffer)\<rparr>)"

definition init_module :: "'a pmu_api \<Rightarrow> init_env \<Rightarrow> 'a kmod \<Rightarrow> (fault + (int \<times> 'a kmod)) option" where
  "init_module api ie m =
     (case initialize_arch api (arch m) of
        None \<Rightarrow> None
      | Some (rc, hw) \<Rightarrow>
          let m = m\<lparr>arch := hw\<rparr>
          in if rc \<noteq> 0 then Some (Inr (rc, m))
             else
               let m = m\<lparr>empty_buffers := init_blist, full_buffers := init_blist\<rparr>;
                   (err, m) = init_sysfs_entries (ie_kobj_alloc ie) (ie_kobj_add ie) m
               in Some (fault_bind (fault_fold (alloc_buffer ie) [0..<8] m) (\<lambda>m. Inr (0, m))))"

text \<open>\<open>kfree\<close>: the address leaves the heap; freeing it again is a fault.\<close>

definition kfree :: "addr \<Rightarrow> heap \<Rightarrow> fault + heap" where
  "kfree a h = (case h a of None \<Rightarrow> Inl UseAfterFree | Some _ \<Rightarrow> Inr (h(a := None)))"

text \<open>\<open>while ((b = pop_blist(list))) kfree(b);\<close> - a list with a cycle would never end.\<close>

partial_function (option) free_all :: "blist \<Rightarrow> heap \<Rightarrow> (fault + (blist \<times> heap)) option" where
  "free_all l h =
     (case deq l h of
        Inl e \<Rightarrow> Some (Inl e)
      | Inr (r, l, h) \<Rightarrow>
          (case r of None \<Rightarrow> Some (Inr (l, h))
           | Some b \<Rightarrow> (case kfree b h of Inl e \<Rightarrow> Some (Inl e) | Inr h \<Rightarrow> free_all l h)))"

definition flush_cpu :: "nat \<Rightarrow> 'a kmod \<Rightarrow> fault + 'a kmod" where
  "flush_cpu proc m =
     (if lbuffer m proc \<noteq> None
      then fault_bind (append_full (lbuffer m proc) m) (\<lambda>m. Inr (m\<lparr>lbuffer := (lbuffer m)(proc := None)\<rparr>))
      else Inr m)"

definition free_lists :: "'a kmod \<Rightarrow> (fault + 'a kmod) option" where
  "free_lists m =
     (case free_all (empty_buffers m) (k_heap m) of
        None \<Rightarrow> None
      | Some (Inl e) \<Rightarrow> Some (Inl e)
      | Some (Inr (l, h)) \<Rightarrow>
          let m = m\<lparr>k_heap := h, empty_buffers := l\<rparr>
          in (case free_all (full_buffers m) (k_heap m) of
                None \<Rightarrow> None
              | Some (Inl e) \<Rightarrow> Some (Inl e)
              | Some (Inr (l, h)) \<Rightarrow> Some (Inr (m\<lparr>k_heap := h, full_buffers := l\<rparr>))))"

definition cleanup_module :: "'a pmu_api \<Rightarrow> nat \<Rightarrow> 'a kmod \<Rightarrow> (fault + 'a kmod) option" where
  "cleanup_module api ncpus m =
     (let m = m\<lparr>shutdown := 1\<rparr>
      in case fault_bind (stopAll api ncpus m) (\<lambda>m.
                on_each_cpu ncpus flush_cpu (m\<lparr>arch := cleanup_arch api (arch m)\<rparr>)) of
           Inl e \<Rightarrow> Some (Inl e)
         | Inr m \<Rightarrow> free_lists m)"

end
