(* ===== verification/Kernel_Buffers.thy ===== *)
theory Kernel_Buffers
  imports Kernel_Module
begin

text \<open>
  Who owns a buffer: at every moment each buffer of the module is in the list of empty ones,
  in the list of full ones, or the current one of exactly one processor; buffers in transit
  between them are the set \<open>L\<close>. The operations on the lists move buffers and keep what they
  hold.
\<close>

section \<open>Contents\<close>

definition content :: "heap \<Rightarrow> addr \<Rightarrow> buffer" where
  "content h a = the (payload h a)"

lemma filled_next [simp]: "filled (b\<lparr>b_nextBuffer := n\<rparr>) = filled b"
  by (simp add: filled_def)

lemma wf_buffer_next [simp]: "wf_buffer (b\<lparr>b_nextBuffer := n\<rparr>) = wf_buffer b"
  by (simp add: wf_buffer_def)

lemma content_Some: "h a = Some b \<Longrightarrow> content h a = b\<lparr>b_nextBuffer := None\<rparr>"
  by (simp add: content_def payload_def)

lemma dom_payload: "payload h = payload h' \<Longrightarrow> dom h = dom h'"
  by (metis (no_types, lifting) domIff payload_None set_eqI)

lemma content_payload: "payload h = payload h' \<Longrightarrow> content h = content h'"
  by (simp add: content_def fun_eq_iff)

section \<open>Ownership\<close>

definition owned :: "nat \<Rightarrow> (nat \<Rightarrow> addr option) \<Rightarrow> addr list \<Rightarrow> addr list \<Rightarrow> addr set \<Rightarrow> bool" where
  "owned n lb es fs L \<longleftrightarrow>
     set es \<inter> set fs = {} \<and> L \<inter> (set es \<union> set fs \<union> ran lb) = {} \<and>
     ran lb \<inter> (set es \<union> set fs) = {} \<and>
     (\<forall>c a. lb c = Some a \<longrightarrow> c < n) \<and> (\<forall>c d a. lb c = Some a \<and> lb d = Some a \<longrightarrow> c = d)"

definition contents_ok :: "nat \<Rightarrow> (nat \<Rightarrow> addr option) \<Rightarrow> heap \<Rightarrow> addr list \<Rightarrow> bool" where
  "contents_ok n lb h fs \<longleftrightarrow>
     (\<forall>a \<in> dom h. wf_buffer (content h a)) \<and>
     (\<forall>a \<in> set fs. unat (b_num_samples (content h a)) = BUFFER_ENTRIES \<and> unat (b_core (content h a)) < n) \<and>
     (\<forall>c a. lb c = Some a \<longrightarrow> unat (b_num_samples (content h a)) < BUFFER_ENTRIES \<and> b_core (content h a) = of_nat c)"

definition kmod_rep :: "nat \<Rightarrow> 'a kmod \<Rightarrow> addr list \<Rightarrow> addr list \<Rightarrow> addr set \<Rightarrow> bool" where
  "kmod_rep n m es fs L \<longleftrightarrow>
     blist_rep (k_heap m) (empty_buffers m) es \<and> blist_rep (k_heap m) (full_buffers m) fs \<and>
     owned n (lbuffer m) es fs L \<and> dom (k_heap m) = set es \<union> set fs \<union> ran (lbuffer m) \<union> L \<and>
     contents_ok n (lbuffer m) (k_heap m) fs"

lemma kmod_rep_cong:
  "k_heap m = k_heap m' \<Longrightarrow> empty_buffers m = empty_buffers m' \<Longrightarrow> full_buffers m = full_buffers m' \<Longrightarrow>
   lbuffer m = lbuffer m' \<Longrightarrow> kmod_rep n m es fs L = kmod_rep n m' es fs L"
  by (simp add: kmod_rep_def)

lemma kmod_rep_frame [simp]:
  "kmod_rep n (m\<lparr>period := a\<rparr>) es fs L = kmod_rep n m es fs L"
  "kmod_rep n (m\<lparr>shutdown := b\<rparr>) es fs L = kmod_rep n m es fs L"
  "kmod_rep n (wake_up_all m) es fs L = kmod_rep n m es fs L"
  "kmod_rep n (m\<lparr>missed_attr := d\<rparr>) es fs L = kmod_rep n m es fs L"
  "kmod_rep n (m\<lparr>status_attr := d\<rparr>) es fs L = kmod_rep n m es fs L"
  "kmod_rep n (m\<lparr>period_attr := d\<rparr>) es fs L = kmod_rep n m es fs L"
  "kmod_rep n (m\<lparr>total_interrupts := e\<rparr>) es fs L = kmod_rep n m es fs L"
  "kmod_rep n (m\<lparr>mykobj := k\<rparr>) es fs L = kmod_rep n m es fs L"
  "kmod_rep n (m\<lparr>arch := hw\<rparr>) es fs L = kmod_rep n m es fs L"
  by (simp_all add: kmod_rep_def)

lemma kmod_rep_set_attr [simp]: "kmod_rep n (set_attr_value a v m) es fs L = kmod_rep n m es fs L"
  by (cases a) (simp_all add: kmod_rep_def)

lemma kmod_rep_live: "kmod_rep n m es fs L \<Longrightarrow> a \<in> set es \<union> set fs \<union> ran (lbuffer m) \<union> L \<Longrightarrow> k_heap m a \<noteq> None"
  unfolding kmod_rep_def by blast

lemma kmod_rep_wf: "kmod_rep n m es fs L \<Longrightarrow> k_heap m a = Some b \<Longrightarrow> wf_buffer b"
proof -
  assume r: "kmod_rep n m es fs L" and b: "k_heap m a = Some b"
  then have "a \<in> dom (k_heap m)" by blast
  with r have "wf_buffer (content (k_heap m) a)" unfolding kmod_rep_def contents_ok_def by blast
  with content_Some[of "k_heap m" a b, OF b] show "wf_buffer b" by simp
qed

text \<open>A change of links leaves contents and ownership as they are.\<close>

lemma contents_ok_payload: "payload h' = payload h \<Longrightarrow> contents_ok n lb h' fs = contents_ok n lb h fs"
  using dom_payload[of h' h] content_payload[of h' h] by (simp add: contents_ok_def)

section \<open>Moving buffers\<close>

definition moved :: "'a kmod \<Rightarrow> 'a kmod \<Rightarrow> bool" where
  "moved m m' \<longleftrightarrow> payload (k_heap m') = payload (k_heap m) \<and>
     m'\<lparr>k_heap := k_heap m, empty_buffers := empty_buffers m, full_buffers := full_buffers m\<rparr> = m"

lemma movedI: "payload h = payload (k_heap m) \<Longrightarrow> moved m (m\<lparr>k_heap := h, empty_buffers := e\<rparr>)"
  "payload h = payload (k_heap m) \<Longrightarrow> moved m (m\<lparr>k_heap := h, full_buffers := e\<rparr>)"
  by (cases m; simp add: moved_def)+

lemma moved_same: "moved m m' \<Longrightarrow>
    f (m'\<lparr>k_heap := k_heap m, empty_buffers := empty_buffers m, full_buffers := full_buffers m\<rparr>) = f m"
  by (simp add: moved_def)

lemma moved_trans:
  assumes "moved m m1" and "moved m1 m2"
  shows "moved m m2"
proof -
  have "m2\<lparr>k_heap := k_heap m, empty_buffers := empty_buffers m, full_buffers := full_buffers m\<rparr> =
      (m2\<lparr>k_heap := k_heap m1, empty_buffers := empty_buffers m1, full_buffers := full_buffers m1\<rparr>)
      \<lparr>k_heap := k_heap m, empty_buffers := empty_buffers m, full_buffers := full_buffers m\<rparr>" by simp
  also have "\<dots> = m" using assms by (simp only: moved_def)
  finally show ?thesis using assms by (simp only: moved_def)
qed

lemma moved_fields:
  assumes "moved m m'"
  shows "payload (k_heap m') = payload (k_heap m)" "lbuffer m' = lbuffer m" "arch m' = arch m"
    "period m' = period m" "shutdown m' = shutdown m" "missed_attr m' = missed_attr m"
    "content (k_heap m') = content (k_heap m)"
proof -
  show "payload (k_heap m') = payload (k_heap m)" using assms by (simp add: moved_def)
  then show "content (k_heap m') = content (k_heap m)" by (rule content_payload)
qed (use moved_same[OF assms, of lbuffer] moved_same[OF assms, of arch] moved_same[OF assms, of period]
    moved_same[OF assms, of shutdown] moved_same[OF assms, of missed_attr] in simp_all)

lemma append_empty_enq:
  "append_empty (Some a) m =
     fault_bind (enq (empty_buffers m) a (k_heap m)) (\<lambda>(l, h). Inr (m\<lparr>k_heap := h, empty_buffers := l\<rparr>))"
  by (cases "append_blist (Some (empty_buffers m)) (Some a) (k_heap m)") (auto simp: append_empty_def enq_def)

lemma append_full_enq:
  "append_full (Some a) m =
     fault_bind (enq (full_buffers m) a (k_heap m)) (\<lambda>(l, h). Inr (m\<lparr>k_heap := h, full_buffers := l\<rparr>))"
  by (cases "append_blist (Some (full_buffers m)) (Some a) (k_heap m)") (auto simp: append_full_def enq_def)

lemma pop_empty_deq:
  "pop_empty m =
     fault_bind (deq (empty_buffers m) (k_heap m)) (\<lambda>(r, l, h). Inr (r, m\<lparr>k_heap := h, empty_buffers := l\<rparr>))"
  by (cases "pop_blist (Some (empty_buffers m)) (k_heap m)") (auto simp: pop_empty_def deq_def)

lemma pop_full_deq:
  "pop_full m =
     fault_bind (deq (full_buffers m) (k_heap m)) (\<lambda>(r, l, h). Inr (r, m\<lparr>k_heap := h, full_buffers := l\<rparr>))"
  by (cases "pop_blist (Some (full_buffers m)) (k_heap m)") (auto simp: pop_full_def deq_def)

lemma append_empty_ok:
  assumes r: "kmod_rep n m es fs (insert a L)" and a: "a \<notin> L"
  shows "\<exists>m'. append_empty (Some a) m = Inr m' \<and> kmod_rep n m' (es @ [a]) fs L \<and> moved m m'"
proof -
  have o: "a \<notin> set es" "a \<notin> set fs" "a \<notin> ran (lbuffer m)" "k_heap m a \<noteq> None" "set fs \<inter> insert a (set es) = {}"
    using r kmod_rep_live[OF r, of a] by (auto simp: kmod_rep_def owned_def)
  obtain l h where e: "enq (empty_buffers m) a (k_heap m) = Inr (l, h)" "blist_rep h l (es @ [a])"
    "blist_rep h (full_buffers m) fs" "payload h = payload (k_heap m)"
    using bq.put_other[of "k_heap m" "empty_buffers m" es a "full_buffers m" fs] r o by (auto simp: kmod_rep_def)
  let ?m = "m\<lparr>k_heap := h, empty_buffers := l\<rparr>"
  have "kmod_rep n ?m (es @ [a]) fs L"
    using r a o e(2-4) dom_payload[OF e(4)] contents_ok_payload[OF e(4)]
    by (auto simp: kmod_rep_def owned_def)
  with e(1) movedI(1)[OF e(4)] show ?thesis by (simp add: append_empty_enq)
qed

lemma append_full_ok:
  assumes r: "kmod_rep n m es fs (insert a L)" and a: "a \<notin> L"
    and full: "unat (b_num_samples (content (k_heap m) a)) = BUFFER_ENTRIES" "unat (b_core (content (k_heap m) a)) < n"
  shows "\<exists>m'. append_full (Some a) m = Inr m' \<and> kmod_rep n m' es (fs @ [a]) L \<and> moved m m'"
proof -
  have o: "a \<notin> set es" "a \<notin> set fs" "a \<notin> ran (lbuffer m)" "k_heap m a \<noteq> None" "set es \<inter> insert a (set fs) = {}"
    using r kmod_rep_live[OF r, of a] by (auto simp: kmod_rep_def owned_def)
  obtain l h where e: "enq (full_buffers m) a (k_heap m) = Inr (l, h)" "blist_rep h l (fs @ [a])"
    "blist_rep h (empty_buffers m) es" "payload h = payload (k_heap m)"
    using bq.put_other[of "k_heap m" "full_buffers m" fs a "empty_buffers m" es] r o by (auto simp: kmod_rep_def)
  let ?m = "m\<lparr>k_heap := h, full_buffers := l\<rparr>"
  have "contents_ok n (lbuffer m) h (fs @ [a])"
    using r full content_payload[OF e(4)] dom_payload[OF e(4)] by (auto simp: kmod_rep_def contents_ok_def)
  then have "kmod_rep n ?m es (fs @ [a]) L"
    using r a o e(2-4) dom_payload[OF e(4)] by (auto simp: kmod_rep_def owned_def)
  with e(1) movedI(2)[OF e(4)] show ?thesis by (simp add: append_full_enq)
qed

lemma pop_empty_ok:
  assumes r: "kmod_rep n m (a # es) fs L"
  shows "\<exists>m'. pop_empty m = Inr (Some a, m') \<and> kmod_rep n m' es fs (insert a L) \<and> a \<notin> L \<and> moved m m'"
proof -
  have "a \<notin> set fs" using r by (auto simp: kmod_rep_def owned_def)
  then obtain l h where e: "deq (empty_buffers m) (k_heap m) = Inr (Some a, l, h)" "blist_rep h l es"
    "blist_rep h (full_buffers m) fs" "payload h = payload (k_heap m)"
    using bq.get_other[of "k_heap m" "empty_buffers m" a es "full_buffers m" fs] r by (auto simp: kmod_rep_def)
  have "a \<notin> set es" using r bq.rep_distinct[of "k_heap m" "empty_buffers m" "a # es"] by (simp add: kmod_rep_def)
  then have "kmod_rep n (m\<lparr>k_heap := h, empty_buffers := l\<rparr>) es fs (insert a L)" "a \<notin> L"
    using r e(2-4) dom_payload[OF e(4)] contents_ok_payload[OF e(4)]
    by (auto simp: kmod_rep_def owned_def)
  with e(1) movedI(1)[OF e(4)] show ?thesis by (simp add: pop_empty_deq)
qed

lemma pop_full_ok:
  assumes r: "kmod_rep n m es (a # fs) L"
  shows "\<exists>m'. pop_full m = Inr (Some a, m') \<and> kmod_rep n m' es fs (insert a L) \<and> a \<notin> L \<and> moved m m'"
proof -
  have "a \<notin> set es" using r by (auto simp: kmod_rep_def owned_def)
  then obtain l h where e: "deq (full_buffers m) (k_heap m) = Inr (Some a, l, h)" "blist_rep h l fs"
    "blist_rep h (empty_buffers m) es" "payload h = payload (k_heap m)"
    using bq.get_other[of "k_heap m" "full_buffers m" a fs "empty_buffers m" es] r by (auto simp: kmod_rep_def)
  have "a \<notin> set fs" using r bq.rep_distinct[of "k_heap m" "full_buffers m" "a # fs"] by (simp add: kmod_rep_def)
  moreover have "contents_ok n (lbuffer m) h fs"
    using r content_payload[OF e(4)] dom_payload[OF e(4)] by (auto simp: kmod_rep_def contents_ok_def)
  ultimately have "kmod_rep n (m\<lparr>k_heap := h, full_buffers := l\<rparr>) es fs (insert a L)" "a \<notin> L"
    using r e(2-4) dom_payload[OF e(4)] by (auto simp: kmod_rep_def owned_def)
  with e(1) movedI(2)[OF e(4)] show ?thesis by (simp add: pop_full_deq)
qed

lemma pop_nothing:
  "kmod_rep n m [] fs L \<Longrightarrow> pop_empty m = Inr (None, m)"
  "kmod_rep n m es [] L \<Longrightarrow> pop_full m = Inr (None, m)"
  using bq.get_empty by (simp_all add: kmod_rep_def pop_empty_deq pop_full_deq)

end
