(* ===== verification/Kernel_Sampling.thy ===== *)
theory Kernel_Sampling
  imports Kernel_Buffers
begin

text \<open>
  Samples inside the module: what an interrupt adds, what a read takes out. \<open>in_module m fs c\<close>
  are the samples of processor \<open>c\<close> that the module holds, oldest first. The locale
  \<open>pmu_arch\<close> states what the module relies on in an architecture.
\<close>

section \<open>The samples the module holds\<close>

definition cur :: "heap \<Rightarrow> (nat \<Rightarrow> addr option) \<Rightarrow> nat \<Rightarrow> sample list" where
  "cur h lb c = (case lb c of None \<Rightarrow> [] | Some a \<Rightarrow> filled (content h a))"

definition part_of :: "nat \<Rightarrow> buffer \<Rightarrow> sample list" where
  "part_of c b = (if b_core b = of_nat c then filled b else [])"

definition in_module :: "'a kmod \<Rightarrow> addr list \<Rightarrow> nat \<Rightarrow> sample list" where
  "in_module m fs c =
     concat (map (\<lambda>a. part_of c (content (k_heap m) a)) fs) @ cur (k_heap m) (lbuffer m) c"

lemma in_module_wake_up [simp]: "in_module (wake_up_all m) fs c = in_module m fs c"
  by (simp add: in_module_def)

lemma in_module_moved:
  assumes "moved m m'"
  shows "in_module m' fs c = in_module m fs c"
  by (simp add: in_module_def cur_def moved_fields[OF assms] split: option.split)

lemma content_upd: "content (h(a \<mapsto> b)) x = (if x = a then b\<lparr>b_nextBuffer := None\<rparr> else content h x)"
  by (simp add: content_def payload_def)

lemma in_module_store:
  assumes "a \<notin> set fs" and "a \<notin> ran (lbuffer m)"
  shows "in_module (m\<lparr>k_heap := (k_heap m)(a \<mapsto> b)\<rparr>) fs c = in_module m fs c"
proof -
  have "\<forall>x \<in> set fs. part_of c (content ((k_heap m)(a \<mapsto> b)) x) = part_of c (content (k_heap m) x)"
    using assms(1) by (auto simp: content_upd)
  moreover have "cur ((k_heap m)(a \<mapsto> b)) (lbuffer m) c = cur (k_heap m) (lbuffer m) c"
    using assms(2) by (auto simp: cur_def content_upd ran_def split: option.split)
  ultimately show ?thesis by (simp add: in_module_def cong: map_cong)
qed

lemma in_module_frame [simp]:
  "in_module (m\<lparr>arch := hw\<rparr>) fs c = in_module m fs c"
  "in_module (m\<lparr>missed_attr := v\<rparr>) fs c = in_module m fs c"
  "in_module (m\<lparr>total_interrupts := w\<rparr>) fs c = in_module m fs c"
  "in_module (m\<lparr>period := w\<rparr>) fs c = in_module m fs c"
  "in_module (m\<lparr>shutdown := x\<rparr>) fs c = in_module m fs c"
  by (simp_all add: in_module_def)

lemma in_module_set_attr [simp]: "in_module (set_attr_value a v m) fs c = in_module m fs c"
  by (cases a) (simp_all add: in_module_def)

section \<open>A buffer in transit\<close>

lemma ran_upd_None:
  assumes "\<And>d. lb d = Some a \<Longrightarrow> d = c" and "lb c = Some a"
  shows "ran (lb(c := None)) = ran lb - {a}"
proof -
  have "ran (lb(c := None)) \<subseteq> ran lb" unfolding ran_def by (auto split: if_splits)
  moreover have "a \<notin> ran (lb(c := None))" using assms(1) unfolding ran_def by (auto split: if_splits)
  moreover have "x \<in> ran (lb(c := None))" if x: "x \<in> ran lb" "x \<noteq> a" for x
  proof -
    obtain d where d: "lb d = Some x" using x(1) unfolding ran_def by blast
    with assms(2) x(2) have "d \<noteq> c" by auto
    with d show ?thesis by (intro ranI[of _ d]) simp
  qed
  ultimately show ?thesis by blast
qed

lemma release:
  assumes r: "kmod_rep n m es fs L" and c: "lbuffer m c = Some a"
  shows "kmod_rep n (m\<lparr>lbuffer := (lbuffer m)(c := None)\<rparr>) es fs (insert a L)" and "a \<notin> L" "a \<notin> set fs"
proof -
  have a: "a \<in> ran (lbuffer m)" using c by (auto simp: ran_def)
  have inj: "d = c" if "lbuffer m d = Some a" for d using r c that unfolding kmod_rep_def owned_def by blast
  have ran: "ran ((lbuffer m)(c := None)) = ran (lbuffer m) - {a}" by (rule ran_upd_None[where lb = "lbuffer m", OF inj c])
  show na: "a \<notin> L" "a \<notin> set fs" using r a unfolding kmod_rep_def owned_def by blast+
  have o: "owned n ((lbuffer m)(c := None)) es fs (insert a L)"
    using r a na unfolding kmod_rep_def owned_def ran by (auto split: if_splits)
  have k: "contents_ok n ((lbuffer m)(c := None)) (k_heap m) fs"
    using r unfolding kmod_rep_def contents_ok_def by (auto split: if_splits)
  show "kmod_rep n (m\<lparr>lbuffer := (lbuffer m)(c := None)\<rparr>) es fs (insert a L)"
    using r o k a unfolding kmod_rep_def by (auto simp: ran)
qed

lemma acquire:
  assumes r: "kmod_rep n m es fs (insert a L)" and a: "a \<notin> L" and c: "lbuffer m c = None" "c < n"
    and b: "unat (b_num_samples (content (k_heap m) a)) < BUFFER_ENTRIES" "b_core (content (k_heap m) a) = of_nat c"
  shows "kmod_rep n (m\<lparr>lbuffer := (lbuffer m)(c := Some a)\<rparr>) es fs L"
proof -
  have ran: "ran ((lbuffer m)(c \<mapsto> a)) = insert a (ran (lbuffer m))" using c(1) by (rule ran_map_upd)
  have na: "a \<notin> ran (lbuffer m)" using r unfolding kmod_rep_def owned_def by blast
  then have "\<forall>d. lbuffer m d \<noteq> Some a" by (auto simp: ran_def)
  then have o: "owned n ((lbuffer m)(c \<mapsto> a)) es fs L"
    using r a c unfolding kmod_rep_def owned_def ran by auto
  have k: "contents_ok n ((lbuffer m)(c \<mapsto> a)) (k_heap m) fs"
    using r b unfolding kmod_rep_def contents_ok_def by auto
  show ?thesis using r o k unfolding kmod_rep_def by (auto simp: ran)
qed

lemma store_buffer:
  assumes r: "kmod_rep n m es fs L" and a: "a \<in> L" and b: "wf_buffer b"
  shows "kmod_rep n (m\<lparr>k_heap := (k_heap m)(a \<mapsto> b)\<rparr>) es fs L"
proof -
  have d: "a \<in> dom (k_heap m)" "a \<notin> set es" "a \<notin> set fs" "a \<notin> ran (lbuffer m)"
    using r a unfolding kmod_rep_def owned_def by blast+
  then have nl: "lbuffer m c \<noteq> Some a" for c by (auto simp: ran_def)
  have "blist_rep ((k_heap m)(a \<mapsto> b)) (empty_buffers m) es" "blist_rep ((k_heap m)(a \<mapsto> b)) (full_buffers m) fs"
    using r d by (auto simp: kmod_rep_def intro!: blist_rep_frame[of "k_heap m"])
  moreover have "contents_ok n (lbuffer m) ((k_heap m)(a \<mapsto> b)) fs"
    using r b d nl unfolding kmod_rep_def contents_ok_def by (auto simp: content_upd)
  ultimately show ?thesis
    using r d unfolding kmod_rep_def by (simp add: insert_absorb)
qed

lemma append_full_lbuffer:
  "append_full b (m\<lparr>lbuffer := f\<rparr>) = fault_bind (append_full b m) (\<lambda>m. Inr (m\<lparr>lbuffer := f\<rparr>))"
  by (cases "append_blist (Some (full_buffers m)) b (k_heap m)") (auto simp: append_full_def)

lemma append_empty_lbuffer:
  "append_empty b (m\<lparr>lbuffer := f\<rparr>) = fault_bind (append_empty b m) (\<lambda>m. Inr (m\<lparr>lbuffer := f\<rparr>))"
  by (cases "append_blist (Some (empty_buffers m)) b (k_heap m)") (auto simp: append_empty_def)

section \<open>Finding the current buffer\<close>

lemma entries_word: "BUFFER_ENTRIES < 2 ^ 32" "0 < BUFFER_ENTRIES"
  by (simp_all add: BUFFER_ENTRIES_eq)

definition same_state :: "'a kmod \<Rightarrow> 'a kmod \<Rightarrow> bool" where
  "same_state m m' \<longleftrightarrow> arch m' = arch m \<and> period m' = period m \<and> shutdown m' = shutdown m"

text \<open>The slot the next sample of a processor goes to: its counters may be kept from earlier use.\<close>

definition slot :: "'a kmod \<Rightarrow> nat \<Rightarrow> sample" where
  "slot m c =
     (case lbuffer m c of
        Some a \<Rightarrow> b_samples (content (k_heap m) a) ! unat (b_num_samples (content (k_heap m) a))
      | None \<Rightarrow> b_samples (content (k_heap m) (the (bl_head (empty_buffers m)))) ! 0)"

lemma current_buffer_missed:
  "kmod_rep n m [] fs L \<Longrightarrow> lbuffer m c = None \<Longrightarrow>
   current_buffer c m = Inr (None, m\<lparr>missed_attr := missed_attr m + 1\<rparr>)"
  by (simp add: current_buffer_def pop_nothing)

lemma current_buffer_ok:
  assumes r: "kmod_rep n m es fs {}" and c: "c < n" and some: "lbuffer m c \<noteq> None \<or> es \<noteq> []"
  shows "\<exists>a m1 es1. current_buffer c m = Inr (Some a, m1) \<and> kmod_rep n m1 es1 fs {} \<and> lbuffer m1 c = Some a \<and>
     (\<forall>d. in_module m1 fs d = in_module m fs d) \<and> same_state m m1 \<and> missed_attr m1 = missed_attr m \<and>
     b_samples (content (k_heap m1) a) ! unat (b_num_samples (content (k_heap m1) a)) = slot m c"
proof (cases "lbuffer m c")
  case (Some a)
  with r show ?thesis
    by (intro exI[of _ a] exI[of _ m] exI[of _ es]) (simp add: current_buffer_def same_state_def slot_def)
next
  case None
  with some obtain a es1 where es: "es = a # es1" by (cases es) auto
  obtain m1 where p: "pop_empty m = Inr (Some a, m1)" "kmod_rep n m1 es1 fs {a}" "moved m m1"
    using pop_empty_ok[of n m a es1 fs "{}"] r es by auto
  note mv = moved_fields[OF p(3)]
  have na: "a \<notin> set fs" "a \<notin> ran (lbuffer m1)" using p(2) by (auto simp: kmod_rep_def owned_def)
  obtain b where b: "k_heap m1 a = Some b" using kmod_rep_live[OF p(2), of a] by auto
  let ?b = "b\<lparr>b_core := of_nat c, b_num_samples := 0\<rparr>"
  let ?m2 = "m1\<lparr>k_heap := (k_heap m1)(a \<mapsto> ?b)\<rparr>"
  let ?m3 = "?m2\<lparr>lbuffer := (lbuffer ?m2)(c := Some a)\<rparr>"
  have "wf_buffer ?b" using kmod_rep_wf[OF p(2) b] by (simp add: wf_buffer_def)
  then have r2: "kmod_rep n ?m2 es1 fs {a}" by (intro store_buffer[OF p(2)]) simp
  have r3: "kmod_rep n ?m3 es1 fs {}"
    using acquire[of n ?m2 es1 fs a "{}" c] r2 None c entries_word mv(2) by (simp add: content_upd)
  have "in_module ?m3 fs d = in_module m fs d" for d
  proof -
    have "in_module ?m3 fs d = in_module ?m2 fs d"
      using None mv(2) by (simp add: in_module_def cur_def content_upd filled_def)
    also have "\<dots> = in_module m1 fs d" by (rule in_module_store[OF na])
    also have "\<dots> = in_module m fs d" by (rule in_module_moved[OF p(3)])
    finally show ?thesis .
  qed
  moreover have "current_buffer c m = Inr (Some a, ?m3)"
    using None p(1) b by (simp add: current_buffer_def initialize_buffer_def)
  moreover have "bl_head (empty_buffers m) = Some a" using r es by (simp add: kmod_rep_def blist_rep_def)
  then have "b_samples (content (k_heap ?m3) a) ! unat (b_num_samples (content (k_heap ?m3) a)) = slot m c"
    using None mv(7) content_Some[of "k_heap m1" a b, OF b] by (simp add: slot_def content_upd)
  moreover have "same_state m ?m3" "missed_attr ?m3 = missed_attr m" "lbuffer ?m3 c = Some a"
    using mv by (simp_all add: same_state_def)
  ultimately show ?thesis using r3 by blast
qed

section \<open>Adding a sample to a buffer\<close>

definition put_sample :: "buffer \<Rightarrow> sample \<Rightarrow> buffer" where
  "put_sample b s = b\<lparr>b_num_samples := b_num_samples b + 1, b_samples := (b_samples b)[unat (b_num_samples b) := s]\<rparr>"

lemma put_sample_num:
  assumes "unat (b_num_samples b) < BUFFER_ENTRIES"
  shows "unat (b_num_samples (put_sample b s)) = unat (b_num_samples b) + 1"
  using assms entries_word(1) by (simp add: put_sample_def unat_word_ariths(1))

lemma put_sample_filled:
  assumes "unat (b_num_samples b) < BUFFER_ENTRIES" and "wf_buffer b"
  shows "filled (put_sample b s) = filled b @ [s]"
proof -
  have "unat (b_num_samples b) < length (b_samples b)" using assms by (simp add: wf_buffer_def)
  then show ?thesis
    using put_sample_num[OF assms(1), of s] unfolding filled_def
    by (simp add: put_sample_def take_Suc_conv_app_nth)
qed

lemma put_sample_wf: "wf_buffer b \<Longrightarrow> wf_sample s \<Longrightarrow> wf_buffer (put_sample b s)"
  by (auto simp: wf_buffer_def put_sample_def dest!: set_update_subset_insert[THEN subsetD])

text \<open>The sample an interrupt on processor \<open>c\<close> takes; the slot's other counters stay as they were.\<close>

definition sample_now :: "'a pmu_api \<Rightarrow> nat \<Rightarrow> u64 \<Rightarrow> u64 \<Rightarrow> 'a \<Rightarrow> u32 list \<Rightarrow> sample" where
  "sample_now api c pid p hw old =
     \<lparr>s_cycles = read_ccnt api c hw + p, s_pid = pid,
      s_counters = map (\<lambda>i. if i < num_ctrs api hw then ucast (fst (read_pmn api c i hw)) else old ! i) [0..<6]\<rparr>"

lemma wf_sample_now [simp]: "wf_sample (sample_now api c pid p hw old)"
  by (simp add: sample_now_def wf_sample_def)

section \<open>What an architecture owes the module\<close>

locale pmu_arch =
  fixes api :: "'a pmu_api" and ok :: "'a \<Rightarrow> bool" and running :: "'a \<Rightarrow> nat \<Rightarrow> bool"
  assumes few: "ok hw \<Longrightarrow> num_ctrs api hw \<le> 6"
    and read_ok: "ok hw \<Longrightarrow> ok (snd (read_pmn api c i hw)) \<and>
      num_ctrs api (snd (read_pmn api c i hw)) = num_ctrs api hw \<and> running (snd (read_pmn api c i hw)) = running hw"
    and read_value: "fst (read_pmn api c i (snd (read_pmn api c j hw))) = fst (read_pmn api c i hw)"
    and start_ok: "ok hw \<Longrightarrow> length cs = 6 \<Longrightarrow>
      \<exists>hw'. startCtrsLocal api c cs p hw = Inr hw' \<and> ok hw' \<and> running hw' = (running hw)(c := True)"
    and stop_ok: "ok hw \<Longrightarrow> ok (stopCtrsLocal api c hw) \<and> running (stopCtrsLocal api c hw) = (running hw)(c := False)"
    and dump_ok: "ok hw \<Longrightarrow> ok (dump_regs api c hw) \<and> running (dump_regs api c hw) = running hw"
    and register_ok: "ok hw \<Longrightarrow> ok (register_interrupt api hw) \<and> running (register_interrupt api hw) = running hw"
    and deregister_ok: "ok hw \<Longrightarrow> ok (deregister_interrupt api hw) \<and> running (deregister_interrupt api hw) = running hw"
    and cleanup_ok: "ok hw \<Longrightarrow> running (cleanup_arch api hw) = running hw"
begin

lemma read_counters_ok:
  assumes "ok hw" and "length (s_counters s) = 6" and "k \<le> 6"
  shows "\<exists>hw'. fault_fold (read_counter api c) [0..<k] (s, hw) =
      Inr (s\<lparr>s_counters := map (\<lambda>i. if i < k then ucast (fst (read_pmn api c i hw)) else s_counters s ! i) [0..<6]\<rparr>, hw') \<and>
      ok hw' \<and> num_ctrs api hw' = num_ctrs api hw \<and> running hw' = running hw \<and>
      (\<forall>i. fst (read_pmn api c i hw') = fst (read_pmn api c i hw))"
  using assms(3)
proof (induction k)
  case 0
  have "map (\<lambda>i. s_counters s ! i) [0..<6] = s_counters s" using assms(2) map_nth[of "s_counters s"] by simp
  with assms(1) show ?case by simp
next
  case (Suc k)
  let ?f = "\<lambda>k i. if i < k then ucast (fst (read_pmn api c i hw)) else s_counters s ! i"
  obtain hw1 where 1: "fault_fold (read_counter api c) [0..<k] (s, hw) = Inr (s\<lparr>s_counters := map (?f k) [0..<6]\<rparr>, hw1)"
    "ok hw1" "num_ctrs api hw1 = num_ctrs api hw" "running hw1 = running hw"
    "\<forall>i. fst (read_pmn api c i hw1) = fst (read_pmn api c i hw)"
    using Suc by auto
  obtain v hw2 where 2: "read_pmn api c k hw1 = (v, hw2)" by fastforce
  have v: "v = fst (read_pmn api c k hw)" using 1(5) 2 by (metis fst_conv)
  have "(map (?f k) [0..<6])[k := ucast v] = map (?f (Suc k)) [0..<6]"
    using Suc.prems v by (intro nth_equalityI) (auto simp: nth_list_update)
  then have "fault_fold (read_counter api c) [0..<Suc k] (s, hw) =
      Inr (s\<lparr>s_counters := map (?f (Suc k)) [0..<6]\<rparr>, hw2)"
    using 1(1) 2 Suc.prems by (simp add: fault_fold_append read_counter_def)
  moreover have "ok hw2 \<and> num_ctrs api hw2 = num_ctrs api hw \<and> running hw2 = running hw"
    using read_ok[OF 1(2), of c k] 1(3,4) 2 by simp
  moreover have "\<forall>i. fst (read_pmn api c i hw2) = fst (read_pmn api c i hw)"
    using read_value[of c _ k hw1] 1(5) 2 by simp
  ultimately show ?case by blast
qed

end

section \<open>One interrupt\<close>

lemma core_word: "c < n \<Longrightarrow> n \<le> 2 ^ 32 \<Longrightarrow> unat (of_nat c :: u32) = c"
  by (simp add: unat_of_nat)

lemma core_word_inj: "c < n \<Longrightarrow> d < n \<Longrightarrow> n \<le> 2 ^ 32 \<Longrightarrow> (of_nat c :: u32) = of_nat d \<Longrightarrow> c = d"
  using core_word by metis

lemma kmod_rep_current:
  assumes r: "kmod_rep n m es fs L" and c: "lbuffer m c = Some a" and b: "k_heap m a = Some b"
  shows "unat (b_num_samples b) < BUFFER_ENTRIES" "b_core b = of_nat c"
proof -
  have "unat (b_num_samples (content (k_heap m) a)) < BUFFER_ENTRIES \<and> b_core (content (k_heap m) a) = of_nat c"
    using r c unfolding kmod_rep_def contents_ok_def by blast
  then show "unat (b_num_samples b) < BUFFER_ENTRIES" "b_core b = of_nat c"
    unfolding content_Some[of "k_heap m" a b, OF b] by simp_all
qed

lemma in_module_put:
  assumes r: "kmod_rep n m es fs L" and c: "lbuffer m c = Some a" and b: "k_heap m a = Some b"
    and s: "unat (b_num_samples b) < BUFFER_ENTRIES"
  shows "in_module (m\<lparr>k_heap := (k_heap m)(a \<mapsto> put_sample b s)\<rparr>) fs d =
           in_module m fs d @ (if d = c then [s] else [])"
proof -
  have na: "a \<notin> set fs" using release(3)[OF r c] .
  have inj: "lbuffer m e \<noteq> Some a" if "e \<noteq> c" for e using r c that unfolding kmod_rep_def owned_def by blast
  have "\<forall>x \<in> set fs. part_of d (content ((k_heap m)(a \<mapsto> put_sample b s)) x) = part_of d (content (k_heap m) x)"
    using na by (auto simp: content_upd)
  moreover have "cur ((k_heap m)(a \<mapsto> put_sample b s)) (lbuffer m) d = cur (k_heap m) (lbuffer m) d @ (if d = c then [s] else [])"
  proof (cases "d = c")
    case True
    then show ?thesis
      using c put_sample_filled[OF s kmod_rep_wf[OF r b], of s] content_Some[of "k_heap m" a b, OF b]
      by (simp add: cur_def content_upd)
  next
    case False
    then show ?thesis using inj[OF False] by (simp add: cur_def content_upd split: option.split)
  qed
  ultimately show ?thesis by (simp add: in_module_def cong: map_cong)
qed

lemma append_full_keeps: "append_full b m = Inr m' \<Longrightarrow> lbuffer m' = lbuffer m"
  by (auto simp: append_full_def elim!: fault_bind_InrE)

text \<open>Storing the sample and, when the buffer is full, handing it over.\<close>

definition finish_sample :: "nat \<Rightarrow> addr \<Rightarrow> buffer \<Rightarrow> 'a kmod \<Rightarrow> fault + 'a kmod" where
  "finish_sample c a b m =
     (if unat (b_num_samples b) \<ge> BUFFER_ENTRIES then
        fault_bind (append_full (Some a) m) (\<lambda>m. Inr (wake_up_all (m\<lparr>lbuffer := (lbuffer m)(c := None)\<rparr>)))
      else Inr m)"

lemma finish_sample_ok:
  assumes r: "kmod_rep n m1 es fs {}" and c: "lbuffer m1 c = Some a" "c < n" "n \<le> 2 ^ 32" and b: "k_heap m1 a = Some b"
    and s: "wf_sample s"
  shows "\<exists>m' fs'. finish_sample c a (put_sample b s) (m1\<lparr>k_heap := (k_heap m1)(a \<mapsto> put_sample b s), arch := hw\<rparr>) = Inr m' \<and>
     kmod_rep n m' es fs' {} \<and> arch m' = hw \<and> period m' = period m1 \<and> shutdown m' = shutdown m1 \<and>
     missed_attr m' = missed_attr m1 \<and>
     (\<forall>d < n. in_module m' fs' d = in_module m1 fs d @ (if d = c then [s] else []))"
proof -
  define m2 where "m2 = m1\<lparr>k_heap := (k_heap m1)(a \<mapsto> put_sample b s), arch := hw\<rparr>"
  define m2r where "m2r = m2\<lparr>lbuffer := (lbuffer m1)(c := None)\<rparr>"
  note num = kmod_rep_current(1)[OF r c(1) b] and core = kmod_rep_current(2)[OF r c(1) b]
  have core': "b_core (put_sample b s) = of_nat c" using core by (simp add: put_sample_def)
  have cont2: "content (k_heap m2r) a = (put_sample b s)\<lparr>b_nextBuffer := None\<rparr>" "content (k_heap m2) a = (put_sample b s)\<lparr>b_nextBuffer := None\<rparr>"
    by (simp_all add: m2r_def m2_def content_upd)
  have "kmod_rep n (m1\<lparr>lbuffer := (lbuffer m1)(c := None), k_heap := (k_heap m1)(a \<mapsto> put_sample b s)\<rparr>) es fs {a}"
    using store_buffer[OF release(1)[OF r c(1)], of a "put_sample b s"] put_sample_wf[OF kmod_rep_wf[OF r b] s] by simp
  then have r2: "kmod_rep n m2r es fs {a}"
    by (subst kmod_rep_cong[where m' = "m1\<lparr>lbuffer := (lbuffer m1)(c := None), k_heap := (k_heap m1)(a \<mapsto> put_sample b s)\<rparr>"])
      (simp_all add: m2r_def m2_def)
  have put: "in_module m2 fs d = in_module m1 fs d @ (if d = c then [s] else [])" for d
    using in_module_put[OF r c(1) b num, of s d] by (simp add: m2_def in_module_def)
  show ?thesis
  proof (cases "unat (b_num_samples (put_sample b s)) \<ge> BUFFER_ENTRIES")
    case True
    then have full: "unat (b_num_samples (put_sample b s)) = BUFFER_ENTRIES" using put_sample_num[OF num, of s] num by simp
    obtain m3 where m3: "append_full (Some a) m2r = Inr m3" "kmod_rep n m3 es (fs @ [a]) {}" "moved m2r m3"
      using append_full_ok[of n m2r es fs a "{}"] r2 cont2 full core' core_word[OF c(2,3)] c(2) by auto
    from m3(1) obtain m3' where m3': "append_full (Some a) m2 = Inr m3'" "m3 = m3'\<lparr>lbuffer := (lbuffer m1)(c := None)\<rparr>"
      unfolding m2r_def append_full_lbuffer by (auto elim!: fault_bind_InrE)
    have "lbuffer m3' = lbuffer m1" using append_full_keeps[OF m3'(1)] by (simp add: m2_def)
    then have fin: "finish_sample c a (put_sample b s) m2 = Inr (wake_up_all m3)"
      using True m3' by (simp add: finish_sample_def)
    have "in_module m3 (fs @ [a]) d = in_module m2 fs d" if "d < n" for d
    proof -
      have "in_module m3 (fs @ [a]) d = in_module m2r (fs @ [a]) d" by (rule in_module_moved[OF m3(3)])
      also have "\<dots> = in_module m2 fs d"
        using core_word_inj[of c n d] that c cont2 core' by (auto simp: m2r_def m2_def in_module_def cur_def part_of_def)
      finally show ?thesis .
    qed
    with fin m3(2) put moved_fields[OF m3(3)] show ?thesis
      unfolding m2_def[symmetric] by (intro exI[of _ "wake_up_all m3"] exI[of _ "fs @ [a]"]) (simp add: m2r_def m2_def)
  next
    case False
    have "kmod_rep n (m2r\<lparr>lbuffer := (lbuffer m2r)(c := Some a)\<rparr>) es fs {}"
      by (rule acquire) (use r2 False c core' cont2 in \<open>simp_all add: m2r_def\<close>)
    then have "kmod_rep n m2 es fs {}"
      by (subst kmod_rep_cong[where m' = "m2r\<lparr>lbuffer := (lbuffer m2r)(c := Some a)\<rparr>"])
        (use c(1) in \<open>auto simp: m2r_def m2_def\<close>)
    with False put show ?thesis
      unfolding m2_def[symmetric] by (intro exI[of _ m2] exI[of _ fs]) (simp add: finish_sample_def m2_def)
  qed
qed

context pmu_arch
begin

lemma gatherSample_missed:
  "kmod_rep n m [] fs L \<Longrightarrow> lbuffer m c = None \<Longrightarrow>
   gatherSample api c pid m = Inr (m\<lparr>missed_attr := missed_attr m + 1\<rparr>)"
  by (simp add: gatherSample_def current_buffer_missed)

lemma gatherSample_ok:
  assumes r: "kmod_rep n m es fs {}" and c: "c < n" "n \<le> 2 ^ 32" and hw: "ok (arch m)"
    and some: "lbuffer m c \<noteq> None \<or> es \<noteq> []"
  shows "\<exists>m' es' fs'. gatherSample api c pid m = Inr m' \<and> kmod_rep n m' es' fs' {} \<and>
     ok (arch m') \<and> running (arch m') = running (arch m) \<and> num_ctrs api (arch m') = num_ctrs api (arch m) \<and>
     period m' = period m \<and> shutdown m' = shutdown m \<and> missed_attr m' = missed_attr m \<and>
     (\<forall>d < n. in_module m' fs' d =
        in_module m fs d @ (if d = c then [sample_now api c pid (period m) (arch m) (s_counters (slot m c))] else []))"
proof -
  obtain a m1 es1 where 1: "current_buffer c m = Inr (Some a, m1)" "kmod_rep n m1 es1 fs {}" "lbuffer m1 c = Some a"
    "\<forall>d. in_module m1 fs d = in_module m fs d" "same_state m m1" "missed_attr m1 = missed_attr m"
    and sl: "b_samples (content (k_heap m1) a) ! unat (b_num_samples (content (k_heap m1) a)) = slot m c"
    using current_buffer_ok[OF r c(1) some] by blast
  have a: "a \<in> ran (lbuffer m1)" using 1(3) by (auto simp: ran_def)
  then obtain b where b: "k_heap m1 a = Some b" using kmod_rep_live[OF 1(2), of a] by auto
  have num: "unat (b_num_samples b) < BUFFER_ENTRIES" by (rule kmod_rep_current(1)[OF 1(2,3) b])
  have wf: "wf_buffer b" by (rule kmod_rep_wf[OF 1(2) b])
  let ?old = "b_samples b ! unat (b_num_samples b)"
  have slot: "slot m c = ?old" using sl content_Some[of "k_heap m1" a b, OF b] by simp
  let ?slot = "?old\<lparr>s_cycles := read_ccnt api c (arch m) + period m, s_pid := pid\<rparr>"
  let ?s = "sample_now api c pid (period m) (arch m) (s_counters ?old)"
  have nth: "unat (b_num_samples b) < length (b_samples b)" using wf num by (simp add: wf_buffer_def)
  then have len: "length (s_counters ?slot) = 6" using wf by (simp add: wf_buffer_def wf_sample_def)
  have same: "arch m1 = arch m" "period m1 = period m" "shutdown m1 = shutdown m" using 1(5) by (simp_all add: same_state_def)
  obtain hw' where hw': "fault_fold (read_counter api c) [0..<num_ctrs api (arch m)] (?slot, arch m) = Inr (?s, hw')"
    "ok hw'" "num_ctrs api hw' = num_ctrs api (arch m)" "running hw' = running (arch m)"
    using read_counters_ok[OF hw len few[OF hw], of c] by (auto simp: sample_now_def)
  have wfs: "wf_sample ?s" by simp
  obtain m' fs' where f: "finish_sample c a (put_sample b ?s) (m1\<lparr>k_heap := (k_heap m1)(a \<mapsto> put_sample b ?s), arch := hw'\<rparr>) = Inr m'"
    "kmod_rep n m' es1 fs' {}" "arch m' = hw'" "period m' = period m1" "shutdown m' = shutdown m1"
    "missed_attr m' = missed_attr m1" "\<forall>d < n. in_module m' fs' d = in_module m1 fs d @ (if d = c then [?s] else [])"
    using finish_sample_ok[OF 1(2,3) c b wfs, of hw'] by blast
  have "gatherSample api c pid m = Inr m'"
    using 1(1) b nth hw'(1) f(1) same by (simp add: gatherSample_def Let_def put_sample_def finish_sample_def)
  with f hw' same 1(4,6) show ?thesis
    by (intro exI[of _ m'] exI[of _ es1] exI[of _ fs']) (simp add: slot)
qed

end

end
