(* ===== verification/Kernel_Switch.thy ===== *)
theory Kernel_Switch
  imports Kernel_Sampling
begin

text \<open>
  Switching the sampling on and off through the \<open>status\<close> attribute: every processor is started
  or stopped; starting takes the half-filled buffers back, whose samples are thrown away.
\<close>

section \<open>Whole buffers\<close>

text \<open>The samples that fill whole buffers: what a restart keeps.\<close>

definition whole :: "sample list \<Rightarrow> sample list" where
  "whole ss = take (length ss div BUFFER_ENTRIES * BUFFER_ENTRIES) ss"

lemma whole_append:
  assumes "BUFFER_ENTRIES dvd length xs"
  shows "whole (xs @ ys) = xs @ whole ys"
proof -
  obtain k where k: "length xs = BUFFER_ENTRIES * k" using assms by (auto simp: dvd_def)
  have "0 < BUFFER_ENTRIES" by (simp add: BUFFER_ENTRIES_eq)
  then have "(length xs + length ys) div BUFFER_ENTRIES = k + length ys div BUFFER_ENTRIES"
    unfolding k by simp
  then show ?thesis by (simp add: whole_def k algebra_simps)
qed

lemma whole_short: "length ys < BUFFER_ENTRIES \<Longrightarrow> whole ys = []"
  by (simp add: whole_def)

lemma length_filled: "wf_buffer b \<Longrightarrow> unat (b_num_samples b) \<le> BUFFER_ENTRIES \<Longrightarrow> length (filled b) = unat (b_num_samples b)"
  by (simp add: filled_def wf_buffer_def)

lemma whole_in_module:
  assumes r: "kmod_rep n m es fs L"
  shows "whole (in_module m fs c) = concat (map (\<lambda>a. part_of c (content (k_heap m) a)) fs)"
proof -
  have c: "contents_ok n (lbuffer m) (k_heap m) fs" and live: "\<forall>a \<in> set fs. a \<in> dom (k_heap m)" and
    lb: "\<forall>a. lbuffer m c = Some a \<longrightarrow> a \<in> dom (k_heap m)"
    using r by (auto simp: kmod_rep_def ran_def)
  have "BUFFER_ENTRIES dvd length (part_of c (content (k_heap m) a))" if "a \<in> set fs" for a
    using c live that length_filled[of "content (k_heap m) a"] unfolding contents_ok_def part_of_def by simp
  then have "BUFFER_ENTRIES dvd length (concat (map (\<lambda>a. part_of c (content (k_heap m) a)) fs))"
    by (induction fs) auto
  moreover have "length (cur (k_heap m) (lbuffer m) c) < BUFFER_ENTRIES"
  proof (cases "lbuffer m c")
    case None
    then show ?thesis by (simp add: cur_def BUFFER_ENTRIES_eq)
  next
    case (Some a)
    then have "unat (b_num_samples (content (k_heap m) a)) < BUFFER_ENTRIES" "wf_buffer (content (k_heap m) a)"
      using c lb unfolding contents_ok_def by auto
    with Some length_filled[of "content (k_heap m) a"] show ?thesis by (simp add: cur_def)
  qed
  ultimately show ?thesis unfolding in_module_def by (simp add: whole_append whole_short)
qed

section \<open>Switching on and off\<close>

text \<open>Giving the current buffer back while the processor still points to it.\<close>

lemma append_current:
  assumes r: "kmod_rep n m es fs {}" and a: "lbuffer m c = Some a"
  shows "\<exists>m1. append_empty (Some a) m = Inr m1 \<and> kmod_rep n (m1\<lparr>lbuffer := (lbuffer m)(c := None)\<rparr>) (es @ [a]) fs {} \<and>
     lbuffer m1 = lbuffer m \<and> arch m1 = arch m \<and> shutdown m1 = shutdown m \<and> period m1 = period m \<and>
     content (k_heap m1) = content (k_heap m)"
proof -
  let ?lb = "(lbuffer m)(c := None)"
  obtain m2 where 2: "append_empty (Some a) (m\<lparr>lbuffer := ?lb\<rparr>) = Inr m2" "kmod_rep n m2 (es @ [a]) fs {}"
    "moved (m\<lparr>lbuffer := ?lb\<rparr>) m2"
    using append_empty_ok[OF release(1)[OF r a]] by auto
  then obtain m1 where m1: "append_empty (Some a) m = Inr m1" "m2 = m1\<lparr>lbuffer := ?lb\<rparr>"
    unfolding append_empty_lbuffer by (auto elim!: fault_bind_InrE)
  have "lbuffer m1 = lbuffer m" using m1(1) by (auto simp: append_empty_def elim!: fault_bind_InrE)
  with m1 2(2) moved_fields[OF 2(3)] show ?thesis by (intro exI[of _ m1]) simp
qed

context pmu_arch
begin

lemma startCtrs_ok:
  assumes r: "kmod_rep n m es fs {}" and hw: "ok (arch m)"
  shows "\<exists>m' es'. startCtrs api c m = Inr m' \<and> kmod_rep n m' es' fs {} \<and> ok (arch m') \<and>
     running (arch m') = (running (arch m))(c := True) \<and> lbuffer m' = (lbuffer m)(c := None) \<and>
     shutdown m' = shutdown m \<and> period m' = period m \<and> content (k_heap m') = content (k_heap m)"
proof -
  have "\<exists>m1 es'. (if lbuffer m c \<noteq> None then append_empty (lbuffer m c) m else Inr m) = Inr m1 \<and>
      kmod_rep n (m1\<lparr>lbuffer := (lbuffer m1)(c := None)\<rparr>) es' fs {} \<and> lbuffer m1 = lbuffer m \<and>
      arch m1 = arch m \<and> shutdown m1 = shutdown m \<and> period m1 = period m \<and> content (k_heap m1) = content (k_heap m)"
  proof (cases "lbuffer m c")
    case None
    then have "m\<lparr>lbuffer := (lbuffer m)(c := None)\<rparr> = m" by (simp add: fun_upd_idem)
    with None r show ?thesis by (intro exI[of _ m] exI[of _ es]) simp
  next
    case (Some a)
    with append_current[OF r Some] show ?thesis by auto
  qed
  then obtain m1 es' where
    1: "(if lbuffer m c \<noteq> None then append_empty (lbuffer m c) m else Inr m) = Inr m1"
      "kmod_rep n (m1\<lparr>lbuffer := (lbuffer m1)(c := None)\<rparr>) es' fs {}" "lbuffer m1 = lbuffer m"
      "arch m1 = arch m" "shutdown m1 = shutdown m" "period m1 = period m" "content (k_heap m1) = content (k_heap m)" by blast
  let ?m2 = "m1\<lparr>lbuffer := (lbuffer m1)(c := None)\<rparr>"
  obtain hw' where h: "startCtrsLocal api c (cfgs ?m2) (period ?m2) (arch ?m2) = Inr hw'" "ok hw'"
    "running hw' = (running (arch m))(c := True)"
    using start_ok[OF hw, of "cfgs ?m2" c "period ?m2"] 1(4) by (auto simp: cfgs_def)
  have "startCtrs api c m = Inr (?m2\<lparr>arch := hw'\<rparr>)"
    using 1(1) h(1) by (simp add: startCtrs_def Let_def)
  with 1 h show ?thesis by (intro exI[of _ "?m2\<lparr>arch := hw'\<rparr>"] exI[of _ es']) simp
qed

lemma start_all:
  assumes r: "kmod_rep n m es fs {}" and hw: "ok (arch m)"
  shows "\<exists>m' es'. on_each_cpu k (startCtrs api) m = Inr m' \<and> kmod_rep n m' es' fs {} \<and> ok (arch m') \<and>
     (\<forall>c. running (arch m') c \<longleftrightarrow> c < k \<or> running (arch m) c) \<and>
     (\<forall>c. lbuffer m' c = (if c < k then None else lbuffer m c)) \<and>
     shutdown m' = shutdown m \<and> period m' = period m \<and> content (k_heap m') = content (k_heap m)"
proof (induction k)
  case 0
  with assms show ?case by (auto simp: on_each_cpu_def)
next
  case (Suc k)
  then obtain m1 es1 where 1: "on_each_cpu k (startCtrs api) m = Inr m1" "kmod_rep n m1 es1 fs {}" "ok (arch m1)"
    "\<forall>c. running (arch m1) c \<longleftrightarrow> c < k \<or> running (arch m) c" "\<forall>c. lbuffer m1 c = (if c < k then None else lbuffer m c)"
    "shutdown m1 = shutdown m" "period m1 = period m" "content (k_heap m1) = content (k_heap m)" by blast
  from startCtrs_ok[OF 1(2,3), of k] obtain m2 es2 where 2: "startCtrs api k m1 = Inr m2" "kmod_rep n m2 es2 fs {}" "ok (arch m2)"
    "running (arch m2) = (running (arch m1))(k := True)" "lbuffer m2 = (lbuffer m1)(k := None)"
    "shutdown m2 = shutdown m1" "period m2 = period m1" "content (k_heap m2) = content (k_heap m1)" by blast
  have "on_each_cpu (Suc k) (startCtrs api) m = Inr m2"
    using 1(1) 2(1) by (simp add: on_each_cpu_def fault_fold_append)
  moreover have "running (arch m2) c \<longleftrightarrow> c < Suc k \<or> running (arch m) c" for c
    using spec[OF 1(4), of c] unfolding 2(4) by (cases "c = k") (simp_all add: less_Suc_eq)
  then have "\<forall>c. running (arch m2) c \<longleftrightarrow> c < Suc k \<or> running (arch m) c" by (rule allI)
  moreover have "\<forall>c. lbuffer m2 c = (if c < Suc k then None else lbuffer m c)" using 1(5) 2(5) by auto
  ultimately show ?case using 1(6-8) 2 by (intro exI[of _ m2] exI[of _ es2]) simp
qed

lemma stop_all:
  assumes "ok (arch m)"
  shows "\<exists>hw. on_each_cpu k (stopCtrs api) m = Inr (m\<lparr>arch := hw\<rparr>) \<and> ok hw \<and>
     (\<forall>c. running hw c \<longleftrightarrow> \<not> c < k \<and> running (arch m) c)"
proof (induction k)
  case 0
  have "m = m\<lparr>arch := arch m\<rparr>" by simp
  with assms show ?case by (intro exI[of _ "arch m"]) (simp add: on_each_cpu_def)
next
  case (Suc k)
  then obtain hw where 1: "on_each_cpu k (stopCtrs api) m = Inr (m\<lparr>arch := hw\<rparr>)" "ok hw"
    "\<forall>c. running hw c \<longleftrightarrow> \<not> c < k \<and> running (arch m) c" by blast
  let ?hw = "stopCtrsLocal api k hw"
  have 2: "ok ?hw" "running ?hw = (running hw)(k := False)" using stop_ok[OF 1(2), of k] by auto
  have "running ?hw c \<longleftrightarrow> \<not> c < Suc k \<and> running (arch m) c" for c
    using spec[OF 1(3), of c] unfolding 2(2) by (cases "c = k") (simp_all add: less_Suc_eq)
  moreover have "on_each_cpu (Suc k) (stopCtrs api) m = Inr (m\<lparr>arch := ?hw\<rparr>)"
    using 1(1) by (simp add: on_each_cpu_def fault_fold_append stopCtrs_def)
  ultimately show ?case using 2(1) by blast
qed

lemma stopAll_ok:
  assumes "ok (arch m)"
  shows "\<exists>hw. stopAll api n m = Inr (wake_up_all (m\<lparr>shutdown := 2, arch := hw\<rparr>)) \<and> ok hw \<and>
     (\<forall>c. running hw c \<longleftrightarrow> \<not> c < n \<and> running (arch m) c)"
proof -
  obtain hw where "on_each_cpu n (stopCtrs api) (m\<lparr>shutdown := 1\<rparr>) = Inr (m\<lparr>shutdown := 1, arch := hw\<rparr>)" "ok hw"
    "\<forall>c. running hw c \<longleftrightarrow> \<not> c < n \<and> running (arch m) c"
    using stop_all[of "m\<lparr>shutdown := 1\<rparr>" n] assms by auto
  then show ?thesis
    using deregister_ok[of hw] by (intro exI[of _ "deregister_interrupt api hw"]) (simp add: stopAll_def)
qed

text \<open>Writing 1 to the status attribute: sampling on every processor, at a period that is not too short.\<close>

lemma status_on:
  assumes r: "kmod_rep n m es fs {}" and hw: "ok (arch m)" and s: "status_attr m = 1"
  shows "\<exists>m' es'. process_status_update api n m = Inr m' \<and> kmod_rep n m' es' fs {} \<and> ok (arch m') \<and>
     shutdown m' = 0 \<and> period m' = ucast (max (period_attr m) MIN_PERIOD) \<and> (\<forall>c < n. running (arch m') c) \<and>
     (\<forall>c. in_module m' fs c = concat (map (\<lambda>a. part_of c (content (k_heap m) a)) fs))"
proof -
  let ?m = "if period_attr m < MIN_PERIOD then m\<lparr>period_attr := MIN_PERIOD\<rparr> else m"
  let ?m1 = "?m\<lparr>period := ucast (period_attr ?m), shutdown := 0, arch := register_interrupt api (arch ?m)\<rparr>"
  have r1: "kmod_rep n ?m1 es fs {}" using r by simp
  have hw1: "ok (arch ?m1)" using register_ok[OF hw] by simp
  from start_all[OF r1 hw1, of n] obtain m' es' where
    1: "on_each_cpu n (startCtrs api) ?m1 = Inr m'" "kmod_rep n m' es' fs {}" "ok (arch m')"
      "\<forall>c. running (arch m') c \<longleftrightarrow> c < n \<or> running (arch ?m1) c"
      "\<forall>c. lbuffer m' c = (if c < n then None else lbuffer ?m1 c)" "shutdown m' = shutdown ?m1" "period m' = period ?m1"
      "content (k_heap m') = content (k_heap ?m1)" by blast
  have "process_status_update api n m = Inr m'" using s 1(1) by (simp add: process_status_update_def Let_def)
  moreover have "period m' = ucast (max (period_attr m) MIN_PERIOD)" using 1(7) by (cases "period_attr m < MIN_PERIOD") (auto simp: max_def)
  moreover have "lbuffer m' c = None" for c
    using 1(5) r by (cases "c < n") (auto simp: kmod_rep_def owned_def)
  then have "in_module m' fs c = concat (map (\<lambda>a. part_of c (content (k_heap m) a)) fs)" for c
    using 1(8) by (simp add: in_module_def cur_def)
  ultimately show ?thesis using 1(2,3,4,6) by (intro exI[of _ m'] exI[of _ es']) simp
qed

lemma status_off:
  assumes r: "kmod_rep n m es fs {}" and hw: "ok (arch m)" and s: "status_attr m = 0"
  shows "\<exists>m'. process_status_update api n m = Inr m' \<and> kmod_rep n m' es fs {} \<and> ok (arch m') \<and>
     shutdown m' = 2 \<and> (\<forall>c < n. \<not> running (arch m') c) \<and> (\<forall>c. in_module m' fs c = in_module m fs c)"
  using stopAll_ok[OF hw, of n] r s by (auto simp: process_status_update_def)

text \<open>Writing 2 dumps the registers of every processor.\<close>

lemma dump_all:
  assumes "ok (arch m)"
  shows "\<exists>hw. on_each_cpu k (dumpCtrs api) m = Inr (m\<lparr>arch := hw\<rparr>) \<and> ok hw \<and> running hw = running (arch m)"
proof (induction k)
  case 0
  have "m = m\<lparr>arch := arch m\<rparr>" by simp
  with assms show ?case by (intro exI[of _ "arch m"]) (simp add: on_each_cpu_def)
next
  case (Suc k)
  then obtain hw where 1: "on_each_cpu k (dumpCtrs api) m = Inr (m\<lparr>arch := hw\<rparr>)" "ok hw" "running hw = running (arch m)" by blast
  then have "on_each_cpu (Suc k) (dumpCtrs api) m = Inr (m\<lparr>arch := dump_regs api k hw\<rparr>)"
    by (simp add: on_each_cpu_def fault_fold_append dumpCtrs_def)
  with dump_ok[OF 1(2), of k] 1(3) show ?case by metis
qed

text \<open>
  Any value written to \<open>status\<close>: 1 keeps the whole buffers only, every other value keeps all
  samples.
\<close>

lemma status_written:
  assumes r: "kmod_rep n m es fs {}" and hw: "ok (arch m)"
  shows "\<exists>m' es'. process_status_update api n (m\<lparr>status_attr := v\<rparr>) = Inr m' \<and> kmod_rep n m' es' fs {} \<and> ok (arch m') \<and>
     (\<forall>c. in_module m' fs c = (if v = 1 then whole (in_module m fs c) else in_module m fs c))"
proof -
  let ?m = "m\<lparr>status_attr := v\<rparr>"
  have r': "kmod_rep n ?m es fs {}" and same: "in_module ?m fs = in_module m fs"
    using r by (simp_all add: in_module_def fun_eq_iff)
  consider "v = 0" | "v = 1" | "v = 2" | "v \<noteq> 0" "v \<noteq> 1" "v \<noteq> 2" by blast
  then show ?thesis
  proof cases
    case 1
    with status_off[OF r'] hw same show ?thesis by auto
  next
    case 2
    obtain m' es' where "process_status_update api n ?m = Inr m'" "kmod_rep n m' es' fs {}" "ok (arch m')"
      "\<forall>c. in_module m' fs c = concat (map (\<lambda>a. part_of c (content (k_heap ?m) a)) fs)"
      using status_on[OF r'] hw 2 by auto
    with 2 whole_in_module[OF r] show ?thesis by auto
  next
    case 3
    obtain hw' where "on_each_cpu n (dumpCtrs api) ?m = Inr (?m\<lparr>arch := hw'\<rparr>)" "ok hw'" using dump_all[of ?m n] hw by auto
    with 3 r' same show ?thesis
      by (intro exI[of _ "?m\<lparr>arch := hw'\<rparr>"] exI[of _ es]) (simp add: process_status_update_def)
  next
    case 4
    then have "process_status_update api n ?m = Inr (?m\<lparr>status_attr := (if shutdown m = 0 then 1 else 0)\<rparr>)"
      by (simp add: process_status_update_def)
    with 4 r hw show ?thesis
      by (intro exI[of _ "?m\<lparr>status_attr := (if shutdown m = 0 then 1 else 0)\<rparr>"] exI[of _ es]) (simp add: in_module_def)
  qed
qed

end

end
