(* ===== verification/Kernel_Session.thy ===== *)
theory Kernel_Session
  imports Kernel_Switch
begin

text \<open>
  A sampling session as a transition system: interrupts on any processor, reads of the device,
  stores to the attributes and changes of the hardware in any order. Nothing that was sampled
  is repeated or reordered on its way to the reader, and nothing is lost but the half-filled
  buffers when the sampling is started again.
\<close>

section \<open>Reading\<close>

definition full_buffer :: "nat \<Rightarrow> buffer \<Rightarrow> bool" where
  "full_buffer n b \<longleftrightarrow> wf_buffer b \<and> unat (b_num_samples b) = BUFFER_ENTRIES \<and> unat (b_core b) < n"

lemma my_read_wait_none:
  "kmod_rep n m es [] L \<Longrightarrow>
   my_read_wait sig copy_ok m = Inr (if shutdown m = 2 \<or> sig then Returned 0 None else Blocks, m)"
  by (simp add: my_read_wait_def pop_nothing)

lemma my_read_wait_some:
  assumes r: "kmod_rep n m es (a # fs) {}"
  shows "\<exists>m' b. my_read_wait sig copy_ok m =
       Inr (if copy_ok then Returned 4096 (Some b) else Returned (- 22) None, m') \<and>
     kmod_rep n m' (es @ [a]) fs {} \<and> full_buffer n b \<and> b\<lparr>b_nextBuffer := None\<rparr> = content (k_heap m) a \<and> moved m m' \<and>
     (\<forall>c. in_module m (a # fs) c = part_of c b @ in_module m' fs c)"
proof -
  obtain m1 where 1: "pop_full m = Inr (Some a, m1)" "kmod_rep n m1 es fs (insert a {})" "moved m m1"
    using pop_full_ok[OF r] by blast
  obtain b where b: "k_heap m1 a = Some b" using kmod_rep_live[OF 1(2), of a] by auto
  obtain m2 where 2: "append_empty (Some a) m1 = Inr m2" "kmod_rep n m2 (es @ [a]) fs {}" "moved m1 m2"
    using append_empty_ok[OF 1(2)] by auto
  have cb: "content (k_heap m) a = b\<lparr>b_nextBuffer := None\<rparr>"
    using moved_fields(7)[OF 1(3)] content_Some[of "k_heap m1" a b, OF b] by simp
  have "full_buffer n (content (k_heap m) a)"
  proof -
    have "a \<in> dom (k_heap m)" "a \<in> set (a # fs)" using r by (auto simp: kmod_rep_def)
    with r show ?thesis unfolding full_buffer_def kmod_rep_def contents_ok_def by blast
  qed
  then have full: "full_buffer n b" unfolding cb by (simp add: full_buffer_def)
  have "my_read_wait sig copy_ok m = Inr (if copy_ok then Returned 4096 (Some b) else Returned (- 22) None, m2)"
    using 1(1) b 2(1) by (simp add: my_read_wait_def EINVAL_def sizeof_buffer_eq)
  moreover have "in_module m (a # fs) c = part_of c b @ in_module m2 fs c" for c
  proof -
    have "in_module m2 fs c = in_module m fs c"
      using in_module_moved[OF 2(3)] in_module_moved[OF 1(3)] by simp
    then show ?thesis unfolding in_module_def by (simp add: cb part_of_def)
  qed
  moreover have "moved m m2" by (rule moved_trans[OF 1(3) 2(3)])
  ultimately show ?thesis using 2(2) full cb by metis
qed

lemma my_read_wait_total: "kmod_rep n m es fs {} \<Longrightarrow> \<exists>r. my_read_wait sig copy_ok m = Inr r"
  using my_read_wait_none my_read_wait_some by (cases fs) blast+

section \<open>The session\<close>

datatype kevent = Sampled nat sample | Missed nat | Delivered buffer | Restarted | Other

definition has_buffer :: "'a kmod \<Rightarrow> nat \<Rightarrow> bool" where
  "has_buffer m c \<longleftrightarrow> lbuffer m c \<noteq> None \<or> bl_head (empty_buffers m) \<noteq> None"

text \<open>
  The interrupt handler of an architecture: \<open>irq_handler\<close> runs on a processor for the process
  \<open>pid\<close>; \<open>irq_takes\<close> says for which states of the hardware it takes a sample, \<open>irq_sees\<close> what
  it does to the hardware before it does.
\<close>

record 'a irq =
  irq_handler :: "nat \<Rightarrow> u64 \<Rightarrow> 'a kmod \<Rightarrow> fault + 'a kmod"
  irq_takes :: "nat \<Rightarrow> 'a \<Rightarrow> bool"
  irq_sees :: "nat \<Rightarrow> 'a \<Rightarrow> 'a"

text \<open>
  \<open>ok\<close> are the states the hardware can be in; between two steps it changes freely. Reads are
  those of a reader whose memory can be written; a sleeping reader goes on with the wait.
\<close>

definition scanned :: "scanner \<Rightarrow> bytes \<Rightarrow> u32 option" where
  "scanned sc buf =
     (if length buf > 2 \<and> take 2 buf = ascii ''0x'' \<and> scan_hex sc buf \<noteq> None then scan_hex sc buf else scan_dec sc buf)"

definition store_event :: "scanner \<Rightarrow> attr \<Rightarrow> bytes \<Rightarrow> kevent" where
  "store_event sc a buf = (if a = Status_attr \<and> scanned sc buf = Some 1 then Restarted else Other)"

lemma default_store_scanned:
  "default_store api n sc a buf len m =
     fault_bind (case scanned sc buf of None \<Rightarrow> Inr m | Some v \<Rightarrow> store_value api n a v m) (\<lambda>m. Inr (len, m))"
  by (auto simp: default_store_def scanned_def split: option.split)

inductive kstep :: "'a pmu_api \<Rightarrow> 'a irq \<Rightarrow> ('a \<Rightarrow> bool) \<Rightarrow> nat \<Rightarrow> 'a kmod \<Rightarrow> kevent \<Rightarrow> 'a kmod \<Rightarrow> bool"
  for api irq ok n where
  sampled: "c < n \<Longrightarrow> irq_takes irq c (arch m) \<Longrightarrow> has_buffer m c \<Longrightarrow> irq_handler irq c pid m = Inr m' \<Longrightarrow>
    kstep api irq ok n m (Sampled c (sample_now api c pid (period m) (irq_sees irq c (arch m)) (s_counters (slot m c)))) m'"
| missed: "c < n \<Longrightarrow> irq_takes irq c (arch m) \<Longrightarrow> \<not> has_buffer m c \<Longrightarrow> irq_handler irq c pid m = Inr m' \<Longrightarrow>
    kstep api irq ok n m (Missed c) m'"
| spurious: "c < n \<Longrightarrow> \<not> irq_takes irq c (arch m) \<Longrightarrow> irq_handler irq c pid m = Inr m' \<Longrightarrow> kstep api irq ok n m Other m'"
| delivered: "my_read count sig True m = Inr (Returned r (Some b), m') \<Longrightarrow> kstep api irq ok n m (Delivered b) m'"
| woken: "my_read_wait sig True m = Inr (Returned r (Some b), m') \<Longrightarrow> kstep api irq ok n m (Delivered b) m'"
| no_data: "my_read count sig True m = Inr (Returned r None, m') \<Longrightarrow> kstep api irq ok n m Other m'"
| sleeps: "my_read_wait sig True m = Inr (Blocks, m') \<Longrightarrow> kstep api irq ok n m Other m'"
| attribute: "default_store api n sc a buf len m = Inr (r, m') \<Longrightarrow> kstep api irq ok n m (store_event sc a buf) m'"
| hardware: "ok hw \<Longrightarrow> kstep api irq ok n m Other (m\<lparr>arch := hw\<rparr>)"

inductive_cases kstepE: "kstep api irq ok n m e m'"

inductive ktrace :: "'a pmu_api \<Rightarrow> 'a irq \<Rightarrow> ('a \<Rightarrow> bool) \<Rightarrow> nat \<Rightarrow> 'a kmod \<Rightarrow> kevent list \<Rightarrow> 'a kmod \<Rightarrow> bool"
  for api irq ok n where
  finished: "ktrace api irq ok n m [] m"
| step: "kstep api irq ok n m e m1 \<Longrightarrow> ktrace api irq ok n m1 es m' \<Longrightarrow> ktrace api irq ok n m (e # es) m'"

definition sampled_on :: "nat \<Rightarrow> kevent list \<Rightarrow> sample list" where
  "sampled_on c evs = concat (map (\<lambda>e. case e of Sampled d s \<Rightarrow> if d = c then [s] else [] | _ \<Rightarrow> []) evs)"

definition delivered_of :: "nat \<Rightarrow> kevent list \<Rightarrow> sample list" where
  "delivered_of c evs = concat (map (\<lambda>e. case e of Delivered b \<Rightarrow> part_of c b | _ \<Rightarrow> []) evs)"

text \<open>
  What is kept of the samples \<open>ss\<close> of a processor and those taken afterwards: everything, except
  that a restart keeps whole buffers only.
\<close>

fun kept :: "nat \<Rightarrow> sample list \<Rightarrow> kevent list \<Rightarrow> sample list" where
  "kept c ss [] = ss"
| "kept c ss (Sampled d s # evs) = kept c (if d = c then ss @ [s] else ss) evs"
| "kept c ss (Restarted # evs) = kept c (whole ss) evs"
| "kept c ss (e # evs) = kept c ss evs"

lemma history_Nil [simp]: "sampled_on c [] = []" "delivered_of c [] = []"
  by (simp_all add: sampled_on_def delivered_of_def)

lemma history_append:
  "sampled_on c (xs @ ys) = sampled_on c xs @ sampled_on c ys"
  "delivered_of c (xs @ ys) = delivered_of c xs @ delivered_of c ys"
  by (simp_all add: sampled_on_def delivered_of_def)

lemma kept_append: "kept c ss (xs @ ys) = kept c (kept c ss xs) ys"
  by (induction c ss xs rule: kept.induct) auto

lemma kept_whole:
  assumes "BUFFER_ENTRIES dvd length xs"
  shows "kept c (xs @ ss) evs = xs @ kept c ss evs"
  using assms by (induction c ss evs rule: kept.induct) (auto simp: whole_append)

lemma kept_all: "Restarted \<notin> set evs \<Longrightarrow> kept c ss evs = ss @ sampled_on c evs"
  by (induction c ss evs rule: kept.induct) (auto simp: sampled_on_def)

text \<open>The state between two steps, and what a step does to the samples of every processor.\<close>

definition session_inv :: "('a \<Rightarrow> bool) \<Rightarrow> nat \<Rightarrow> 'a kmod \<Rightarrow> addr list \<Rightarrow> addr list \<Rightarrow> bool" where
  "session_inv ok n m es fs \<longleftrightarrow> kmod_rep n m es fs {} \<and> ok (arch m) \<and> n \<le> 2 ^ 32"

definition accounts :: "nat \<Rightarrow> kevent list \<Rightarrow> (nat \<Rightarrow> sample list) \<Rightarrow> (nat \<Rightarrow> sample list) \<Rightarrow> bool" where
  "accounts n evs before after \<longleftrightarrow>
     (\<forall>c < n. delivered_of c evs @ after c = kept c (before c) evs) \<and>
     (\<forall>b. Delivered b \<in> set evs \<longrightarrow> full_buffer n b)"

lemma length_delivered:
  "\<forall>b. Delivered b \<in> set evs \<longrightarrow> full_buffer n b \<Longrightarrow> BUFFER_ENTRIES dvd length (delivered_of c evs)"
proof (induction evs)
  case Nil
  then show ?case by simp
next
  case (Cons e evs)
  have "BUFFER_ENTRIES dvd length (delivered_of c [e])"
    using Cons.prems length_filled by (cases e) (auto simp: delivered_of_def part_of_def full_buffer_def)
  with Cons history_append(2)[of c "[e]" evs] show ?case by simp
qed

lemma accounts_trans:
  assumes "accounts n [e] s0 s1" and "accounts n evs s1 s2"
  shows "accounts n (e # evs) s0 s2"
  unfolding accounts_def
proof (intro conjI allI impI)
  fix c assume c: "c < n"
  then have e: "delivered_of c [e] @ s1 c = kept c (s0 c) [e]" and s: "delivered_of c evs @ s2 c = kept c (s1 c) evs"
    using assms unfolding accounts_def by blast+
  have "BUFFER_ENTRIES dvd length (delivered_of c [e])"
    using assms(1) unfolding accounts_def by (intro length_delivered) blast
  then have "kept c (kept c (s0 c) [e]) evs = delivered_of c [e] @ delivered_of c evs @ s2 c"
    unfolding e[symmetric] s by (rule kept_whole)
  then show "delivered_of c (e # evs) @ s2 c = kept c (s0 c) (e # evs)"
    using history_append(2)[of c "[e]" evs] kept_append[of c "s0 c" "[e]" evs] by simp
next
  fix b assume "Delivered b \<in> set (e # evs)"
  with assms show "full_buffer n b" unfolding accounts_def by auto
qed

lemma has_buffer_iff: "kmod_rep n m es fs L \<Longrightarrow> has_buffer m c \<longleftrightarrow> lbuffer m c \<noteq> None \<or> es \<noteq> []"
  by (cases es) (auto simp: has_buffer_def kmod_rep_def blist_rep_def)

lemma read_session:
  assumes inv: "session_inv ok n m es fs" and r: "my_read_wait sig True m = Inr (out, m')"
  shows "\<exists>es' fs'. session_inv ok n m' es' fs' \<and>
     accounts n (case out of Returned r (Some b) \<Rightarrow> [Delivered b] | _ \<Rightarrow> [Other]) (in_module m fs) (in_module m' fs')"
proof (cases fs)
  case Nil
  have rep: "kmod_rep n m es [] {}" using inv Nil by (simp add: session_inv_def)
  have "m' = m \<and> (out = Returned 0 None \<or> out = Blocks)"
    using r unfolding my_read_wait_none[OF rep] by (auto split: if_splits)
  with inv Nil show ?thesis
    by (intro exI[of _ es] exI[of _ fs]) (auto simp: accounts_def delivered_of_def)
next
  case (Cons a gs)
  then have "kmod_rep n m es (a # gs) {}" using inv by (simp add: session_inv_def)
  from my_read_wait_some[OF this, of sig True] obtain m1 b where
    1: "my_read_wait sig True m = Inr (Returned 4096 (Some b), m1)" "kmod_rep n m1 (es @ [a]) gs {}" "full_buffer n b"
      "moved m m1" "\<forall>c. in_module m (a # gs) c = part_of c b @ in_module m1 gs c" by auto
  have "out = Returned 4096 (Some b)" "m' = m1" using r 1(1) by auto
  then show ?thesis
    using 1(2-5) inv Cons moved_fields(3)[OF 1(4)]
    by (intro exI[of _ "es @ [a]"] exI[of _ gs]) (simp add: session_inv_def accounts_def delivered_of_def)
qed

lemma quiet_session:
  assumes "session_inv ok n m es fs" and "kmod_rep n m' es fs {} = kmod_rep n m es fs {}" "ok (arch m')"
    and "\<And>c. in_module m' fs c = in_module m fs c"
  shows "\<exists>es' fs'. session_inv ok n m' es' fs' \<and> accounts n [Other] (in_module m fs) (in_module m' fs')"
  using assms by (intro exI[of _ es] exI[of _ fs]) (simp add: session_inv_def accounts_def delivered_of_def)

lemma read_cases:
  "my_read count sig True m = Inr (out, m') \<Longrightarrow>
   m' = m \<and> (\<exists>r. out = Returned r None) \<or> my_read_wait sig True m = Inr (out, m')"
  by (auto simp: my_read_def split: if_splits)

lemma arch_set_attr [simp]: "arch (set_attr_value a v m) = arch m"
  by (cases a) auto

text \<open>
  What a handler owes the module: it takes exactly one sample, or counts a missed one, or leaves
  the module's buffers as they are.
\<close>

locale pmu_irq = pmu_arch api ok running
  for api :: "'a pmu_api" and ok :: "'a \<Rightarrow> bool" and running :: "'a \<Rightarrow> nat \<Rightarrow> bool" +
  fixes irq :: "'a irq"
  assumes irq_sample: "kmod_rep n m es fs {} \<Longrightarrow> c < n \<Longrightarrow> n \<le> 2 ^ 32 \<Longrightarrow> ok (arch m) \<Longrightarrow> irq_takes irq c (arch m) \<Longrightarrow>
      lbuffer m c \<noteq> None \<or> es \<noteq> [] \<Longrightarrow>
      \<exists>m' es' fs'. irq_handler irq c pid m = Inr m' \<and> kmod_rep n m' es' fs' {} \<and> ok (arch m') \<and>
        (\<forall>d < n. in_module m' fs' d = in_module m fs d @
           (if d = c then [sample_now api c pid (period m) (irq_sees irq c (arch m)) (s_counters (slot m c))] else []))"
    and irq_missed: "kmod_rep n m [] fs {} \<Longrightarrow> ok (arch m) \<Longrightarrow> irq_takes irq c (arch m) \<Longrightarrow> lbuffer m c = None \<Longrightarrow>
      \<exists>m'. irq_handler irq c pid m = Inr m' \<and> kmod_rep n m' [] fs {} \<and> ok (arch m') \<and>
        missed_attr m' = missed_attr m + 1 \<and> (\<forall>d. in_module m' fs d = in_module m fs d)"
    and irq_spurious: "kmod_rep n m es fs {} \<Longrightarrow> ok (arch m) \<Longrightarrow> \<not> irq_takes irq c (arch m) \<Longrightarrow>
      \<exists>m'. irq_handler irq c pid m = Inr m' \<and> kmod_rep n m' es fs {} \<and> ok (arch m') \<and>
        (\<forall>d. in_module m' fs d = in_module m fs d)"
begin

lemma irq_cases:
  assumes inv: "session_inv ok n m es fs" and c: "c < n"
  shows "\<exists>m' es' fs'. irq_handler irq c pid m = Inr m' \<and> session_inv ok n m' es' fs' \<and>
     accounts n [if \<not> irq_takes irq c (arch m) then Other else if has_buffer m c
       then Sampled c (sample_now api c pid (period m) (irq_sees irq c (arch m)) (s_counters (slot m c))) else Missed c]
       (in_module m fs) (in_module m' fs')"
proof -
  have rep: "kmod_rep n m es fs {}" "n \<le> 2 ^ 32" "ok (arch m)" using inv by (simp_all add: session_inv_def)
  consider (spurious) "\<not> irq_takes irq c (arch m)" | (sampled) "irq_takes irq c (arch m)" "has_buffer m c"
    | (missed) "irq_takes irq c (arch m)" "\<not> has_buffer m c" by blast
  then show ?thesis
  proof cases
    case spurious
    from irq_spurious[OF rep(1,3) this, of pid] spurious rep(2) show ?thesis
      by (auto simp: session_inv_def accounts_def delivered_of_def)
  next
    case sampled
    then have "lbuffer m c \<noteq> None \<or> es \<noteq> []" using has_buffer_iff[OF rep(1)] by blast
    from irq_sample[OF rep(1) c rep(2,3) sampled(1) this, of pid] obtain m' es' fs' where
      1: "irq_handler irq c pid m = Inr m'" "kmod_rep n m' es' fs' {}" "ok (arch m')"
        "\<forall>d < n. in_module m' fs' d = in_module m fs d @
           (if d = c then [sample_now api c pid (period m) (irq_sees irq c (arch m)) (s_counters (slot m c))] else [])" by blast
    with sampled rep(2) show ?thesis
      by (intro exI[of _ m'] exI[of _ es'] exI[of _ fs']) (simp add: session_inv_def accounts_def delivered_of_def)
  next
    case missed
    then have e: "lbuffer m c = None" "es = []" using has_buffer_iff[OF rep(1)] by auto
    from irq_missed[OF rep(1)[unfolded e(2)] rep(3) missed(1) e(1), of pid] missed rep(2) show ?thesis
      by (auto simp: session_inv_def accounts_def delivered_of_def)
  qed
qed

lemma kstep_session:
  assumes s: "kstep api irq ok n m e m'" and inv: "session_inv ok n m es fs"
  shows "\<exists>es' fs'. session_inv ok n m' es' fs' \<and> accounts n [e] (in_module m fs) (in_module m' fs')"
  using s
proof (cases rule: kstep.cases)
  case (sampled c pid)
  from irq_cases[OF inv sampled(2), of pid] sampled show ?thesis by auto
next
  case (missed c pid)
  from irq_cases[OF inv missed(2), of pid] missed show ?thesis by auto
next
  case (spurious c pid)
  from irq_cases[OF inv spurious(2), of pid] spurious show ?thesis by auto
next
  case (delivered count sig r b)
  then have "my_read_wait sig True m = Inr (Returned r (Some b), m')" using read_cases by blast
  from read_session[OF inv this] delivered(1) show ?thesis by simp
next
  case (woken sig r b)
  from read_session[OF inv woken(2)] woken(1) show ?thesis by simp
next
  case (no_data count sig r)
  from read_cases[OF no_data(2)] show ?thesis
  proof
    assume "m' = m \<and> (\<exists>r'. Returned r None = Returned r' None)"
    with quiet_session[OF inv, of m'] inv no_data(1) show ?thesis by (auto simp: session_inv_def)
  next
    assume "my_read_wait sig True m = Inr (Returned r None, m')"
    from read_session[OF inv this] no_data(1) show ?thesis by simp
  qed
next
  case (sleeps sig)
  from read_session[OF inv sleeps(2)] sleeps(1) show ?thesis by simp
next
  case (attribute sc a buf len r)
  have rep: "kmod_rep n m es fs {}" "n \<le> 2 ^ 32" "ok (arch m)" using inv by (simp_all add: session_inv_def)
  obtain v where v: "scanned sc buf = None \<and> m' = m \<or> scanned sc buf = Some v \<and> store_value api n a v m = Inr m'"
    using attribute(2) unfolding default_store_scanned by (auto split: option.splits elim!: fault_bind_InrE)
  show ?thesis
  proof (cases "a = Status_attr \<and> scanned sc buf = Some v")
    case True
    obtain m1 es1 where 1: "process_status_update api n (m\<lparr>status_attr := v\<rparr>) = Inr m1" "kmod_rep n m1 es1 fs {}" "ok (arch m1)"
      "\<forall>c. in_module m1 fs c = (if v = 1 then whole (in_module m fs c) else in_module m fs c)"
      using status_written[OF rep(1,3), of v] by blast
    have "m1 = m'" using v 1(1) True by (simp add: store_value_def)
    with 1 True rep(2) attribute(1) show ?thesis
      by (intro exI[of _ es1] exI[of _ fs]) (simp add: session_inv_def accounts_def delivered_of_def store_event_def)
  next
    case False
    then have "m' = m \<or> (\<exists>v. m' = set_attr_value a v m)" "store_event sc a buf = Other"
      using v by (auto simp: store_value_def store_event_def)
    then show ?thesis using quiet_session[OF inv, of m'] inv attribute(1) by (auto simp: session_inv_def)
  qed
next
  case (hardware hw)
  with quiet_session[OF inv, of m'] inv show ?thesis by (simp add: session_inv_def)
qed

lemma ktrace_session:
  assumes "ktrace api irq ok n m evs m'" and "session_inv ok n m es fs"
  shows "\<exists>es' fs'. session_inv ok n m' es' fs' \<and> accounts n evs (in_module m fs) (in_module m' fs')"
  using assms
proof (induction arbitrary: es fs rule: ktrace.induct)
  case (finished m)
  then show ?case by (intro exI[of _ es] exI[of _ fs]) (simp add: accounts_def)
next
  case (step m e m1 evs m')
  from kstep_session[OF step.hyps(1) step.prems] obtain es1 fs1 where
    1: "session_inv ok n m1 es1 fs1" "accounts n [e] (in_module m fs) (in_module m1 fs1)" by blast
  from step.IH[OF 1(1)] obtain es2 fs2 where
    "session_inv ok n m' es2 fs2" "accounts n evs (in_module m1 fs1) (in_module m' fs2)" by blast
  with accounts_trans[OF 1(2)] show ?case by blast
qed

end

end
