(* ===== verification/Kernel_Lifecycle.thy ===== *)
theory Kernel_Lifecycle
  imports Kernel_Session
begin

text \<open>
  Loading and unloading: the buffers allocated at loading are all
  accounted for at any time, and unloading gives every one of them back exactly once.
\<close>

section \<open>Loading\<close>

definition allocated :: "init_env \<Rightarrow> nat \<Rightarrow> addr list" where
  "allocated ie k = concat (map (\<lambda>i. case ie_kzalloc ie i of None \<Rightarrow> [] | Some a \<Rightarrow> [a]) [0..<k])"

text \<open>Live allocations are distinct.\<close>

definition allocates :: "init_env \<Rightarrow> bool" where
  "allocates ie \<longleftrightarrow> distinct (allocated ie 8)"

lemma allocated_Suc: "allocated ie (Suc k) = allocated ie k @ (case ie_kzalloc ie k of None \<Rightarrow> [] | Some a \<Rightarrow> [a])"
  by (simp add: allocated_def)

lemma allocated_prefix: "k \<le> j \<Longrightarrow> \<exists>xs. allocated ie j = allocated ie k @ xs"
proof (induction j)
  case 0
  then show ?case by simp
next
  case (Suc j)
  then show ?case by (cases "k = Suc j") (auto simp: allocated_Suc)
qed

lemma wf_zero_buffer [simp]: "wf_buffer zero_buffer"
  by (simp add: wf_buffer_def zero_buffer_def)

lemma new_buffer:
  assumes r: "kmod_rep n m es fs L" and a: "k_heap m a = None"
  shows "kmod_rep n (m\<lparr>k_heap := (k_heap m)(a \<mapsto> zero_buffer)\<rparr>) es fs (insert a L)" and "a \<notin> L"
proof -
  have na: "a \<notin> set es" "a \<notin> set fs" "a \<notin> ran (lbuffer m)" "a \<notin> L"
    using r a unfolding kmod_rep_def by blast+
  then show "a \<notin> L" by simp
  have nl: "lbuffer m c \<noteq> Some a" for c using na(3) by (auto simp: ran_def)
  have "blist_rep ((k_heap m)(a \<mapsto> zero_buffer)) (empty_buffers m) es" "blist_rep ((k_heap m)(a \<mapsto> zero_buffer)) (full_buffers m) fs"
    using r na by (auto simp: kmod_rep_def intro!: blist_rep_frame[of "k_heap m"])
  moreover have "contents_ok n (lbuffer m) ((k_heap m)(a \<mapsto> zero_buffer)) fs"
    using r na nl unfolding kmod_rep_def contents_ok_def by (auto simp: content_upd)
  moreover have "owned n (lbuffer m) es fs (insert a L)"
    using r na unfolding kmod_rep_def owned_def by auto
  ultimately show "kmod_rep n (m\<lparr>k_heap := (k_heap m)(a \<mapsto> zero_buffer)\<rparr>) es fs (insert a L)"
    using r unfolding kmod_rep_def by simp
qed

definition loading :: "init_env \<Rightarrow> nat \<Rightarrow> nat \<Rightarrow> 'a kmod \<Rightarrow> 'a kmod \<Rightarrow> bool" where
  "loading ie n k m m' \<longleftrightarrow> kmod_rep n m' (allocated ie k) [] {} \<and> lbuffer m' = (\<lambda>_. None) \<and>
     arch m' = arch m \<and> shutdown m' = shutdown m \<and> period m' = period m \<and> missed_attr m' = missed_attr m \<and> mykobj m' = mykobj m"

lemma kmod_rep_dom: "kmod_rep n m es fs L \<Longrightarrow> dom (k_heap m) = set es \<union> set fs \<union> ran (lbuffer m) \<union> L"
  by (simp add: kmod_rep_def)

lemma alloc_buffers_ok:
  assumes ie: "allocates ie" and "loading ie n 0 m m" and "k \<le> 8"
  shows "\<exists>m'. fault_fold (alloc_buffer ie) [0..<k] m = Inr m' \<and> loading ie n k m m'"
  using assms(3)
proof (induction k)
  case 0
  with assms(2) show ?case by simp
next
  case (Suc k)
  then obtain m1 where 1: "fault_fold (alloc_buffer ie) [0..<k] m = Inr m1" "loading ie n k m m1" by auto
  have rep: "kmod_rep n m1 (allocated ie k) [] {}" and lb: "lbuffer m1 = (\<lambda>_. None)" using 1(2) by (simp_all add: loading_def)
  show ?case
  proof (cases "ie_kzalloc ie k")
    case None
    then have "alloc_buffer ie k m1 = Inr m1" by (simp add: alloc_buffer_def append_empty_def append_blist_def)
    with 1 None show ?thesis by (simp add: fault_fold_append loading_def allocated_Suc)
  next
    case (Some a)
    let ?m = "m1\<lparr>k_heap := (k_heap m1)(a \<mapsto> zero_buffer)\<rparr>"
    have "a \<notin> set (allocated ie k)"
      using ie Some allocated_prefix[of "Suc k" 8 ie] Suc.prems by (auto simp: allocates_def allocated_Suc)
    then have "k_heap m1 a = None" using kmod_rep_dom[OF rep] lb by (auto simp: ran_def)
    from new_buffer[OF rep this] obtain m2 where
      2: "append_empty (Some a) ?m = Inr m2" "kmod_rep n m2 (allocated ie k @ [a]) [] {}" "moved ?m m2"
      using append_empty_ok[of n ?m "allocated ie k" "[]" a "{}"] by auto
    have "alloc_buffer ie k m1 = Inr m2" using Some 2(1) by (simp add: alloc_buffer_def)
    moreover have "loading ie n (Suc k) m m2"
      using 1(2) 2(2) Some moved_fields[OF 2(3)] moved_same[OF 2(3), of mykobj] by (simp add: loading_def allocated_Suc)
    ultimately show ?thesis using 1(1) by (simp add: fault_fold_append)
  qed
qed

lemma loading_start:
  "loading ie n 0 (m\<lparr>k_heap := (\<lambda>_. None), lbuffer := (\<lambda>_. None), empty_buffers := init_blist, full_buffers := init_blist\<rparr>)
     (m\<lparr>k_heap := (\<lambda>_. None), lbuffer := (\<lambda>_. None), empty_buffers := init_blist, full_buffers := init_blist\<rparr>)"
  by (simp add: loading_def kmod_rep_def owned_def contents_ok_def allocated_def)

lemma init_module_ok:
  assumes "initialize_arch api hw = Some (0, hw')" and "allocates ie"
  shows "\<exists>m. init_module api ie (kmod0 hw) = Some (Inr (0, m)) \<and> kmod_rep n m (allocated ie 8) [] {} \<and>
     lbuffer m = (\<lambda>_. None) \<and> arch m = hw' \<and> shutdown m = 0 \<and> missed_attr m = 0 \<and> (\<forall>c. in_module m [] c = []) \<and>
     (mykobj m \<longleftrightarrow> ie_kobj_alloc ie \<and> ie_kobj_add ie)"
proof -
  obtain err m0 where s: "init_sysfs_entries (ie_kobj_alloc ie) (ie_kobj_add ie)
    ((kmod0 hw)\<lparr>arch := hw', empty_buffers := init_blist, full_buffers := init_blist\<rparr>) = (err, m0)" by fastforce
  then have "m0 = snd (init_sysfs_entries (ie_kobj_alloc ie) (ie_kobj_add ie)
    ((kmod0 hw)\<lparr>arch := hw', empty_buffers := init_blist, full_buffers := init_blist\<rparr>))" by simp
  then have "loading ie n 0 m0 m0" and f: "arch m0 = hw'" "shutdown m0 = 0" "missed_attr m0 = 0"
    "mykobj m0 \<longleftrightarrow> ie_kobj_alloc ie \<and> ie_kobj_add ie"
    by (simp_all add: init_sysfs_entries_def kmod0_def loading_def kmod_rep_def owned_def contents_ok_def allocated_def Let_def)
  from alloc_buffers_ok[OF assms(2) this(1), of 8] obtain m where
    1: "fault_fold (alloc_buffer ie) [0..<8] m0 = Inr m" "loading ie n 8 m0 m" by auto
  have "init_module api ie (kmod0 hw) = Some (Inr (0, m))"
    using assms(1) 1(1) s by (simp add: init_module_def kmod0_def Let_def)
  moreover note f
  ultimately show ?thesis
    using 1(2) by (simp add: loading_def in_module_def cur_def)
qed

section \<open>Unloading\<close>

text \<open>
  Ownership without the contents: what is left when half-filled buffers are flushed. \<open>L\<close> holds
  the buffers in the hands of readers that are still copying.
\<close>

definition kmod_own :: "nat \<Rightarrow> 'a kmod \<Rightarrow> addr list \<Rightarrow> addr list \<Rightarrow> addr set \<Rightarrow> bool" where
  "kmod_own n m es fs L \<longleftrightarrow>
     blist_rep (k_heap m) (empty_buffers m) es \<and> blist_rep (k_heap m) (full_buffers m) fs \<and>
     owned n (lbuffer m) es fs L \<and> dom (k_heap m) = set es \<union> set fs \<union> ran (lbuffer m) \<union> L"

lemma kmod_rep_own: "kmod_rep n m es fs L \<Longrightarrow> kmod_own n m es fs L"
  by (simp add: kmod_rep_def kmod_own_def)

lemma free_all_ok:
  "blist_rep h l as \<Longrightarrow>
   \<exists>l' h'. free_all l h = Some (Inr (l', h')) \<and> (\<forall>x. h' x = (if x \<in> set as then None else h x))"
proof (induction as arbitrary: l h)
  case Nil
  from bq.get_empty[OF this] show ?case by (subst free_all.simps) auto
next
  case (Cons a as)
  obtain l1 h1 where 1: "deq l h = Inr (Some a, l1, h1)" "blist_rep h1 l1 as" "only_links h h1 {a}"
    using bq.get_ok[OF Cons.prems] by blast
  have a: "a \<notin> set as" "h a \<noteq> None"
    using bq.rep_distinct[OF Cons.prems] blist_rep_live[OF Cons.prems, of a] by auto
  then have "h1 a \<noteq> None" using dom_payload[of h1 h] 1(3) by (auto simp: only_links_def dom_def)
  then have f: "kfree a h1 = Inr (h1(a := None))" by (auto simp: kfree_def)
  have "blist_rep (h1(a := None)) l1 as" using 1(2) a(1) by (auto intro: blist_rep_frame)
  from Cons.IH[OF this] obtain l2 h2 where
    2: "free_all l1 (h1(a := None)) = Some (Inr (l2, h2))" "\<forall>x. h2 x = (if x \<in> set as then None else (h1(a := None)) x)" by blast
  have "free_all l h = Some (Inr (l2, h2))" using 1(1) f 2(1) by (subst free_all.simps) simp
  moreover have "h2 x = (if x \<in> set (a # as) then None else h x)" for x
    using 2(2) 1(3) by (auto simp: only_links_def)
  ultimately show ?case by blast
qed

lemma flush_cpu_ok:
  assumes o: "kmod_own n m es fs L"
  shows "\<exists>m' fs'. flush_cpu c m = Inr m' \<and> kmod_own n m' es fs' L \<and> lbuffer m' = (lbuffer m)(c := None) \<and>
     shutdown m' = shutdown m \<and> arch m' = arch m"
proof (cases "lbuffer m c")
  case None
  with o show ?thesis by (intro exI[of _ m] exI[of _ fs]) (simp add: flush_cpu_def fun_upd_idem)
next
  case (Some a)
  have ar: "a \<in> ran (lbuffer m)" using Some by (auto simp: ran_def)
  have na: "a \<notin> set es" "a \<notin> set fs" "a \<notin> L" "k_heap m a \<noteq> None" "set es \<inter> insert a (set fs) = {}"
    using o ar by (auto simp: kmod_own_def owned_def)
  obtain l h where e: "enq (full_buffers m) a (k_heap m) = Inr (l, h)" "blist_rep h l (fs @ [a])"
    "blist_rep h (empty_buffers m) es" "payload h = payload (k_heap m)"
    using bq.put_other[of "k_heap m" "full_buffers m" fs a "empty_buffers m" es] o na by (auto simp: kmod_own_def)
  let ?m = "m\<lparr>k_heap := h, full_buffers := l, lbuffer := (lbuffer m)(c := None)\<rparr>"
  have inj: "d = c" if "lbuffer m d = Some a" for d using o Some that unfolding kmod_own_def owned_def by blast
  have ran: "ran ((lbuffer m)(c := None)) = ran (lbuffer m) - {a}"
    by (rule ran_upd_None[where lb = "lbuffer m", OF inj Some])
  have "owned n ((lbuffer m)(c := None)) es (fs @ [a]) L"
    using o na unfolding kmod_own_def owned_def ran by (auto split: if_splits)
  then have "kmod_own n ?m es (fs @ [a]) L"
    using o e(2-4) ar dom_payload[OF e(4)] unfolding kmod_own_def by (auto simp: ran)
  moreover have "flush_cpu c m = Inr ?m" using Some e(1) by (simp add: flush_cpu_def append_full_enq)
  ultimately show ?thesis by (intro exI[of _ ?m] exI[of _ "fs @ [a]"]) simp
qed

lemma flush_all:
  assumes "kmod_own n m es fs L"
  shows "\<exists>m' fs'. on_each_cpu k flush_cpu m = Inr m' \<and> kmod_own n m' es fs' L \<and>
     (\<forall>c. lbuffer m' c = (if c < k then None else lbuffer m c)) \<and> shutdown m' = shutdown m \<and> arch m' = arch m"
proof (induction k)
  case 0
  with assms show ?case by (auto simp: on_each_cpu_def)
next
  case (Suc k)
  then obtain m1 fs1 where 1: "on_each_cpu k flush_cpu m = Inr m1" "kmod_own n m1 es fs1 L"
    "\<forall>c. lbuffer m1 c = (if c < k then None else lbuffer m c)" "shutdown m1 = shutdown m" "arch m1 = arch m" by blast
  from flush_cpu_ok[OF 1(2), of k] obtain m2 fs2 where 2: "flush_cpu k m1 = Inr m2" "kmod_own n m2 es fs2 L"
    "lbuffer m2 = (lbuffer m1)(k := None)" "shutdown m2 = shutdown m1" "arch m2 = arch m1" by blast
  have "\<forall>c. lbuffer m2 c = (if c < Suc k then None else lbuffer m c)" using 1(3) 2(3) by auto
  with 1 2 show ?case by (intro exI[of _ m2] exI[of _ fs2]) (simp add: on_each_cpu_def fault_fold_append)
qed

lemma free_lists_ok:
  assumes o: "kmod_own n m es fs L" and "\<forall>c. lbuffer m c = None"
  shows "\<exists>m'. free_lists m = Some (Inr m') \<and> dom (k_heap m') = L \<and> shutdown m' = shutdown m \<and> arch m' = arch m"
proof -
  have r: "blist_rep (k_heap m) (empty_buffers m) es" "blist_rep (k_heap m) (full_buffers m) fs" "set es \<inter> set fs = {}"
    "dom (k_heap m) = set es \<union> set fs \<union> L" "L \<inter> (set es \<union> set fs) = {}"
    using assms by (auto simp: kmod_own_def owned_def ran_def)
  obtain l1 h1 where 1: "free_all (empty_buffers m) (k_heap m) = Some (Inr (l1, h1))"
    "\<forall>x. h1 x = (if x \<in> set es then None else k_heap m x)" using free_all_ok[OF r(1)] by blast
  have "blist_rep h1 (full_buffers m) fs"
    by (rule blist_rep_frame[OF r(2)]) (use 1(2) r(3) in auto)
  from free_all_ok[OF this] obtain l2 h2 where 2: "free_all (full_buffers m) h1 = Some (Inr (l2, h2))"
    "\<forall>x. h2 x = (if x \<in> set fs then None else h1 x)" by blast
  have "dom h2 = dom (k_heap m) - set es - set fs" using 1(2) 2(2) by (auto simp: dom_def)
  then have "dom h2 = L" using r(4,5) by auto
  with 1(1) 2(1) show ?thesis by (simp add: free_lists_def Let_def)
qed

context pmu_arch
begin

text \<open>
  Unloading ends, faults nowhere, stops every processor and leaves no buffer allocated but
  those in the hands of readers.
\<close>

lemma cleanup_module_ok:
  assumes r: "kmod_rep n m es fs L" and hw: "ok (arch m)"
  shows "\<exists>m'. cleanup_module api n m = Some (Inr m') \<and> dom (k_heap m') = L \<and> shutdown m' = 2 \<and>
     (\<forall>c < n. \<not> running (arch m') c)"
proof -
  obtain hw1 where 1: "stopAll api n (m\<lparr>shutdown := 1\<rparr>) = Inr (wake_up_all (m\<lparr>shutdown := 2, arch := hw1\<rparr>))" "ok hw1"
    "\<forall>c. running hw1 c \<longleftrightarrow> \<not> c < n \<and> running (arch m) c"
    using stopAll_ok[of "m\<lparr>shutdown := 1\<rparr>" n] hw by auto
  let ?m1 = "(wake_up_all (m\<lparr>shutdown := 2, arch := hw1\<rparr>))\<lparr>arch := cleanup_arch api hw1\<rparr>"
  have "kmod_own n ?m1 es fs L" by (rule kmod_rep_own) (use r in simp)
  from flush_all[OF this, of n] obtain m2 fs2 where 2: "on_each_cpu n flush_cpu ?m1 = Inr m2" "kmod_own n m2 es fs2 L"
    "\<forall>c. lbuffer m2 c = (if c < n then None else lbuffer ?m1 c)" "shutdown m2 = 2" "arch m2 = cleanup_arch api hw1" by auto
  have "\<forall>c. lbuffer m2 c = None" using 2(3) r by (auto simp: kmod_rep_def owned_def)
  from free_lists_ok[OF 2(2) this] obtain m3 where 3: "free_lists m2 = Some (Inr m3)" "dom (k_heap m3) = L"
    "shutdown m3 = shutdown m2" "arch m3 = arch m2" by blast
  have "cleanup_module api n m = Some (Inr m3)"
    using 1(1) 2(1) 3(1) by (simp add: cleanup_module_def Let_def)
  with 3 2(4,5) 1(3) cleanup_ok[OF 1(2)] show ?thesis by simp
qed

end

end
