(* ===== verification/Kernel_Run.thy ===== *)
theory Kernel_Run
  imports Kernel_Lifecycle
begin

text \<open>
  The module over its whole life, for any architecture that keeps the contract: no operation
  faults in a session, and loading, switching on, any sequence of steps and unloading account
  for every sample.
\<close>

context pmu_irq
begin

text \<open>Progress: whatever is called next, on whatever processor, it returns.\<close>

lemma session_safe:
  assumes inv: "session_inv ok n m es fs"
  shows "c < n \<Longrightarrow> \<exists>m'. irq_handler irq c pid m = Inr m'"
    and "\<exists>r. my_read count sig copy_ok m = Inr r"
    and "\<exists>m'. default_store api n sc a buf len m = Inr (len, m')"
proof -
  have r: "kmod_rep n m es fs {}" "ok (arch m)" "n \<le> 2 ^ 32" using inv by (simp_all add: session_inv_def)
  show "\<exists>m'. irq_handler irq c pid m = Inr m'" if "c < n"
    using irq_cases[OF inv that, of pid] by blast
  show "\<exists>r. my_read count sig copy_ok m = Inr r" using my_read_wait_total[OF r(1)] by (simp add: my_read_def)
  have "\<exists>m'. store_value api n a v m = Inr m'" for v
    using status_written[OF r(1,2), of v] by (cases a) (auto simp: store_value_def)
  then have "\<exists>m'. (case scanned sc buf of None \<Rightarrow> Inr m | Some v \<Rightarrow> store_value api n a v m) = Inr m'"
    by (cases "scanned sc buf") auto
  then show "\<exists>m'. default_store api n sc a buf len m = Inr (len, m')" unfolding default_store_scanned by auto
qed

lemma store_status:
  assumes "take 2 buf \<noteq> ascii ''0x''" and "scan_dec sc buf = Some v"
  shows "default_store api n sc Status_attr buf len m =
     fault_bind (process_status_update api n (m\<lparr>status_attr := v\<rparr>)) (\<lambda>m. Inr (len, m))"
  using assms by (simp add: default_store_def store_value_def)

lemma module_life:
  assumes init: "initialize_arch api hw = Some (0, hw')" "ok hw'" and ie: "allocates ie" and n: "n \<le> 2 ^ 32"
    and buf: "take 2 buf \<noteq> ascii ''0x''" "scan_dec sc buf = Some 1"
  shows "\<exists>m0 m1. init_module api ie (kmod0 hw) = Some (Inr (0, m0)) \<and>
     default_store api n sc Status_attr buf len m0 = Inr (len, m1) \<and> shutdown m1 = 0 \<and> (\<forall>c < n. running (arch m1) c) \<and>
     (\<forall>evs m2. ktrace api irq ok n m1 evs m2 \<longrightarrow>
        (\<exists>es fs. kmod_rep n m2 es fs {} \<and> accounts n evs (\<lambda>_. []) (in_module m2 fs)) \<and>
        (\<exists>m3. cleanup_module api n m2 = Some (Inr m3) \<and> k_heap m3 = (\<lambda>_. None) \<and> (\<forall>c < n. \<not> running (arch m3) c)))"
proof -
  obtain m0 where 0: "init_module api ie (kmod0 hw) = Some (Inr (0, m0))" "kmod_rep n m0 (allocated ie 8) [] {}" "arch m0 = hw'"
    using init_module_ok[where n = n, OF init(1) ie] by blast
  let ?m = "m0\<lparr>status_attr := 1\<rparr>"
  obtain m1 es where 1: "process_status_update api n ?m = Inr m1" "kmod_rep n m1 es [] {}" "ok (arch m1)" "shutdown m1 = 0"
    "\<forall>c < n. running (arch m1) c" "\<forall>c. in_module m1 [] c = []"
    using status_on[of n ?m "allocated ie 8" "[]"] 0(2,3) init(2) by auto
  have "default_store api n sc Status_attr buf len m0 = Inr (len, m1)" using store_status[OF buf] 1(1) by simp
  moreover have "session_inv ok n m1 es []" using 1(2,3) n by (simp add: session_inv_def)
  then have "(\<exists>es fs. kmod_rep n m2 es fs {} \<and> accounts n evs (\<lambda>_. []) (in_module m2 fs)) \<and>
      (\<exists>m3. cleanup_module api n m2 = Some (Inr m3) \<and> k_heap m3 = (\<lambda>_. None) \<and> (\<forall>c < n. \<not> running (arch m3) c))"
    if t: "ktrace api irq ok n m1 evs m2" for evs m2
  proof -
    obtain es2 fs2 where 2: "session_inv ok n m2 es2 fs2" "accounts n evs (in_module m1 []) (in_module m2 fs2)"
      using ktrace_session[OF t] \<open>session_inv ok n m1 es []\<close> by blast
    have "in_module m1 [] = (\<lambda>_. [])" using 1(6) by auto
    with 2 have "\<exists>es fs. kmod_rep n m2 es fs {} \<and> accounts n evs (\<lambda>_. []) (in_module m2 fs)"
      by (auto simp: session_inv_def)
    moreover have "kmod_rep n m2 es2 fs2 {}" "ok (arch m2)" using 2(1) by (simp_all add: session_inv_def)
    from cleanup_module_ok[OF this] have
      "\<exists>m3. cleanup_module api n m2 = Some (Inr m3) \<and> k_heap m3 = (\<lambda>_. None) \<and> (\<forall>c < n. \<not> running (arch m3) c)" unfolding dom_eq_empty_conv by blast
    ultimately show ?thesis by blast
  qed
  ultimately show ?thesis using 0(1) 1(4,5) by blast
qed

end

end
