(* ===== verification/Kernel_Waiting.thy ===== *)
theory Kernel_Waiting
  imports Kernel_Run
begin

text \<open>
  The wait queue of \<open>my_read\<close>. A reader that finds nothing sleeps until the next call of
  \<open>wake_up_all\<close> (or a signal), so whoever gives it something to return for has to call it. The
  contract of the module's operations, and what it gives the readers that sleep.
\<close>

section \<open>What a reader waits for\<close>

text \<open>The condition of \<open>wait_event_interruptible\<close>.\<close>

definition something_to_read :: "'a kmod \<Rightarrow> bool" where
  "something_to_read m \<longleftrightarrow> bl_head (full_buffers m) \<noteq> None \<or> shutdown m = 2"

text \<open>An operation that makes it true wakes the readers.\<close>

definition wakes_readers :: "'a kmod \<Rightarrow> 'a kmod \<Rightarrow> bool" where
  "wakes_readers m m' \<longleftrightarrow> wakes m \<le> wakes m' \<and> (something_to_read m' \<and> \<not> something_to_read m \<longrightarrow> wakes m < wakes m')"

lemma wakes_readers_refl [simp]: "wakes_readers m m"
  by (simp add: wakes_readers_def)

lemma wakes_readers_trans: "wakes_readers m m1 \<Longrightarrow> wakes_readers m1 m2 \<Longrightarrow> wakes_readers m m2"
  by (cases "something_to_read m1") (auto simp: wakes_readers_def)

text \<open>Operations that have nothing to do with the queue.\<close>

definition same_queue :: "'a kmod \<Rightarrow> 'a kmod \<Rightarrow> bool" where
  "same_queue m m' \<longleftrightarrow> full_buffers m' = full_buffers m \<and> shutdown m' = shutdown m \<and> wakes m' = wakes m"

lemma same_queue_wakes: "same_queue m m' \<Longrightarrow> wakes_readers m m'"
  by (auto simp: same_queue_def wakes_readers_def something_to_read_def)

lemma same_queue_refl [simp]: "same_queue m m"
  by (simp add: same_queue_def)

lemma same_queue_trans: "same_queue m m1 \<Longrightarrow> same_queue m1 m2 \<Longrightarrow> same_queue m m2"
  by (simp add: same_queue_def)

lemma same_queue_update [simp]:
  "same_queue m (m\<lparr>arch := hw\<rparr>)" "same_queue m (m\<lparr>lbuffer := lb\<rparr>)" "same_queue m (m\<lparr>k_heap := h\<rparr>)"
  "same_queue m (m\<lparr>missed_attr := v\<rparr>)" "same_queue m (m\<lparr>total_interrupts := t\<rparr>)" "same_queue m (m\<lparr>empty_buffers := l\<rparr>)"
  by (simp_all add: same_queue_def)

lemma same_queue_lists:
  "pop_empty m = Inr (r, m') \<Longrightarrow> same_queue m m'"
  "append_empty b m = Inr m' \<Longrightarrow> same_queue m m'"
  by (auto simp: pop_empty_def append_empty_def same_queue_def fault_bind_Inr_iff)

lemma append_full_queue:
  "append_full b m = Inr m' \<Longrightarrow> shutdown m' = shutdown m \<and> wakes m' = wakes m \<and> lbuffer m' = lbuffer m"
  by (auto simp: append_full_def fault_bind_Inr_iff)

lemma initialize_buffer_queue: "initialize_buffer c a m = Inr m' \<Longrightarrow> same_queue m m'"
  by (auto simp: initialize_buffer_def same_queue_def split: option.splits)

lemma current_buffer_queue:
  assumes "current_buffer c m = Inr (r, m')"
  shows "same_queue m m'"
proof (cases "lbuffer m c")
  case (Some a)
  with assms show ?thesis by (simp add: current_buffer_def)
next
  case None
  then obtain b m1 where 1: "pop_empty m = Inr (b, m1)" and rest: "(case b of
      None \<Rightarrow> Inr (None, m1\<lparr>missed_attr := missed_attr m1 + 1\<rparr>)
    | Some a \<Rightarrow> fault_bind (initialize_buffer c a m1) (\<lambda>m. Inr (Some a, m\<lparr>lbuffer := (lbuffer m)(c := Some a)\<rparr>))) = Inr (r, m')"
    using assms unfolding current_buffer_def by (auto elim!: fault_bind_InrE)
  have "same_queue m1 m'"
    using rest by (auto split: option.splits elim!: fault_bind_InrE dest!: initialize_buffer_queue simp: same_queue_def)
  with same_queue_lists(1)[OF 1] show ?thesis by (rule same_queue_trans)
qed

section \<open>The operations\<close>

text \<open>A handler that fills a buffer wakes the readers after it has put the buffer on the list.\<close>

lemma gatherSample_wakes:
  assumes "gatherSample api c pid m = Inr m'"
  shows "wakes_readers m m'"
proof -
  obtain r m1 where 1: "current_buffer c m = Inr (r, m1)"
    using assms unfolding gatherSample_def by (auto elim: fault_bind_InrE)
  have "wakes_readers m1 m'"
  proof (cases r)
    case None
    with assms 1 show ?thesis by (simp add: gatherSample_def)
  next
    case (Some a)
    obtain b where b: "k_heap m1 a = Some b" using assms 1 Some by (cases "k_heap m1 a") (auto simp: gatherSample_def)
    show ?thesis
      using assms unfolding gatherSample_def 1 fault_bind_simps prod.case Some option.case b Let_def
      by (auto simp: wakes_readers_def something_to_read_def elim!: fault_bind_InrE dest!: append_full_queue split: if_splits)
  qed
  with same_queue_wakes[OF current_buffer_queue[OF 1]] show ?thesis by (rule wakes_readers_trans)
qed

lemma on_each_cpu_queue:
  assumes "\<And>c m m'. f c m = Inr m' \<Longrightarrow> same_queue m m'" and "on_each_cpu n f m = Inr m'"
  shows "same_queue m m'"
proof (rule fault_fold_invariant[where P = "same_queue m" and f = f and xs = "[0..<n]"])
  show "fault_fold f [0..<n] m = Inr m'" using assms(2) by (simp add: on_each_cpu_def)
  show "same_queue m s'" if "same_queue m s" "f x s = Inr s'" for x s s'
    by (rule same_queue_trans[OF that(1) assms(1)[OF that(2)]])
qed simp

lemma startCtrs_queue: "startCtrs api c m = Inr m' \<Longrightarrow> same_queue m m'"
  by (auto simp: startCtrs_def same_queue_def fault_bind_Inr_iff Let_def dest!: same_queue_lists(2) split: if_splits)

lemma status_update_wakes:
  assumes "process_status_update api n m = Inr m'"
  shows "wakes_readers m m'"
proof -
  consider (off) "status_attr m = 0" | (on) "status_attr m = 1" | (dump) "status_attr m = 2" | (unknown) "status_attr m \<notin> {0, 1, 2}"
    by blast
  then show ?thesis
  proof cases
    case off
    then obtain m1 where "on_each_cpu n (stopCtrs api) (m\<lparr>shutdown := 1\<rparr>) = Inr m1"
      "m' = wake_up_all (m1\<lparr>shutdown := 2, arch := deregister_interrupt api (arch m1)\<rparr>)"
      using assms by (auto simp: process_status_update_def stopAll_def fault_bind_Inr_iff)
    moreover have "same_queue (m\<lparr>shutdown := 1\<rparr>) m1"
      by (rule on_each_cpu_queue[OF _ calculation(1)]) (auto simp: stopCtrs_def)
    ultimately show ?thesis by (simp add: same_queue_def wakes_readers_def)
  next
    case on
    define m0 where "m0 = (if period_attr m < MIN_PERIOD then m\<lparr>period_attr := MIN_PERIOD\<rparr> else m)"
    define m1 where "m1 = m0\<lparr>period := ucast (period_attr m0), shutdown := 0, arch := register_interrupt api (arch m0)\<rparr>"
    have 1: "full_buffers m1 = full_buffers m" "shutdown m1 = 0" "wakes m1 = wakes m" by (simp_all add: m1_def m0_def)
    have 2: "on_each_cpu n (startCtrs api) m1 = Inr m'"
      using assms on by (simp add: process_status_update_def Let_def m1_def m0_def)
    have "same_queue m1 m'" by (rule on_each_cpu_queue[OF startCtrs_queue 2])
    with 1 show ?thesis by (auto simp: same_queue_def wakes_readers_def something_to_read_def)
  next
    case dump
    then have "on_each_cpu n (dumpCtrs api) m = Inr m'" using assms by (simp add: process_status_update_def)
    then have "same_queue m m'" by (rule on_each_cpu_queue[rotated]) (auto simp: dumpCtrs_def)
    then show ?thesis by (rule same_queue_wakes)
  next
    case unknown
    then have "m' = m\<lparr>status_attr := if shutdown m = 0 then 1 else 0\<rparr>" using assms by (auto simp: process_status_update_def)
    then show ?thesis by (auto simp: wakes_readers_def something_to_read_def)
  qed
qed

lemma default_store_wakes:
  assumes "default_store api n sc a buf len m = Inr (r, m')"
  shows "wakes_readers m m'"
proof -
  have set: "same_queue m (set_attr_value a v m)" for v by (cases a) (simp_all add: same_queue_def)
  have "wakes_readers m m'" if "store_value api n a v m = Inr m'" for v
  proof (cases "a = Status_attr")
    case True
    with that have "process_status_update api n (set_attr_value a v m) = Inr m'" by (simp add: store_value_def Let_def)
    from status_update_wakes[OF this] show ?thesis by (rule wakes_readers_trans[OF same_queue_wakes[OF set]])
  next
    case False
    with that have "m' = set_attr_value a v m" by (simp add: store_value_def Let_def)
    then show ?thesis using same_queue_wakes[OF set] by simp
  qed
  then show ?thesis
    using assms unfolding default_store_scanned by (auto simp: fault_bind_Inr_iff split: option.splits)
qed

lemma pop_full_queue:
  assumes "pop_full m = Inr (r, m')"
  shows "shutdown m' = shutdown m" "wakes m' = wakes m" "r = None \<longleftrightarrow> bl_head (full_buffers m) = None"
    "bl_head (full_buffers m) = None \<Longrightarrow> m' = m"
  using assms by (auto simp: pop_full_def pop_blist_def fault_bind_Inr_iff Let_def split: option.splits)

lemma my_read_wait_wakes:
  assumes "my_read_wait sig copy_ok m = Inr (out, m')"
  shows "wakes_readers m m'" and "out = Blocks \<Longrightarrow> \<not> something_to_read m'"
    and "something_to_read m \<Longrightarrow> out \<noteq> Blocks"
proof -
  obtain r m1 where 1: "pop_full m = Inr (r, m1)" and rest: "case r of
      None \<Rightarrow> m' = m1 \<and> (out = Blocks \<longleftrightarrow> shutdown m1 \<noteq> 2 \<and> \<not> sig)
    | Some a \<Rightarrow> append_empty (Some a) m1 = Inr m' \<and> out \<noteq> Blocks"
    using assms unfolding my_read_wait_def by (fastforce simp: fault_bind_Inr_iff split: option.splits if_splits)
  note p = pop_full_queue[OF 1]
  show "wakes_readers m m'" "out = Blocks \<Longrightarrow> \<not> something_to_read m'" "something_to_read m \<Longrightarrow> out \<noteq> Blocks"
    using rest p same_queue_lists(2)
    by (fastforce simp: wakes_readers_def something_to_read_def same_queue_def split: option.splits)+
qed

section \<open>Sleeping readers\<close>

text \<open>For a reader that sleeps, the number of calls of \<open>wake_up_all\<close> when it fell asleep.\<close>

record 'a waiting =
  w_mod :: "'a kmod"
  asleep :: "nat \<Rightarrow> nat option"

definition woken :: "'a waiting \<Rightarrow> nat \<Rightarrow> bool" where
  "woken s r \<longleftrightarrow> (case asleep s r of None \<Rightarrow> False | Some w \<Rightarrow> w < wakes (w_mod s))"

definition after_read :: "'a waiting \<Rightarrow> nat \<Rightarrow> read_outcome \<Rightarrow> 'a kmod \<Rightarrow> 'a waiting" where
  "after_read s r out m' =
     \<lparr>w_mod = m', asleep = (asleep s)(r := if out = Blocks then Some (wakes m') else None)\<rparr>"

text \<open>
  The steps of a session again, now with readers by number: one that sleeps goes on only after a
  wake-up or with a signal (\<open>sig\<close>), and then looks at the queue again.
\<close>

inductive wstep :: "'a pmu_api \<Rightarrow> 'a irq \<Rightarrow> ('a \<Rightarrow> bool) \<Rightarrow> nat \<Rightarrow> 'a waiting \<Rightarrow> 'a waiting \<Rightarrow> bool"
  for api irq ok n where
  w_interrupt: "c < n \<Longrightarrow> irq_handler irq c pid (w_mod s) = Inr m' \<Longrightarrow> wstep api irq ok n s (s\<lparr>w_mod := m'\<rparr>)"
| w_attribute: "default_store api n sc a buf len (w_mod s) = Inr (rc, m') \<Longrightarrow> wstep api irq ok n s (s\<lparr>w_mod := m'\<rparr>)"
| w_hardware: "ok hw \<Longrightarrow> wstep api irq ok n s (s\<lparr>w_mod := (w_mod s)\<lparr>arch := hw\<rparr>\<rparr>)"
| w_read: "asleep s r = None \<Longrightarrow> my_read count sig True (w_mod s) = Inr (out, m') \<Longrightarrow>
    wstep api irq ok n s (after_read s r out m')"
| w_wakes: "woken s r \<or> asleep s r \<noteq> None \<and> sig \<Longrightarrow> my_read_wait sig True (w_mod s) = Inr (out, m') \<Longrightarrow>
    wstep api irq ok n s (after_read s r out m')"

text \<open>A reader that has not been woken since has nothing to read.\<close>

definition waiting_inv :: "'a waiting \<Rightarrow> bool" where
  "waiting_inv s \<longleftrightarrow>
     (\<forall>r w. asleep s r = Some w \<longrightarrow> w \<le> wakes (w_mod s) \<and> (something_to_read (w_mod s) \<longrightarrow> w < wakes (w_mod s)))"

lemma waiting_inv_step:
  assumes "waiting_inv s" and "wakes_readers (w_mod s) m'"
  shows "waiting_inv (s\<lparr>w_mod := m'\<rparr>)"
  unfolding waiting_inv_def
proof (intro allI impI)
  fix r w assume "asleep (s\<lparr>w_mod := m'\<rparr>) r = Some w"
  then have "w \<le> wakes (w_mod s)" "something_to_read (w_mod s) \<longrightarrow> w < wakes (w_mod s)"
    using assms(1) by (auto simp: waiting_inv_def)
  with assms(2) show "w \<le> wakes (w_mod (s\<lparr>w_mod := m'\<rparr>)) \<and>
      (something_to_read (w_mod (s\<lparr>w_mod := m'\<rparr>)) \<longrightarrow> w < wakes (w_mod (s\<lparr>w_mod := m'\<rparr>)))"
    by (cases "something_to_read (w_mod s)") (auto simp: wakes_readers_def)
qed

lemma waiting_inv_read:
  assumes "waiting_inv s" and "wakes_readers (w_mod s) m'" and "out = Blocks \<Longrightarrow> \<not> something_to_read m'"
  shows "waiting_inv (after_read s r out m')"
  using waiting_inv_step[OF assms(1,2)] assms(3) by (auto simp: waiting_inv_def after_read_def)

text \<open>What a handler owes the readers.\<close>

locale pmu_wait = pmu_irq api ok running irq
  for api :: "'a pmu_api" and ok :: "'a \<Rightarrow> bool" and running :: "'a \<Rightarrow> nat \<Rightarrow> bool" and irq :: "'a irq" +
  assumes irq_wakes: "irq_handler irq c pid m = Inr m' \<Longrightarrow> wakes_readers m m'"
begin

lemma wstep_ok:
  assumes s: "wstep api irq ok n s s'" and inv: "session_inv ok n (w_mod s) es fs" "waiting_inv s"
  shows "(\<exists>es' fs'. session_inv ok n (w_mod s') es' fs') \<and> waiting_inv s'"
  using s
proof cases
  case (w_interrupt c pid m')
  with irq_cases[OF inv(1) w_interrupt(2), of pid] waiting_inv_step[OF inv(2) irq_wakes[OF w_interrupt(3)]]
  show ?thesis by auto
next
  case (w_attribute sc a buf len rc m')
  have "kstep api irq ok n (w_mod s) (store_event sc a buf) m'" by (rule kstep.attribute[OF w_attribute(2)])
  from kstep_session[OF this inv(1)] waiting_inv_step[OF inv(2) default_store_wakes[OF w_attribute(2)]] w_attribute(1)
  show ?thesis by auto
next
  case (w_hardware hw)
  have "kstep api irq ok n (w_mod s) Other ((w_mod s)\<lparr>arch := hw\<rparr>)" using w_hardware(2) by (rule kstep.hardware)
  from kstep_session[OF this inv(1)] waiting_inv_step[OF inv(2), of "(w_mod s)\<lparr>arch := hw\<rparr>"] w_hardware(1)
  show ?thesis by (auto simp: same_queue_wakes)
next
  case (w_read r count sig out m')
  from read_cases[OF w_read(3)] show ?thesis
  proof
    assume "m' = w_mod s \<and> (\<exists>rc. out = Returned rc None)"
    then show ?thesis using inv w_read(1) waiting_inv_read[OF inv(2), of m' out r] by (auto simp: after_read_def)
  next
    assume w: "my_read_wait sig True (w_mod s) = Inr (out, m')"
    have "waiting_inv s'" unfolding w_read(1)
      by (rule waiting_inv_read[OF inv(2)]) (use my_read_wait_wakes(1,2)[OF w] in auto)
    with read_session[OF inv(1) w] w_read(1) show ?thesis by (auto simp: after_read_def)
  qed
next
  case (w_wakes r sig out m')
  have "waiting_inv s'" unfolding w_wakes(1)
    by (rule waiting_inv_read[OF inv(2)]) (use my_read_wait_wakes(1,2)[OF w_wakes(3)] in auto)
  with read_session[OF inv(1) w_wakes(3)] w_wakes(1) show ?thesis by (auto simp: after_read_def)
qed

text \<open>No lost wake-up: a sleeping reader that could return has been woken, and then does return.\<close>

lemma sleeper_returns:
  assumes "(wstep api irq ok n)\<^sup>*\<^sup>* s s'" and inv: "session_inv ok n (w_mod s) es fs" and "asleep s = (\<lambda>_. None)"
    and r: "asleep s' r \<noteq> None" "something_to_read (w_mod s')"
  shows "woken s' r \<and> (\<exists>rc b m'. my_read_wait sig True (w_mod s') = Inr (Returned rc b, m'))"
proof -
  from assms(1) have "(\<exists>es' fs'. session_inv ok n (w_mod s') es' fs') \<and> waiting_inv s'"
  proof (induction rule: rtranclp_induct)
    case base
    with inv assms(3) show ?case by (auto simp: waiting_inv_def)
  next
    case (step y z)
    with wstep_ok show ?case by blast
  qed
  then obtain es' fs' where i: "session_inv ok n (w_mod s') es' fs'" "waiting_inv s'" by blast
  have "woken s' r" using i(2) r by (auto simp: waiting_inv_def woken_def)
  moreover obtain out m' where o: "my_read_wait sig True (w_mod s') = Inr (out, m')"
    using my_read_wait_total[of n "w_mod s'" es' fs' sig True] i(1) by (auto simp: session_inv_def)
  then have "out \<noteq> Blocks" using my_read_wait_wakes(3)[OF o r(2)] by blast
  with o have "\<exists>rc b m'. my_read_wait sig True (w_mod s') = Inr (Returned rc b, m')" by (cases out) auto
  ultimately show ?thesis by blast
qed

end

end
