(* ===== verification/Intel.thy ===== *)
theory Intel
  imports Kernel_Waiting
begin

text \<open>
  module/intel.c: the performance counters of an Intel processor, reached through its model
  specific registers, and the non-maskable interrupt that takes a sample. The registers are a
  store of 64-bit words for every processor; what the hardware does to them between two
  instructions is not part of the model.
\<close>

unbundle bit_operations_syntax

section \<open>Registers\<close>

definition MSR_ARCH_PERFMON_PERFCTR0 :: nat where "MSR_ARCH_PERFMON_PERFCTR0 = 0xc1"
definition MSR_ARCH_PERFMON_EVENTSEL0 :: nat where "MSR_ARCH_PERFMON_EVENTSEL0 = 0x186"
definition MSR_ARCH_PERFMON_FIXED_CTR1 :: nat where "MSR_ARCH_PERFMON_FIXED_CTR1 = 0x30a"
definition MSR_CORE_PERF_FIXED_CTR_CTRL :: nat where "MSR_CORE_PERF_FIXED_CTR_CTRL = 0x38d"
definition MSR_CORE_PERF_GLOBAL_CTRL :: nat where "MSR_CORE_PERF_GLOBAL_CTRL = 0x38f"
definition MSR_CORE_PERF_GLOBAL_OVF_CTRL :: nat where "MSR_CORE_PERF_GLOBAL_OVF_CTRL = 0x390"

lemmas msr_defs =
  MSR_ARCH_PERFMON_PERFCTR0_def MSR_ARCH_PERFMON_EVENTSEL0_def MSR_ARCH_PERFMON_FIXED_CTR1_def
  MSR_CORE_PERF_FIXED_CTR_CTRL_def MSR_CORE_PERF_GLOBAL_CTRL_def MSR_CORE_PERF_GLOBAL_OVF_CTRL_def

definition APIC_DM_NMI :: u32 where "APIC_DM_NMI = 0x400"
definition APIC_LVT_MASKED :: u32 where "APIC_LVT_MASKED = 0x10000"

text \<open>
  \<open>lvtpc\<close> is the local interrupt entry of the counters; \<open>perfctr_free\<close> and \<open>evntsel_free\<close>
  say that no one else has reserved the counters.
\<close>

record intel =
  msr :: "nat \<Rightarrow> nat \<Rightarrow> u64"
  lvtpc :: "nat \<Rightarrow> u32"
  nmi_registered :: bool
  perfctr_free :: bool
  evntsel_free :: bool
  intel_num_ctrs :: nat

definition rdmsrl :: "nat \<Rightarrow> nat \<Rightarrow> intel \<Rightarrow> u64" where
  "rdmsrl c a hw = msr hw c a"

definition wrmsrl :: "nat \<Rightarrow> nat \<Rightarrow> u64 \<Rightarrow> intel \<Rightarrow> intel" where
  "wrmsrl c a v hw = hw\<lparr>msr := (msr hw)(c := (msr hw c)(a := v))\<rparr>"

lemma wrmsrl_simps [simp]:
  "msr (wrmsrl c a v hw) d x = (if d = c \<and> x = a then v else msr hw d x)"
  "lvtpc (wrmsrl c a v hw) = lvtpc hw"
  "intel_num_ctrs (wrmsrl c a v hw) = intel_num_ctrs hw"
  "nmi_registered (wrmsrl c a v hw) = nmi_registered hw"
  by (auto simp: wrmsrl_def)

section \<open>The functions of pmu_api.h\<close>

definition intel_read_ccnt :: "nat \<Rightarrow> intel \<Rightarrow> u64" where
  "intel_read_ccnt c hw = rdmsrl c MSR_ARCH_PERFMON_FIXED_CTR1 hw"

definition intel_read_pmn :: "nat \<Rightarrow> nat \<Rightarrow> intel \<Rightarrow> u64 \<times> intel" where
  "intel_read_pmn c i hw = (rdmsrl c (MSR_ARCH_PERFMON_PERFCTR0 + i) hw, hw)"

definition intel_write_ccnt :: "nat \<Rightarrow> u64 \<Rightarrow> intel \<Rightarrow> intel" where
  "intel_write_ccnt c v = wrmsrl c MSR_ARCH_PERFMON_FIXED_CTR1 v"

definition event_config :: "u64 \<Rightarrow> u64" where
  "event_config C = (0xFFFF AND C) OR push_bit 16 1 OR push_bit 17 1 OR push_bit 22 1"

definition intel_pmn_config :: "nat \<Rightarrow> nat \<Rightarrow> u64 \<Rightarrow> intel \<Rightarrow> intel" where
  "intel_pmn_config c i C = wrmsrl c (MSR_ARCH_PERFMON_EVENTSEL0 + i) (event_config C)"

definition EnablePerfVect :: "nat \<Rightarrow> bool \<Rightarrow> intel \<Rightarrow> intel" where
  "EnablePerfVect c wantEnable hw =
     hw\<lparr>lvtpc := (lvtpc hw)(c := (if wantEnable then APIC_DM_NMI else APIC_LVT_MASKED))\<rparr>"

lemma EnablePerfVect_simps [simp]:
  "msr (EnablePerfVect c w hw) = msr hw"
  "intel_num_ctrs (EnablePerfVect c w hw) = intel_num_ctrs hw"
  "nmi_registered (EnablePerfVect c w hw) = nmi_registered hw"
  "lvtpc (EnablePerfVect c w hw) d = (if d = c then (if w then APIC_DM_NMI else APIC_LVT_MASKED) else lvtpc hw d)"
  by (simp_all add: EnablePerfVect_def)

definition intel_stopCtrsLocal :: "nat \<Rightarrow> intel \<Rightarrow> intel" where
  "intel_stopCtrsLocal c hw =
     (let hw = wrmsrl c MSR_CORE_PERF_GLOBAL_CTRL 0 hw;
          hw = wrmsrl c MSR_ARCH_PERFMON_EVENTSEL0 0 hw
      in EnablePerfVect c False hw)"

text \<open>\<open>0xFFFFFFFFFFFF - period\<close>: the value that makes the 48-bit counter overflow.\<close>

definition ccnt_start :: "u64 \<Rightarrow> u64" where
  "ccnt_start p = 0xFFFFFFFFFFFF - p"

definition config_counter :: "nat \<Rightarrow> u64 list \<Rightarrow> nat \<Rightarrow> intel \<Rightarrow> fault + intel" where
  "config_counter c cs i hw = (if i < length cs then Inr (intel_pmn_config c i (cs ! i) hw) else Inl OutOfBounds)"

definition intel_startCtrsLocal :: "nat \<Rightarrow> u64 list \<Rightarrow> u64 \<Rightarrow> intel \<Rightarrow> fault + intel" where
  "intel_startCtrsLocal c cs p hw =
     (let hw = wrmsrl c MSR_CORE_PERF_GLOBAL_CTRL 0 hw;
          hw = EnablePerfVect c True hw;
          hw = intel_write_ccnt c (ccnt_start p) hw
      in fault_bind (fault_fold (config_counter c cs) [0..<intel_num_ctrs hw] hw) (\<lambda>hw.
           let hw = wrmsrl c MSR_CORE_PERF_FIXED_CTR_CTRL (push_bit 4 0xA) hw;
               hw = wrmsrl c MSR_CORE_PERF_GLOBAL_OVF_CTRL (push_bit 63 1 OR push_bit 62 1 OR push_bit 33 1 OR 0xF) hw
           in Inr (wrmsrl c MSR_CORE_PERF_GLOBAL_CTRL (0xF OR push_bit 33 1) hw)))"

definition EBUSY :: int where "EBUSY = 16"

definition intel_initialize_arch :: "intel \<Rightarrow> (int \<times> intel) option" where
  "intel_initialize_arch hw =
     (if \<not> perfctr_free hw then Some (- EBUSY, hw)
      else
        let hw = hw\<lparr>perfctr_free := False\<rparr>
        in if \<not> evntsel_free hw then Some (- EBUSY, hw\<lparr>perfctr_free := True\<rparr>)
           else Some (0, hw\<lparr>evntsel_free := False, intel_num_ctrs := 4\<rparr>))"

definition intel_cleanup_arch :: "intel \<Rightarrow> intel" where
  "intel_cleanup_arch hw = hw\<lparr>perfctr_free := True, evntsel_free := True\<rparr>"

definition intel_api :: "intel pmu_api" where
  "intel_api = \<lparr>num_ctrs = intel_num_ctrs, read_ccnt = intel_read_ccnt, read_pmn = intel_read_pmn,
     initialize_arch = intel_initialize_arch, cleanup_arch = intel_cleanup_arch,
     startCtrsLocal = intel_startCtrsLocal, stopCtrsLocal = intel_stopCtrsLocal, dump_regs = (\<lambda>c hw. hw),
     register_interrupt = (\<lambda>hw. hw\<lparr>nmi_registered := True\<rparr>),
     deregister_interrupt = (\<lambda>hw. hw\<lparr>nmi_registered := False\<rparr>)\<rparr>"

section \<open>The interrupt\<close>

definition on_arch :: "('a \<Rightarrow> 'a) \<Rightarrow> 'a kmod \<Rightarrow> 'a kmod" where
  "on_arch f m = m\<lparr>arch := f (arch m)\<rparr>"

definition my_nmi_handler :: "nat \<Rightarrow> u64 \<Rightarrow> intel kmod \<Rightarrow> fault + intel kmod" where
  "my_nmi_handler c pid m =
     (let m = m\<lparr>total_interrupts := total_interrupts m + 1\<rparr>;
          m = on_arch (wrmsrl c MSR_CORE_PERF_GLOBAL_OVF_CTRL (push_bit 63 1 OR push_bit 62 1 OR 0xF)) m
      in fault_bind (gatherSample intel_api c pid m) (\<lambda>m.
           let m = on_arch (intel_write_ccnt c (ccnt_start (period m))) m;
               m = on_arch (fold (\<lambda>i. wrmsrl c (MSR_ARCH_PERFMON_PERFCTR0 + i) 0) [0..<intel_num_ctrs (arch m)]) m;
               m = (if shutdown m \<noteq> 0 then on_arch (wrmsrl c MSR_CORE_PERF_GLOBAL_CTRL 0) m else m)
           in Inr (on_arch (\<lambda>hw. hw\<lparr>lvtpc := (lvtpc hw)(c := APIC_DM_NMI)\<rparr>) m)))"

section \<open>The contract\<close>

definition intel_ok :: "intel \<Rightarrow> bool" where
  "intel_ok hw \<longleftrightarrow> intel_num_ctrs hw = 4"

text \<open>A processor samples while the cycle counter is enabled.\<close>

definition intel_running :: "intel \<Rightarrow> nat \<Rightarrow> bool" where
  "intel_running hw c \<longleftrightarrow> bit (msr hw c MSR_CORE_PERF_GLOBAL_CTRL) 33"

lemma config_counters:
  assumes "k \<le> length cs"
  shows "\<exists>hw'. fault_fold (config_counter c cs) [0..<k] hw = Inr hw' \<and> intel_num_ctrs hw' = intel_num_ctrs hw \<and>
     lvtpc hw' = lvtpc hw \<and> nmi_registered hw' = nmi_registered hw \<and>
     (\<forall>d x. msr hw' d x = (if d = c \<and> MSR_ARCH_PERFMON_EVENTSEL0 \<le> x \<and> x < MSR_ARCH_PERFMON_EVENTSEL0 + k
        then event_config (cs ! (x - MSR_ARCH_PERFMON_EVENTSEL0)) else msr hw d x))"
  using assms
proof (induction k)
  case 0
  then show ?case by auto
next
  case (Suc k)
  then obtain hw1 where 1: "fault_fold (config_counter c cs) [0..<k] hw = Inr hw1" "intel_num_ctrs hw1 = intel_num_ctrs hw"
    "lvtpc hw1 = lvtpc hw" "nmi_registered hw1 = nmi_registered hw"
    "\<forall>d x. msr hw1 d x = (if d = c \<and> MSR_ARCH_PERFMON_EVENTSEL0 \<le> x \<and> x < MSR_ARCH_PERFMON_EVENTSEL0 + k
        then event_config (cs ! (x - MSR_ARCH_PERFMON_EVENTSEL0)) else msr hw d x)" by auto
  let ?hw = "intel_pmn_config c k (cs ! k) hw1"
  have "fault_fold (config_counter c cs) [0..<Suc k] hw = Inr ?hw"
    using 1(1) Suc.prems by (simp add: fault_fold_append config_counter_def)
  moreover have "msr ?hw d x = (if d = c \<and> MSR_ARCH_PERFMON_EVENTSEL0 \<le> x \<and> x < MSR_ARCH_PERFMON_EVENTSEL0 + Suc k
        then event_config (cs ! (x - MSR_ARCH_PERFMON_EVENTSEL0)) else msr hw d x)" for d x
    using 1(5) by (auto simp: intel_pmn_config_def)
  ultimately show ?case using 1(2-4) by (intro exI[of _ ?hw]) (simp add: intel_pmn_config_def)
qed

definition armed :: "nat \<Rightarrow> u64 list \<Rightarrow> u64 \<Rightarrow> intel \<Rightarrow> bool" where
  "armed c cs p hw \<longleftrightarrow>
     msr hw c MSR_ARCH_PERFMON_FIXED_CTR1 = ccnt_start p \<and> lvtpc hw c = APIC_DM_NMI \<and>
     (\<forall>i < 4. msr hw c (MSR_ARCH_PERFMON_EVENTSEL0 + i) = event_config (cs ! i)) \<and>
     msr hw c MSR_CORE_PERF_FIXED_CTR_CTRL = 0xA0 \<and> msr hw c MSR_CORE_PERF_GLOBAL_CTRL = 0x20000000F"

lemma intel_start:
  assumes "intel_ok hw" and "length cs = 6"
  shows "\<exists>hw'. intel_startCtrsLocal c cs p hw = Inr hw' \<and> intel_ok hw' \<and> armed c cs p hw' \<and>
     (\<forall>d. d \<noteq> c \<longrightarrow> msr hw' d = msr hw d) \<and> intel_running hw' = (intel_running hw)(c := True)"
proof -
  let ?hw = "intel_write_ccnt c (ccnt_start p) (EnablePerfVect c True (wrmsrl c MSR_CORE_PERF_GLOBAL_CTRL 0 hw))"
  have n: "intel_num_ctrs ?hw = 4" using assms(1) by (simp add: intel_write_ccnt_def intel_ok_def)
  obtain hw1 where 1: "fault_fold (config_counter c cs) [0..<4] ?hw = Inr hw1" "intel_num_ctrs hw1 = intel_num_ctrs ?hw"
    "lvtpc hw1 = lvtpc ?hw"
    "\<forall>d x. msr hw1 d x = (if d = c \<and> MSR_ARCH_PERFMON_EVENTSEL0 \<le> x \<and> x < MSR_ARCH_PERFMON_EVENTSEL0 + 4
        then event_config (cs ! (x - MSR_ARCH_PERFMON_EVENTSEL0)) else msr ?hw d x)"
    using config_counters[of 4 cs c ?hw] assms(2) by auto
  let ?hw1 = "wrmsrl c MSR_CORE_PERF_GLOBAL_CTRL (0xF OR push_bit 33 1)
     (wrmsrl c MSR_CORE_PERF_GLOBAL_OVF_CTRL (push_bit 63 1 OR push_bit 62 1 OR push_bit 33 1 OR 0xF)
        (wrmsrl c MSR_CORE_PERF_FIXED_CTR_CTRL (push_bit 4 0xA) hw1))"
  have "intel_startCtrsLocal c cs p hw = Inr ?hw1"
    using 1(1) n by (simp add: intel_startCtrsLocal_def Let_def)
  moreover have "intel_ok ?hw1" using 1(2) n by (simp add: intel_ok_def)
  moreover have "armed c cs p ?hw1"
    using 1(3,4) by (simp add: armed_def msr_defs intel_write_ccnt_def)
  moreover have "msr ?hw1 d = msr hw d" if "d \<noteq> c" for d
    using 1(4) that by (auto simp: fun_eq_iff intel_write_ccnt_def)
  moreover have "intel_running ?hw1 d = ((intel_running hw)(c := True)) d" for d
    using 1(4) by (simp add: intel_running_def msr_defs intel_write_ccnt_def)
  ultimately show ?thesis by blast
qed

lemma intel_stop:
  "intel_running (intel_stopCtrsLocal c hw) = (intel_running hw)(c := False)"
  "intel_num_ctrs (intel_stopCtrsLocal c hw) = intel_num_ctrs hw"
  by (auto simp: intel_stopCtrsLocal_def intel_running_def fun_eq_iff msr_defs Let_def)

interpretation intel: pmu_arch intel_api intel_ok intel_running
proof unfold_locales
  fix hw cs c p
  assume "intel_ok hw" "length (cs :: u64 list) = 6"
  from intel_start[OF this, of c p] show "\<exists>hw'. startCtrsLocal intel_api c cs p hw = Inr hw' \<and> intel_ok hw' \<and>
      intel_running hw' = (intel_running hw)(c := True)"
    by (auto simp: intel_api_def)
qed (auto simp: intel_api_def intel_ok_def intel_read_pmn_def intel_stop intel_running_def fun_eq_iff intel_cleanup_arch_def)

section \<open>The interrupt handler\<close>

lemma ccnt_start_overflow: "unat p < 2 ^ 48 \<Longrightarrow> unat (ccnt_start p) + (unat p + 1) = 2 ^ 48"
proof -
  assume p: "unat p < 2 ^ 48"
  then have "p \<le> 0xFFFFFFFFFFFF" by (simp add: word_le_nat_alt)
  then have "unat (ccnt_start p) = unat (0xFFFFFFFFFFFF :: u64) - unat p" unfolding ccnt_start_def by (rule unat_sub)
  with p show ?thesis by simp
qed

lemma on_arch_frame [simp]:
  "kmod_rep n (on_arch f m) es fs L = kmod_rep n m es fs L"
  "in_module (on_arch f m) fs c = in_module m fs c"
  "arch (on_arch f m) = f (arch m)" "period (on_arch f m) = period m" "shutdown (on_arch f m) = shutdown m"
  "missed_attr (on_arch f m) = missed_attr m" "lbuffer (on_arch f m) = lbuffer m" "slot (on_arch f m) c = slot m c"
  by (simp_all add: on_arch_def slot_def split: option.split)

lemma sample_now_ovf [simp]:
  "sample_now intel_api c pid p (wrmsrl d MSR_CORE_PERF_GLOBAL_OVF_CTRL v hw) old = sample_now intel_api c pid p hw old"
  if "intel_ok hw"
  using that
  by (auto simp: sample_now_def intel_api_def intel_read_ccnt_def intel_read_pmn_def rdmsrl_def msr_defs intel_ok_def)

lemma fold_wrmsrl:
  "msr (fold (\<lambda>i. wrmsrl c (b + i) 0) [0..<k] hw) d x = (if d = c \<and> b \<le> x \<and> x < b + k then 0 else msr hw d x)"
  "intel_num_ctrs (fold (\<lambda>i. wrmsrl c (b + i) 0) [0..<k] hw) = intel_num_ctrs hw"
  by (induction k) auto

definition rearm :: "nat \<Rightarrow> intel kmod \<Rightarrow> intel kmod" where
  "rearm c m =
     (let m = on_arch (intel_write_ccnt c (ccnt_start (period m))) m;
          m = on_arch (fold (\<lambda>i. wrmsrl c (MSR_ARCH_PERFMON_PERFCTR0 + i) 0) [0..<intel_num_ctrs (arch m)]) m;
          m = (if shutdown m \<noteq> 0 then on_arch (wrmsrl c MSR_CORE_PERF_GLOBAL_CTRL 0) m else m)
      in on_arch (\<lambda>hw. hw\<lparr>lvtpc := (lvtpc hw)(c := APIC_DM_NMI)\<rparr>) m)"

text \<open>Counters back to their start, and no more interrupts once the module shuts down.\<close>

definition rearmed :: "nat \<Rightarrow> u64 \<Rightarrow> bool \<Rightarrow> intel \<Rightarrow> intel \<Rightarrow> bool" where
  "rearmed c p stops hw hw' \<longleftrightarrow>
     msr hw' c MSR_ARCH_PERFMON_FIXED_CTR1 = ccnt_start p \<and>
     (\<forall>i < 4. msr hw' c (MSR_ARCH_PERFMON_PERFCTR0 + i) = 0) \<and> lvtpc hw' c = APIC_DM_NMI \<and>
     intel_running hw' = (if stops then (intel_running hw)(c := False) else intel_running hw)"

lemma rearm_ok:
  assumes "intel_ok (arch m)"
  shows "intel_ok (arch (rearm c m))" "rearmed c (period m) (shutdown m \<noteq> 0) (arch m) (arch (rearm c m))"
    "kmod_rep n (rearm c m) es fs L = kmod_rep n m es fs L" "in_module (rearm c m) fs d = in_module m fs d"
    "shutdown (rearm c m) = shutdown m" "period (rearm c m) = period m" "missed_attr (rearm c m) = missed_attr m"
  using assms
  by (auto simp: rearm_def Let_def intel_ok_def rearmed_def fold_wrmsrl intel_write_ccnt_def intel_running_def
      msr_defs fun_eq_iff)

lemma my_nmi_handler_unfold:
  "my_nmi_handler c pid m =
     fault_bind (gatherSample intel_api c pid
       (on_arch (wrmsrl c MSR_CORE_PERF_GLOBAL_OVF_CTRL (push_bit 63 1 OR push_bit 62 1 OR 0xF))
          (m\<lparr>total_interrupts := total_interrupts m + 1\<rparr>))) (\<lambda>m. Inr (rearm c m))"
  by (simp add: my_nmi_handler_def rearm_def Let_def)

lemma kmod_rep_interrupts [simp]: "slot (m\<lparr>total_interrupts := v\<rparr>) c = slot m c"
  by (simp add: slot_def split: option.split)

lemma my_nmi_handler_ok:
  assumes r: "kmod_rep n m es fs {}" and c: "c < n" "n \<le> 2 ^ 32" and hw: "intel_ok (arch m)"
    and some: "lbuffer m c \<noteq> None \<or> es \<noteq> []"
  shows "\<exists>m' es' fs'. my_nmi_handler c pid m = Inr m' \<and> kmod_rep n m' es' fs' {} \<and> intel_ok (arch m') \<and>
     rearmed c (period m) (shutdown m \<noteq> 0) (arch m) (arch m') \<and>
     missed_attr m' = missed_attr m \<and>
     (\<forall>d < n. in_module m' fs' d = in_module m fs d @
        (if d = c then [sample_now intel_api c pid (period m) (arch m) (s_counters (slot m c))] else []))"
proof -
  let ?m = "on_arch (wrmsrl c MSR_CORE_PERF_GLOBAL_OVF_CTRL (push_bit 63 1 OR push_bit 62 1 OR 0xF))
    (m\<lparr>total_interrupts := total_interrupts m + 1\<rparr>)"
  have 0: "kmod_rep n ?m es fs {}" "intel_ok (arch ?m)" "lbuffer ?m c \<noteq> None \<or> es \<noteq> []"
    "intel_running (arch ?m) = intel_running (arch m)"
    using r hw some by (auto simp: intel_ok_def intel_running_def msr_defs fun_eq_iff)
  obtain m1 es1 fs1 where 1: "gatherSample intel_api c pid ?m = Inr m1" "kmod_rep n m1 es1 fs1 {}" "intel_ok (arch m1)"
    "intel_running (arch m1) = intel_running (arch ?m)" "period m1 = period ?m" "shutdown m1 = shutdown ?m"
    "missed_attr m1 = missed_attr ?m"
    "\<forall>d < n. in_module m1 fs1 d = in_module ?m fs d @
       (if d = c then [sample_now intel_api c pid (period ?m) (arch ?m) (s_counters (slot ?m c))] else [])"
    using intel.gatherSample_ok[OF 0(1) c 0(2,3), of pid] by blast
  have "my_nmi_handler c pid m = Inr (rearm c m1)" using 1(1) by (simp add: my_nmi_handler_unfold)
  moreover note ra = rearm_ok[OF 1(3), where c = c]
  moreover have "rearmed c (period m) (shutdown m \<noteq> 0) (arch m) (arch (rearm c m1))"
    using ra(2) 1(4-6) 0(4) by (simp add: rearmed_def)
  moreover have s: "sample_now intel_api c pid (period ?m) (arch ?m) (s_counters (slot ?m c)) =
      sample_now intel_api c pid (period m) (arch m) (s_counters (slot m c))"
    using hw by simp
  have "\<forall>d < n. in_module m1 fs1 d = in_module m fs d @
        (if d = c then [sample_now intel_api c pid (period m) (arch m) (s_counters (slot m c))] else [])"
    using 1(8) unfolding s by simp
  ultimately show ?thesis
    using 1(2,7) by (intro exI[of _ "rearm c m1"] exI[of _ es1] exI[of _ fs1]) simp
qed

lemma my_nmi_handler_missed:
  assumes r: "kmod_rep n m [] fs {}" and hw: "intel_ok (arch m)" and none: "lbuffer m c = None"
  shows "\<exists>m'. my_nmi_handler c pid m = Inr m' \<and> kmod_rep n m' [] fs {} \<and> intel_ok (arch m') \<and>
     rearmed c (period m) (shutdown m \<noteq> 0) (arch m) (arch m') \<and> missed_attr m' = missed_attr m + 1 \<and> (\<forall>d. in_module m' fs d = in_module m fs d)"
proof -
  let ?m = "on_arch (wrmsrl c MSR_CORE_PERF_GLOBAL_OVF_CTRL (push_bit 63 1 OR push_bit 62 1 OR 0xF))
    (m\<lparr>total_interrupts := total_interrupts m + 1\<rparr>)"
  let ?m1 = "?m\<lparr>missed_attr := missed_attr m + 1\<rparr>"
  have "gatherSample intel_api c pid ?m = Inr ?m1"
    using intel.gatherSample_missed[of n ?m fs "{}" c pid] r none by simp
  then have "my_nmi_handler c pid m = Inr (rearm c ?m1)" by (simp add: my_nmi_handler_unfold)
  moreover have ok: "intel_ok (arch ?m1)" using hw by (simp add: intel_ok_def)
  moreover have "intel_running (arch ?m1) = intel_running (arch m)" by (simp add: intel_running_def msr_defs fun_eq_iff)
  then have "rearmed c (period m) (shutdown m \<noteq> 0) (arch m) (arch (rearm c ?m1))"
    using rearm_ok(2)[OF ok, where c = c] by (simp add: rearmed_def)
  ultimately show ?thesis
    using rearm_ok(1,3,4,7)[OF ok, where c = c] r by simp
qed

text \<open>The handler in any state: it takes a sample, or counts it as missed, and is armed again.\<close>

lemma my_nmi_handler_total:
  assumes r: "kmod_rep n m es fs {}" and c: "c < n" "n \<le> 2 ^ 32" and hw: "intel_ok (arch m)"
  shows "\<exists>m' es' fs'. my_nmi_handler c pid m = Inr m' \<and> kmod_rep n m' es' fs' {} \<and> intel_ok (arch m') \<and>
     rearmed c (period m) (shutdown m \<noteq> 0) (arch m) (arch m') \<and>
     missed_attr m' = missed_attr m + (if lbuffer m c = None \<and> es = [] then 1 else 0) \<and>
     (\<forall>d < n. in_module m' fs' d = in_module m fs d @ (if d = c \<and> (lbuffer m c \<noteq> None \<or> es \<noteq> [])
        then [sample_now intel_api c pid (period m) (arch m) (s_counters (slot m c))] else []))"
proof (cases "lbuffer m c = None \<and> es = []")
  case True
  with my_nmi_handler_missed[of n m fs c pid] r hw obtain m' where "my_nmi_handler c pid m = Inr m'" "kmod_rep n m' [] fs {}"
    "intel_ok (arch m')" "rearmed c (period m) (shutdown m \<noteq> 0) (arch m) (arch m')" "missed_attr m' = missed_attr m + 1"
    "\<forall>d. in_module m' fs d = in_module m fs d" by auto
  with True show ?thesis by (intro exI[of _ m'] exI[of _ "[]"] exI[of _ fs]) simp
next
  case False
  then have some: "lbuffer m c \<noteq> None \<or> es \<noteq> []" by simp
  from my_nmi_handler_ok[OF r c hw this, of pid] obtain m' es' fs' where "my_nmi_handler c pid m = Inr m'"
    "kmod_rep n m' es' fs' {}" "intel_ok (arch m')" "rearmed c (period m) (shutdown m \<noteq> 0) (arch m) (arch m')"
    "missed_attr m' = missed_attr m" "\<forall>d < n. in_module m' fs' d = in_module m fs d @
       (if d = c then [sample_now intel_api c pid (period m) (arch m) (s_counters (slot m c))] else [])" by blast
  with some False show ?thesis by (intro exI[of _ m'] exI[of _ es'] exI[of _ fs']) simp
qed

text \<open>The non-maskable interrupt keeps the contract of a handler; it always takes a sample.\<close>

definition intel_irq :: "intel irq" where
  "intel_irq = \<lparr>irq_handler = my_nmi_handler, irq_takes = (\<lambda>_ _. True), irq_sees = (\<lambda>_ hw. hw)\<rparr>"

interpretation nmi: pmu_irq intel_api intel_ok intel_running intel_irq
proof unfold_locales
  fix n m es fs c pid
  assume "kmod_rep n m es fs {}" "c < n" "n \<le> 2 ^ 32" "intel_ok (arch m)" "lbuffer m c \<noteq> None \<or> es \<noteq> []"
  from my_nmi_handler_ok[OF this, of pid] obtain m' es' fs' where "my_nmi_handler c pid m = Inr m'" "kmod_rep n m' es' fs' {}"
    "intel_ok (arch m')" "\<forall>d < n. in_module m' fs' d = in_module m fs d @
        (if d = c then [sample_now intel_api c pid (period m) (arch m) (s_counters (slot m c))] else [])" by blast
  then show "\<exists>m' es' fs'. irq_handler intel_irq c pid m = Inr m' \<and> kmod_rep n m' es' fs' {} \<and>
      intel_ok (arch m') \<and> (\<forall>d < n. in_module m' fs' d = in_module m fs d @
        (if d = c then [sample_now intel_api c pid (period m) (irq_sees intel_irq c (arch m)) (s_counters (slot m c))] else []))"
    by (intro exI[of _ m'] exI[of _ es'] exI[of _ fs']) (simp add: intel_irq_def)
next
  fix n m fs c pid
  assume "kmod_rep n m [] fs {}" "intel_ok (arch m)" "lbuffer m c = None"
  from my_nmi_handler_missed[OF this, of pid] show "\<exists>m'. irq_handler intel_irq c pid m = Inr m' \<and> kmod_rep n m' [] fs {} \<and>
      intel_ok (arch m') \<and> missed_attr m' = missed_attr m + 1 \<and> (\<forall>d. in_module m' fs d = in_module m fs d)"
    by (auto simp: intel_irq_def)
qed (simp add: intel_irq_def)

text \<open>The handler wakes the readers of a buffer it fills.\<close>

lemma my_nmi_handler_wakes:
  assumes "my_nmi_handler c pid m = Inr m'"
  shows "wakes_readers m m'"
proof -
  let ?m0 = "on_arch (wrmsrl c MSR_CORE_PERF_GLOBAL_OVF_CTRL (push_bit 63 1 OR push_bit 62 1 OR 0xF))
      (m\<lparr>total_interrupts := total_interrupts m + 1\<rparr>)"
  obtain m1 hw where 1: "gatherSample intel_api c pid ?m0 = Inr m1" "m' = m1\<lparr>arch := hw\<rparr>"
    using assms by (auto simp: my_nmi_handler_def on_arch_def Let_def elim!: fault_bind_InrE split: if_splits)
  have "same_queue m ?m0" by (simp add: on_arch_def same_queue_def)
  then have "wakes_readers m m1" by (rule wakes_readers_trans[OF same_queue_wakes gatherSample_wakes[OF 1(1)]])
  then show ?thesis unfolding 1(2) by (rule wakes_readers_trans[OF _ same_queue_wakes]) simp
qed

interpretation nmi_wait: pmu_wait intel_api intel_ok intel_running intel_irq
  by unfold_locales (simp add: intel_irq_def my_nmi_handler_wakes)

end
