(* ===== verification/System_Run.thy ===== *)
theory System_Run
  imports Pipeline Intel
begin

text \<open>
  The kernel module and the programs together: the buffers that reads of the device deliver in a
  run of the module are buffers the sampling program can send and the splitter can file.
\<close>

definition delivered_buffers :: "kevent list \<Rightarrow> buffer list" where
  "delivered_buffers evs = concat (map (\<lambda>e. case e of Delivered b \<Rightarrow> [b] | _ \<Rightarrow> []) evs)"

lemma delivered_buffers_simps [simp]:
  "delivered_buffers [] = []"
  "delivered_buffers (Delivered b # evs) = b # delivered_buffers evs"
  by (simp_all add: delivered_buffers_def)

lemma delivered_of_buffers: "delivered_of c evs = concat (map (part_of c) (delivered_buffers evs))"
  by (induction evs) (auto simp: delivered_of_def delivered_buffers_def split: kevent.split)

lemma set_delivered_buffers: "b \<in> set (delivered_buffers evs) \<longleftrightarrow> Delivered b \<in> set evs"
  by (induction evs) (auto simp: delivered_buffers_def split: kevent.split)

text \<open>A full buffer of one of the first 16 processors is one the programs can handle.\<close>

lemma full_buffer_ok: "full_buffer n b \<Longrightarrow> buffer_ok b"
  by (simp add: full_buffer_def buffer_ok_def)

lemma full_buffer_fits:
  assumes "full_buffer n b" and "n \<le> 16" and "\<forall>pid. can_open env dir pid"
  shows "buffer_fits env dir b"
proof -
  have "unat (b_core b) < 16" using assms(1,2) by (simp add: full_buffer_def)
  then have "unat (ucast (b_core b) :: u8) < 16" by (simp add: unsigned_ucast_eq unsigned_take_bit_eq take_bit_nat_eq_self)
  with assms(3) show ?thesis by (simp add: buffer_fits_def)
qed

text \<open>The device of the sampling program delivers what a run of the module delivers.\<close>

definition reads_run :: "sampler_env \<Rightarrow> kevent list \<Rightarrow> bool" where
  "reads_run se evs \<longleftrightarrow> se_device se = Some \<lparr>dev_reads = map GotBuffer (delivered_buffers evs), dev_eof = False\<rparr> \<and>
     (\<exists>t. se_missed se = Some t \<and> snd (fgets 23 t) = [])"

lemma reads_run_device:
  assumes "reads_run se evs" and "\<forall>b. Delivered b \<in> set evs \<longrightarrow> full_buffer n b"
    and "delivered_buffers evs = b1 # b2 # bs" and "bs \<noteq> []"
  shows "device_ok se (map GotBuffer bs)"
proof -
  have ok: "buffer_ok b" if "b \<in> set (b1 # b2 # bs)" for b
    using that assms(2,3) set_delivered_buffers[of b evs] full_buffer_ok by auto
  have "\<forall>b \<in> set (sent_buffers (se_stack se) (map GotBuffer bs)). buffer_ok b"
    using ok assms(4) by (auto simp: sent_buffers_all)
  with ok assms(1,3) show ?thesis by (auto simp: reads_run_def device_ok_def)
qed

lemma intel_run:
  assumes "ktrace intel_api intel_irq intel_ok n m evs m'" and "kmod_rep n m es fs {}" and "intel_ok (arch m)" and "n \<le> 2 ^ 32"
  obtains es' fs' where "kmod_rep n m' es' fs' {}" "\<forall>b. Delivered b \<in> set evs \<longrightarrow> full_buffer n b"
    "\<forall>c < n. concat (map (part_of c) (delivered_buffers evs)) @ in_module m' fs' c = kept c (in_module m fs c) evs"
proof -
  have "session_inv intel_ok n m es fs" using assms(2-4) by (simp add: session_inv_def)
  from nmi.ktrace_session[OF assms(1) this] show ?thesis
    using that unfolding session_inv_def accounts_def delivered_of_buffers by blast
qed

end
