(* ===== verification/Legacy_Reader.thy ===== *)
theory Legacy_Reader
  imports Sender
begin

text \<open>
  textreader.cpp: the older program that prints the samples of \<open>/dev/pmu_samples\<close> with the
  command line and the executable of their process. It keeps a process table of its own, which
  looks every process up once. /proc may answer differently at every lookup: \<open>fs k\<close> is what the
  lookup number \<open>k\<close> finds.
\<close>

section \<open>The process table\<close>

record legacy_process =
  lp_pid :: u32
  lp_mode :: proc_mode
  lp_cmdline :: bytes
  lp_executable :: bytes

definition new_legacy_process :: legacy_process where
  "new_legacy_process = \<lparr>lp_pid = 0, lp_mode = Unknown, lp_cmdline = [], lp_executable = []\<rparr>"

text \<open>
  A file that cannot be opened reads as empty; a stream whose buffer fails ends there, without
  an exception, since none are enabled.
\<close>

definition readInto :: "proc_fs \<Rightarrow> u64 \<Rightarrow> string \<Rightarrow> bytes" where
  "readInto fs pid fn =
     (case fs_stream fs (proc_path pid fn) of StreamContent s \<Rightarrow> s | _ \<Rightarrow> [])"

definition readLinkPathInto :: "proc_fs \<Rightarrow> u64 \<Rightarrow> string \<Rightarrow> bytes" where
  "readLinkPathInto fs pid fn =
     (case fs_readlink fs (proc_path pid fn) of None \<Rightarrow> [] | Some target \<Rightarrow> c_str (take 1023 target))"

definition populate :: "proc_fs \<Rightarrow> legacy_process \<Rightarrow> legacy_process" where
  "populate fs p =
     (let p = p\<lparr>lp_cmdline := readInto fs (ucast (lp_pid p)) ''cmdline''\<rparr>;
          p = p\<lparr>lp_executable := readLinkPathInto fs (ucast (lp_pid p)) ''exe''\<rparr>
      in p\<lparr>lp_mode := (if lp_executable p = [] \<and> lp_cmdline p = [] then Kernel else User)\<rparr>)"

text \<open>\<open>lg_lookups\<close> counts the calls of \<open>populate\<close>, \<open>lg_out\<close> is the standard output.\<close>

record legacy =
  lg_procMap :: "u64 \<Rightarrow> legacy_process option"
  lg_lookups :: nat
  lg_out :: bytes

definition legacy0 :: legacy where
  "legacy0 = \<lparr>lg_procMap = (\<lambda>_. None), lg_lookups = 0, lg_out = []\<rparr>"

definition legacy_entry :: "legacy \<Rightarrow> u64 \<Rightarrow> legacy_process" where
  "legacy_entry st pid = (case lg_procMap st pid of None \<Rightarrow> new_legacy_process | Some p \<Rightarrow> p)"

definition legacy_getProcessInfo :: "(nat \<Rightarrow> proc_fs) \<Rightarrow> u64 \<Rightarrow> legacy \<Rightarrow> legacy_process \<times> legacy" where
  "legacy_getProcessInfo fs pid st =
     (let p = legacy_entry st pid
      in if lp_mode p = Unknown then
           let p = populate (fs (lg_lookups st)) (p\<lparr>lp_pid := ucast pid\<rparr>)
           in (p, st\<lparr>lg_procMap := (lg_procMap st)(pid \<mapsto> p), lg_lookups := lg_lookups st + 1\<rparr>)
         else (p, st\<lparr>lg_procMap := (lg_procMap st)(pid \<mapsto> p)\<rparr>))"

section \<open>Printing\<close>

definition legacy_line :: "u32 \<Rightarrow> sample \<Rightarrow> legacy_process \<Rightarrow> bytes" where
  "legacy_line core c p =
     comma_separated
       ([dec (unat (s_pid c)), dec (unat core), dec (unat (s_cycles c))] @
        map (\<lambda>i. dec (unat (s_counters c ! i))) [0..<6] @
        [c_str (lp_cmdline p), c_str (lp_executable p)]) @ newline"

definition output_sample :: "(nat \<Rightarrow> proc_fs) \<Rightarrow> u32 \<Rightarrow> sample \<Rightarrow> legacy \<Rightarrow> fault + legacy" where
  "output_sample fs core c st =
     (let (p, st) = legacy_getProcessInfo fs (s_pid c) st
      in Inr (st\<lparr>lg_out := lg_out st @ legacy_line core c p\<rparr>))"

definition outputBuffer :: "(nat \<Rightarrow> proc_fs) \<Rightarrow> buffer \<Rightarrow> legacy \<Rightarrow> fault + legacy" where
  "outputBuffer fs b st =
     (if \<not> unat (b_num_samples b) \<le> BUFFER_ENTRIES then Inl AssertFail
      else fault_fold (\<lambda>i st. fault_bind (sample_at (b_samples b) i) (\<lambda>c. output_sample fs (b_core b) c st))
             [0..<unat (b_num_samples b)] st)"

section \<open>main\<close>

text \<open>
  \<open>while (!feof(f))\<close> with \<open>b\<close> declared inside: \<open>stack k\<close> is what its memory holds at the start
  of round \<open>k\<close>. The result of \<open>fread\<close> is not looked at.
\<close>

function legacy_loop ::
  "(nat \<Rightarrow> proc_fs) \<Rightarrow> (nat \<Rightarrow> buffer) \<Rightarrow> nat \<Rightarrow> device \<Rightarrow> legacy \<Rightarrow> fault + legacy" where
  "legacy_loop fs stack k f st =
     (if dev_eof f then Inr st
      else fault_bind (outputBuffer fs (fst (dev_fread f (stack k))) st)
             (legacy_loop fs stack (k + 1) (snd (dev_fread f (stack k)))))"
  by pat_completeness auto
termination
  by (relation "measure (\<lambda>(fs, stack, k, f, st). size f)") (auto intro: dev_fread_size prod.collapse[symmetric])

declare legacy_loop.simps [simp del]

definition legacy_main ::
  "(nat \<Rightarrow> proc_fs) \<Rightarrow> (nat \<Rightarrow> buffer) \<Rightarrow> device option \<Rightarrow> fault + (int \<times> legacy)" where
  "legacy_main fs stack dev =
     (case dev of
        None \<Rightarrow> Inr (-1, legacy0)
      | Some f \<Rightarrow> fault_bind (legacy_loop fs stack 0 f legacy0) (\<lambda>st. Inr (0, st)))"

section \<open>One lookup per process\<close>

text \<open>Every entry was filled by one of the lookups made.\<close>

definition legacy_inv :: "(nat \<Rightarrow> proc_fs) \<Rightarrow> legacy \<Rightarrow> bool" where
  "legacy_inv fs st \<longleftrightarrow>
     (\<forall>pid p. lg_procMap st pid = Some p \<longrightarrow>
        (\<exists>k < lg_lookups st. p = populate (fs k) (new_legacy_process\<lparr>lp_pid := ucast pid\<rparr>))) \<and>
     finite (dom (lg_procMap st)) \<and> card (dom (lg_procMap st)) = lg_lookups st"

lemma populate_known: "lp_mode (populate fs p) \<noteq> Unknown"
  by (simp add: populate_def Let_def)

lemma legacy_inv_initial: "legacy_inv fs legacy0"
  by (simp add: legacy_inv_def legacy0_def)

lemma legacy_known:
  assumes "legacy_inv fs st" and "lg_procMap st pid = Some p"
  shows "legacy_getProcessInfo fs pid st = (p, st)"
proof -
  obtain k where "p = populate (fs k) (new_legacy_process\<lparr>lp_pid := ucast pid\<rparr>)"
    using assms unfolding legacy_inv_def by blast
  then have "lp_mode p \<noteq> Unknown" by (simp add: populate_known)
  moreover have "(lg_procMap st)(pid \<mapsto> p) = lg_procMap st" using assms(2) by (simp add: fun_upd_idem)
  ultimately show ?thesis using assms(2) by (simp add: legacy_getProcessInfo_def legacy_entry_def Let_def)
qed

lemma legacy_first:
  assumes "lg_procMap st pid = None"
  shows "legacy_getProcessInfo fs pid st =
     (let p = populate (fs (lg_lookups st)) (new_legacy_process\<lparr>lp_pid := ucast pid\<rparr>)
      in (p, st\<lparr>lg_procMap := (lg_procMap st)(pid \<mapsto> p), lg_lookups := lg_lookups st + 1\<rparr>))"
  using assms by (simp add: legacy_getProcessInfo_def legacy_entry_def Let_def new_legacy_process_def)

text \<open>A lookup gives the entry of the process, and only ever adds entries.\<close>

lemma legacy_lookup:
  assumes inv: "legacy_inv fs st"
  obtains p st' where "legacy_getProcessInfo fs pid st = (p, st')" "legacy_inv fs st'" "lg_procMap st' pid = Some p"
    "lg_procMap st \<subseteq>\<^sub>m lg_procMap st'" "dom (lg_procMap st') = insert pid (dom (lg_procMap st))" "lg_out st' = lg_out st"
proof (cases "lg_procMap st pid")
  case (Some p)
  with inv show ?thesis using that[of p st] legacy_known[OF inv Some] by auto
next
  case None
  let ?p = "populate (fs (lg_lookups st)) (new_legacy_process\<lparr>lp_pid := ucast pid\<rparr>)"
  let ?st = "st\<lparr>lg_procMap := (lg_procMap st)(pid \<mapsto> ?p), lg_lookups := lg_lookups st + 1\<rparr>"
  have "pid \<notin> dom (lg_procMap st)" using None by auto
  then have card: "card (dom (lg_procMap ?st)) = lg_lookups ?st" "finite (dom (lg_procMap ?st))"
    using inv by (simp_all add: legacy_inv_def)
  have "\<exists>k < lg_lookups ?st. p = populate (fs k) (new_legacy_process\<lparr>lp_pid := ucast q\<rparr>)"
    if "lg_procMap ?st q = Some p" for q p
  proof (cases "q = pid")
    case True
    with that show ?thesis by (intro exI[of _ "lg_lookups st"]) simp
  next
    case False
    with that inv obtain k where "k < lg_lookups st" "p = populate (fs k) (new_legacy_process\<lparr>lp_pid := ucast q\<rparr>)"
      unfolding legacy_inv_def by auto
    then show ?thesis by (intro exI[of _ k]) simp
  qed
  with card have "legacy_inv fs ?st" unfolding legacy_inv_def by blast
  moreover have "lg_procMap st \<subseteq>\<^sub>m lg_procMap ?st" using None by (auto simp: map_le_def)
  ultimately show ?thesis using that[of ?p ?st] legacy_first[OF None, of fs] by (simp add: Let_def)
qed

section \<open>What is printed\<close>

text \<open>The lines of the samples of some buffers, with the entries of a table.\<close>

definition legacy_lines :: "(u64 \<Rightarrow> legacy_process option) \<Rightarrow> (u32 \<times> sample) list \<Rightarrow> bytes" where
  "legacy_lines procs cs = concat (map (\<lambda>(core, c). legacy_line core c (the (procs (s_pid c)))) cs)"

lemma legacy_lines_simps [simp]:
  "legacy_lines procs [] = []"
  "legacy_lines procs (cs @ ds) = legacy_lines procs cs @ legacy_lines procs ds"
  by (simp_all add: legacy_lines_def)

lemma legacy_lines_mono:
  assumes "\<forall>(core, c) \<in> set cs. s_pid c \<in> dom procs" and "procs \<subseteq>\<^sub>m procs'"
  shows "legacy_lines procs' cs = legacy_lines procs cs"
proof -
  have "procs' (s_pid c) = procs (s_pid c)" if "(core, c) \<in> set cs" for core c
    using assms(1) assms(2)[unfolded map_le_def] that by (metis (mono_tags, lifting) case_prodD domD)
  then show ?thesis unfolding legacy_lines_def by (intro arg_cong[of _ _ concat] map_cong) auto
qed

text \<open>
  The state after printing \<open>cs\<close>: each of them with the entry its process has in the table, which
  holds the processes of the samples and of nothing else.
\<close>

definition printed :: "(nat \<Rightarrow> proc_fs) \<Rightarrow> (u32 \<times> sample) list \<Rightarrow> legacy \<Rightarrow> bool" where
  "printed fs cs st \<longleftrightarrow> legacy_inv fs st \<and> dom (lg_procMap st) = s_pid ` snd ` set cs \<and>
     lg_out st = legacy_lines (lg_procMap st) cs"

lemma printed_initial: "printed fs [] legacy0"
  by (simp add: printed_def legacy_inv_initial) (simp add: legacy0_def)

lemma output_sample_ok:
  assumes "printed fs cs st"
  shows "\<exists>st'. output_sample fs core c st = Inr st' \<and> printed fs (cs @ [(core, c)]) st'"
proof -
  have inv: "legacy_inv fs st" and d: "dom (lg_procMap st) = s_pid ` snd ` set cs"
    and out: "lg_out st = legacy_lines (lg_procMap st) cs" using assms by (simp_all add: printed_def)
  obtain p st1 where 1: "legacy_getProcessInfo fs (s_pid c) st = (p, st1)" "legacy_inv fs st1"
    "lg_procMap st1 (s_pid c) = Some p" "lg_procMap st \<subseteq>\<^sub>m lg_procMap st1"
    "dom (lg_procMap st1) = insert (s_pid c) (dom (lg_procMap st))" "lg_out st1 = lg_out st"
    using legacy_lookup[OF inv] .
  let ?st = "st1\<lparr>lg_out := lg_out st1 @ legacy_line core c p\<rparr>"
  have "\<forall>(core, c) \<in> set cs. s_pid c \<in> dom (lg_procMap st)" unfolding d by force
  then have "lg_out ?st = legacy_lines (lg_procMap ?st) (cs @ [(core, c)])"
    using legacy_lines_mono[OF _ 1(4), of cs] 1(3,6) out by (simp add: legacy_lines_def)
  moreover have "legacy_inv fs ?st" using 1(2) by (simp add: legacy_inv_def)
  moreover have "dom (lg_procMap ?st) = s_pid ` snd ` set (cs @ [(core, c)])" using 1(5) d by simp
  ultimately show ?thesis using 1(1) by (simp add: output_sample_def printed_def)
qed

lemma output_samples_ok:
  "printed fs cs st \<Longrightarrow>
   \<exists>st'. fault_fold (output_sample fs core) ss st = Inr st' \<and> printed fs (cs @ map (Pair core) ss) st'"
proof (induction ss arbitrary: cs st)
  case Nil
  then show ?case by simp
next
  case (Cons c ss)
  obtain st1 where 1: "output_sample fs core c st = Inr st1" "printed fs (cs @ [(core, c)]) st1"
    using output_sample_ok[OF Cons.prems] by blast
  from Cons.IH[OF 1(2)] 1(1) show ?case by simp
qed

text \<open>The samples of a buffer with their core.\<close>

definition core_samples :: "buffer \<Rightarrow> (u32 \<times> sample) list" where
  "core_samples b = map (Pair (b_core b)) (filled b)"

definition printable :: "buffer \<Rightarrow> bool" where
  "printable b \<longleftrightarrow> wf_buffer b \<and> unat (b_num_samples b) \<le> BUFFER_ENTRIES"

lemma outputBuffer_ok:
  assumes "printed fs cs st" and "printable b"
  shows "\<exists>st'. outputBuffer fs b st = Inr st' \<and> printed fs (cs @ core_samples b) st'"
proof -
  have "unat (b_num_samples b) \<le> length (b_samples b)" using assms(2) by (simp add: printable_def wf_buffer_def)
  then have "outputBuffer fs b st = fault_fold (output_sample fs (b_core b)) (filled b) st"
    using assms(2) fold_sample_at[of "unat (b_num_samples b)" "b_samples b" "output_sample fs (b_core b)"]
    by (simp add: outputBuffer_def printable_def filled_def)
  with output_samples_ok[OF assms(1), of "b_core b" "filled b"] show ?thesis by (simp add: core_samples_def)
qed

text \<open>A device that delivers the buffers \<open>bs\<close> and then ends.\<close>

lemma legacy_loop_ok:
  assumes "printed fs cs st" and "\<forall>b \<in> set bs. printable b"
  shows "\<exists>st'. printed fs (cs @ concat (map core_samples bs)) st' \<and>
     legacy_loop fs stack k \<lparr>dev_reads = map GotBuffer bs, dev_eof = False\<rparr> st =
       outputBuffer fs (stack (k + length bs)) st'"
  using assms
proof (induction bs arbitrary: cs st k)
  case Nil
  have "legacy_loop fs stack k \<lparr>dev_reads = [], dev_eof = False\<rparr> st = outputBuffer fs (stack k) st"
    by (simp add: legacy_loop.simps[of fs stack k] legacy_loop.simps[of fs stack "Suc k"] dev_fread_def fault_bind_def split: sum.split)
  with Nil show ?case by (intro exI[of _ st]) simp
next
  case (Cons b bs)
  obtain st1 where 1: "outputBuffer fs b st = Inr st1" "printed fs (cs @ core_samples b) st1"
    using outputBuffer_ok[OF Cons.prems(1)] Cons.prems(2) by auto
  have "legacy_loop fs stack k \<lparr>dev_reads = map GotBuffer (b # bs), dev_eof = False\<rparr> st =
      legacy_loop fs stack (k + 1) \<lparr>dev_reads = map GotBuffer bs, dev_eof = False\<rparr> st1"
    using 1(1) by (subst legacy_loop.simps) (simp add: dev_fread_def)
  moreover have "\<exists>st'. printed fs ((cs @ core_samples b) @ concat (map core_samples bs)) st' \<and>
     legacy_loop fs stack (k + 1) \<lparr>dev_reads = map GotBuffer bs, dev_eof = False\<rparr> st1 =
       outputBuffer fs (stack (k + 1 + length bs)) st'"
    using Cons.prems(2) by (intro Cons.IH[OF 1(2)]) simp
  ultimately show ?case by simp
qed

end
