(* ===== verification/V7_Pmu.thy ===== *)
theory V7_Pmu
  imports Prelude
begin

text \<open>
  module/v7_pmu.S: the access functions for the performance monitor of an ARMv7 processor. A
  coprocessor register read (MRC) or write (MCR) acts as the architecture documents: the
  enable registers are set and cleared by writing ones to separate addresses, the flags are
  cleared by writing ones, the reset bits of PMNC read as zero, EVTSEL and PMN are those of
  the counter selected by PMNXSEL.
\<close>

unbundle bit_operations_syntax

section \<open>Registers\<close>

record v7_pmu =
  r_pmnc :: u32
  r_cnten :: u32
  r_inten :: u32
  r_flags :: u32
  r_pmnxsel :: u32
  r_ccnt :: u32
  r_evtsel :: "nat \<Rightarrow> u32"
  r_pmn :: "nat \<Rightarrow> u32"
  r_useren :: u32
  r_swincr :: u32

text \<open>Bits 11 to 15 of PMNC, the number of counters, are read-only.\<close>

definition mcr_pmnc :: "u32 \<Rightarrow> v7_pmu \<Rightarrow> v7_pmu" where
  "mcr_pmnc v r =
     (let r = (if bit v 1 then r\<lparr>r_pmn := (\<lambda>_. 0)\<rparr> else r);
          r = (if bit v 2 then r\<lparr>r_ccnt := 0\<rparr> else r)
      in r\<lparr>r_pmnc := (v AND NOT 6 AND NOT 0xF800) OR (r_pmnc r AND 0xF800)\<rparr>)"

definition mcr_cntens :: "u32 \<Rightarrow> v7_pmu \<Rightarrow> v7_pmu" where
  "mcr_cntens v r = r\<lparr>r_cnten := r_cnten r OR v\<rparr>"

definition mcr_cntenc :: "u32 \<Rightarrow> v7_pmu \<Rightarrow> v7_pmu" where
  "mcr_cntenc v r = r\<lparr>r_cnten := r_cnten r AND NOT v\<rparr>"

definition mcr_intens :: "u32 \<Rightarrow> v7_pmu \<Rightarrow> v7_pmu" where
  "mcr_intens v r = r\<lparr>r_inten := r_inten r OR v\<rparr>"

definition mcr_intenc :: "u32 \<Rightarrow> v7_pmu \<Rightarrow> v7_pmu" where
  "mcr_intenc v r = r\<lparr>r_inten := r_inten r AND NOT v\<rparr>"

definition mcr_flag :: "u32 \<Rightarrow> v7_pmu \<Rightarrow> v7_pmu" where
  "mcr_flag v r = r\<lparr>r_flags := r_flags r AND NOT v\<rparr>"

definition mcr_pmnxsel :: "u32 \<Rightarrow> v7_pmu \<Rightarrow> v7_pmu" where
  "mcr_pmnxsel v r = r\<lparr>r_pmnxsel := v\<rparr>"

definition mcr_evtsel :: "u32 \<Rightarrow> v7_pmu \<Rightarrow> v7_pmu" where
  "mcr_evtsel v r = r\<lparr>r_evtsel := (r_evtsel r)(unat (r_pmnxsel r) := v)\<rparr>"

definition mcr_pmn :: "u32 \<Rightarrow> v7_pmu \<Rightarrow> v7_pmu" where
  "mcr_pmn v r = r\<lparr>r_pmn := (r_pmn r)(unat (r_pmnxsel r) := v)\<rparr>"

lemmas mcr_defs = mcr_pmnc_def mcr_cntens_def mcr_cntenc_def mcr_intens_def mcr_intenc_def
  mcr_flag_def mcr_pmnxsel_def mcr_evtsel_def mcr_pmn_def

section \<open>The functions\<close>

definition getPMN :: "v7_pmu \<Rightarrow> u32" where
  "getPMN r = drop_bit 11 (r_pmnc r) AND 0x1F"

definition pmn_config :: "u32 \<Rightarrow> u32 \<Rightarrow> v7_pmu \<Rightarrow> v7_pmu" where
  "pmn_config counter event r = mcr_evtsel event (mcr_pmnxsel (counter AND 0x1F) r)"

definition ccnt_divider :: "u32 \<Rightarrow> v7_pmu \<Rightarrow> v7_pmu" where
  "ccnt_divider divider r =
     mcr_pmnc (if divider = 0 then r_pmnc r AND NOT 0x08 else r_pmnc r OR 0x08) r"

definition enable_pmu :: "v7_pmu \<Rightarrow> v7_pmu" where
  "enable_pmu r = mcr_pmnc (r_pmnc r OR 0x01) r"

definition disable_pmu :: "v7_pmu \<Rightarrow> v7_pmu" where
  "disable_pmu r = mcr_pmnc (r_pmnc r AND NOT 0x01) r"

definition enable_ccnt :: "v7_pmu \<Rightarrow> v7_pmu" where
  "enable_ccnt = mcr_cntens 0x80000000"

definition disable_ccnt :: "v7_pmu \<Rightarrow> v7_pmu" where
  "disable_ccnt = mcr_cntenc 0x80000000"

text \<open>\<open>LSL\<close> by a register takes its low byte; 32 and more give 0.\<close>

definition lsl_one :: "u32 \<Rightarrow> u32" where
  "lsl_one counter = push_bit (unat (counter AND 0xFF)) 1"

definition enable_pmn :: "u32 \<Rightarrow> v7_pmu \<Rightarrow> v7_pmu" where
  "enable_pmn counter = mcr_cntens (lsl_one counter)"

definition disable_pmn :: "u32 \<Rightarrow> v7_pmu \<Rightarrow> v7_pmu" where
  "disable_pmn counter = mcr_cntens (lsl_one counter)"

definition enable_pmu_user_access :: "v7_pmu \<Rightarrow> v7_pmu" where
  "enable_pmu_user_access r = r\<lparr>r_useren := r_useren r OR 0x01\<rparr>"

definition disable_pmu_user_access :: "v7_pmu \<Rightarrow> v7_pmu" where
  "disable_pmu_user_access r = r\<lparr>r_useren := r_useren r AND NOT 0x01\<rparr>"

definition read_ccnt_int :: "v7_pmu \<Rightarrow> u32" where
  "read_ccnt_int r = r_ccnt r"

definition write_ccnt :: "u32 \<Rightarrow> v7_pmu \<Rightarrow> v7_pmu" where
  "write_ccnt v r = r\<lparr>r_ccnt := v\<rparr>"

definition read_pmn_int :: "u32 \<Rightarrow> v7_pmu \<Rightarrow> u32 \<times> v7_pmu" where
  "read_pmn_int counter r =
     (let r = mcr_pmnxsel (counter AND 0x1F) r in (r_pmn r (unat (r_pmnxsel r)), r))"

definition write_pmn :: "u32 \<Rightarrow> u32 \<Rightarrow> v7_pmu \<Rightarrow> v7_pmu" where
  "write_pmn counter v r = mcr_pmn v (mcr_pmnxsel (counter AND 0x1F) r)"

definition pmu_software_increment :: "u32 \<Rightarrow> v7_pmu \<Rightarrow> v7_pmu" where
  "pmu_software_increment counter r = r\<lparr>r_swincr := lsl_one counter\<rparr>"

definition read_flags :: "v7_pmu \<Rightarrow> u32" where
  "read_flags r = r_flags r"

definition write_flags :: "u32 \<Rightarrow> v7_pmu \<Rightarrow> v7_pmu" where
  "write_flags = mcr_flag"

definition enable_ccnt_irq :: "v7_pmu \<Rightarrow> v7_pmu" where
  "enable_ccnt_irq = mcr_intens 0x80000000"

definition disable_ccnt_irq :: "v7_pmu \<Rightarrow> v7_pmu" where
  "disable_ccnt_irq = mcr_intenc 0x80000000"

definition enable_pmn_irq :: "u32 \<Rightarrow> v7_pmu \<Rightarrow> v7_pmu" where
  "enable_pmn_irq counter = mcr_intens (lsl_one counter)"

definition disable_pmn_irq :: "u32 \<Rightarrow> v7_pmu \<Rightarrow> v7_pmu" where
  "disable_pmn_irq counter = mcr_intenc (lsl_one counter)"

definition reset_pmn :: "v7_pmu \<Rightarrow> v7_pmu" where
  "reset_pmn r = mcr_pmnc (r_pmnc r OR 0x02) r"

definition reset_ccnt :: "v7_pmu \<Rightarrow> v7_pmu" where
  "reset_ccnt r = mcr_pmnc (r_pmnc r OR 0x04) r"

section \<open>What they do\<close>

text \<open>Bits of the constants used above.\<close>

lemma bit_push_mask: "bit (push_bit k (mask m) :: u32) n \<longleftrightarrow> k \<le> n \<and> n < k + m \<and> n < 32"
  by (auto simp: bit_simps)

lemma bit_push_one: "bit (push_bit k 1 :: u32) n \<longleftrightarrow> n = k \<and> k < 32"
  by (auto simp: bit_simps)

lemma word_consts:
  "bit (0x80000000 :: u32) n \<longleftrightarrow> n = 31" "bit (1 :: u32) n \<longleftrightarrow> n = 0"
  "bit (0x02 :: u32) n \<longleftrightarrow> n = 1" "bit (0x04 :: u32) n \<longleftrightarrow> n = 2" "bit (6 :: u32) n \<longleftrightarrow> n = 1 \<or> n = 2"
  "bit (0x1F :: u32) n \<longleftrightarrow> n < 5" "bit (0xF800 :: u32) n \<longleftrightarrow> 11 \<le> n \<and> n < 16"
proof -
  have c: "(0x80000000 :: u32) = push_bit 31 1" "(0x02 :: u32) = push_bit 1 1" "(0x04 :: u32) = push_bit 2 1"
    "(6 :: u32) = push_bit 1 (mask 2)" "(0x1F :: u32) = push_bit 0 (mask 5)" "(0xF800 :: u32) = push_bit 11 (mask 5)"
    by (simp_all add: mask_eq_exp_minus_1)
  show "bit (0x80000000 :: u32) n \<longleftrightarrow> n = 31" unfolding c(1) bit_push_one by simp
  show "bit (1 :: u32) n \<longleftrightarrow> n = 0" using bit_push_one[of 0 n] by simp
  show "bit (0x02 :: u32) n \<longleftrightarrow> n = 1" unfolding c(2) bit_push_one by simp
  show "bit (0x04 :: u32) n \<longleftrightarrow> n = 2" unfolding c(3) bit_push_one by simp
  show "bit (6 :: u32) n \<longleftrightarrow> n = 1 \<or> n = 2" unfolding c(4) bit_push_mask by auto
  show "bit (0x1F :: u32) n \<longleftrightarrow> n < 5" unfolding c(5) bit_push_mask by auto
  show "bit (0xF800 :: u32) n \<longleftrightarrow> 11 \<le> n \<and> n < 16" unfolding c(6) bit_push_mask by auto
qed

lemma bit_lsl_one: "i < 32 \<Longrightarrow> bit (lsl_one (of_nat i)) n \<longleftrightarrow> n = i"
proof -
  assume i: "i < 32"
  have "(of_nat i :: u32) AND 0xFF = of_nat i mod 2 ^ 8"
    using take_bit_eq_mask[of 8 "of_nat i :: u32"] by (simp add: take_bit_eq_mod mask_eq_exp_minus_1)
  then have "unat ((of_nat i :: u32) AND 0xFF) = i" using i by (simp add: unat_mod unat_of_nat)
  then show ?thesis using i by (auto simp: lsl_one_def bit_simps)
qed

text \<open>The enable bit and the rest of the registers.\<close>

lemma pmnc_E [simp]:
  "bit (r_pmnc (enable_pmu r)) 0" "\<not> bit (r_pmnc (disable_pmu r)) 0"
  "bit (r_pmnc (reset_pmn r)) 0 = bit (r_pmnc r) 0" "bit (r_pmnc (reset_ccnt r)) 0 = bit (r_pmnc r) 0"
  by (simp_all add: enable_pmu_def disable_pmu_def reset_pmn_def reset_ccnt_def mcr_pmnc_def Let_def
      bit_simps word_consts)

lemma r_pmnc_mcr: "r_pmnc (mcr_pmnc v r) = (v AND NOT 6 AND NOT 0xF800) OR (r_pmnc r AND 0xF800)"
  by (simp add: mcr_pmnc_def Let_def)

lemma getPMN_pmnc: "getPMN (mcr_pmnc v r) = getPMN r"
  unfolding getPMN_def r_pmnc_mcr
  by (rule bit_word_eqI) (simp only: bit_and_iff bit_or_iff bit_drop_bit_eq o_def bit_not_iff word_consts, auto)

text \<open>
  The comment on \<open>disable_pmn\<close> and its name say that the counter is disabled; it writes the
  register that enables it.
\<close>

lemma disable_pmn_enables: "i < 32 \<Longrightarrow> bit (r_cnten (disable_pmn (of_nat i) r)) i"
  by (simp add: disable_pmn_def mcr_cntens_def bit_simps bit_lsl_one)

lemma disable_is_enable: "disable_pmn = enable_pmn"
  by (simp add: disable_pmn_def enable_pmn_def fun_eq_iff)

end
