(* ===== verification/Arm.thy ===== *)
theory Arm
  imports Kernel_Waiting V7_Pmu
begin

text \<open>
  module/arm.c: the same interface on an OMAP4 with ARMv7 processors. Each processor has the
  registers of \<open>V7_Pmu\<close>; the two interrupts come through the cross trigger interfaces (CTI).
  What mapping their registers, setting an affinity and requesting an interrupt return, and
  what the power controller answers while it is polled, are fields of the state.
\<close>

section \<open>State\<close>

datatype irqnum = OMAP44XX_IRQ_CTI0 | OMAP44XX_IRQ_CTI1 | Other_irq

text \<open>The registers of the power controller, by their names.\<close>

datatype omap_reg = CM_EMU_CLKSTCTRL | CM_L3INSTR_L3_3_CLKCTRL | CM_L3INSTR_L3_INSTR_CLKCTRL | CM_PRM_PROFILING_CLKCTRL
  | PM_EMU_PWRSTST | RM_EMU_DEBUGSS_CONTEXT

text \<open>
  The calls of kernel functions that configure clocks, cross triggers and interrupts, in the order
  they are made: \<open>Cti_map_trigger k ch in out\<close> routes trigger \<open>in\<close> of interface \<open>k\<close> to \<open>out\<close>.
\<close>

datatype io_call = Raw_writel u32 omap_reg | Cti_init nat irqnum nat | Cti_unlock nat | Cti_map_trigger nat nat nat nat
  | Cti_enable nat | Cti_disable nat | Set_affinity irqnum nat | Request_irq irqnum | Free_irq irqnum

record arm =
  pmu :: "nat \<Rightarrow> v7_pmu"
  arm_num_ctrs :: nat
  arm_cpu :: nat
  emu_polls :: "u32 list"
  ioremap_ok :: "bool \<times> bool"
  affinity_rc :: "int \<times> int"
  request_rc :: "int \<times> int"
  io :: "io_call list"
  irq0 :: bool
  irq1 :: bool

definition on_pmu :: "nat \<Rightarrow> (v7_pmu \<Rightarrow> v7_pmu) \<Rightarrow> arm \<Rightarrow> arm" where
  "on_pmu c f hw = hw\<lparr>pmu := (pmu hw)(c := f (pmu hw c))\<rparr>"

lemma on_pmu_simps [simp]:
  "pmu (on_pmu c f hw) d = (if d = c then f (pmu hw c) else pmu hw d)"
  "arm_num_ctrs (on_pmu c f hw) = arm_num_ctrs hw"
  by (simp_all add: on_pmu_def)

section \<open>The functions of pmu_api.h\<close>

definition arm_read_ccnt :: "nat \<Rightarrow> arm \<Rightarrow> u64" where
  "arm_read_ccnt c hw = ucast (read_ccnt_int (pmu hw c))"

definition arm_read_pmn :: "nat \<Rightarrow> nat \<Rightarrow> arm \<Rightarrow> u64 \<times> arm" where
  "arm_read_pmn c i hw =
     (let (v, r) = read_pmn_int (of_nat i) (pmu hw c) in (ucast v, on_pmu c (\<lambda>_. r) hw))"

text \<open>\<open>dump_regs\<close> reads every counter, which leaves the last one selected.\<close>

definition arm_dump_regs :: "nat \<Rightarrow> arm \<Rightarrow> arm" where
  "arm_dump_regs c hw =
     on_pmu c (fold (\<lambda>cnt r. snd (read_pmn_int (of_nat cnt) r)) [0..<arm_num_ctrs hw]) hw"

definition arm_stopCtrsLocal :: "nat \<Rightarrow> arm \<Rightarrow> arm" where
  "arm_stopCtrsLocal c hw =
     on_pmu c (\<lambda>r. disable_pmu (fold (\<lambda>i. disable_pmn (of_nat i)) [0..<arm_num_ctrs hw]
                     (disable_ccnt (disable_ccnt_irq r)))) hw"

definition arm_ccnt_start :: "u64 \<Rightarrow> u32" where
  "arm_ccnt_start p = ucast (0xFFFFFFFF - p)"

definition arm_config_counter :: "u64 list \<Rightarrow> nat \<Rightarrow> v7_pmu \<Rightarrow> fault + v7_pmu" where
  "arm_config_counter cs i r =
     (if i < length cs then Inr (pmn_config (of_nat i) (ucast (cs ! i)) r) else Inl OutOfBounds)"

definition arm_startCtrsLocal :: "nat \<Rightarrow> u64 list \<Rightarrow> u64 \<Rightarrow> arm \<Rightarrow> fault + arm" where
  "arm_startCtrsLocal c cs p hw =
     (let r = disable_ccnt (disable_pmu (pmu hw c));
          r = reset_pmn (reset_ccnt r);
          r = write_flags 0xFFFFFFFF r;
          r = write_ccnt (arm_ccnt_start p) r
      in fault_bind (fault_fold (arm_config_counter cs) [0..<arm_num_ctrs hw] r) (\<lambda>r.
           let hw = arm_dump_regs c (on_pmu c (\<lambda>_. r) hw);
               r = enable_ccnt_irq (pmu hw c);
               r = fold (\<lambda>i. enable_pmn (of_nat i)) [0..<arm_num_ctrs hw] r
           in Inr (on_pmu c (\<lambda>_. enable_pmu (enable_ccnt r)) hw)))"

section \<open>Interrupts\<close>

definition ENOMEM :: int where "ENOMEM = 12"

definition do_io :: "io_call list \<Rightarrow> arm \<Rightarrow> arm" where
  "do_io cs hw = hw\<lparr>io := io hw @ cs\<rparr>"

lemma do_io_simps [simp]:
  "pmu (do_io cs hw) = pmu hw" "arm_num_ctrs (do_io cs hw) = arm_num_ctrs hw" "arm_cpu (do_io cs hw) = arm_cpu hw"
  "emu_polls (do_io cs hw) = emu_polls hw" "ioremap_ok (do_io cs hw) = ioremap_ok hw" "affinity_rc (do_io cs hw) = affinity_rc hw"
  "request_rc (do_io cs hw) = request_rc hw" "irq0 (do_io cs hw) = irq0 hw" "irq1 (do_io cs hw) = irq1 hw"
  "io (do_io cs hw) = io hw @ cs"
  by (simp_all add: do_io_def)

definition pmu_cti_on :: "arm \<Rightarrow> arm" where
  "pmu_cti_on = do_io [Cti_unlock 0, Cti_map_trigger 0 1 6 2, Cti_enable 0, Cti_unlock 1, Cti_map_trigger 1 1 6 3, Cti_enable 1]"

definition pmu_cti_off :: "arm \<Rightarrow> arm" where
  "pmu_cti_off = do_io [Cti_disable 0, Cti_disable 1]"

definition omap4_init_cti :: "arm \<Rightarrow> int \<times> arm" where
  "omap4_init_cti hw =
     (if \<not> fst (ioremap_ok hw) \<or> \<not> snd (ioremap_ok hw) then (- ENOMEM, hw)
      else (0, do_io [Cti_init 0 OMAP44XX_IRQ_CTI0 6, Cti_init 1 OMAP44XX_IRQ_CTI1 6] hw))"

definition config_irq :: "arm \<Rightarrow> int \<times> arm" where
  "config_irq hw =
     (let (rc, hw) = omap4_init_cti hw
      in if rc \<noteq> 0 then (rc, hw)
         else
           let hw = do_io [Set_affinity OMAP44XX_IRQ_CTI0 0] (pmu_cti_on hw)
           in if fst (affinity_rc hw) \<noteq> 0 then (fst (affinity_rc hw), hw)
              else
                let hw = do_io [Request_irq OMAP44XX_IRQ_CTI0] hw
                in if fst (request_rc hw) \<noteq> 0 then (fst (request_rc hw), hw)
                   else
                     let hw = do_io [Set_affinity OMAP44XX_IRQ_CTI1 1] (hw\<lparr>irq0 := True\<rparr>)
                     in if snd (affinity_rc hw) \<noteq> 0
                        then (snd (affinity_rc hw), do_io [Free_irq OMAP44XX_IRQ_CTI0] (hw\<lparr>irq0 := False\<rparr>))
                        else
                          let hw = do_io [Request_irq OMAP44XX_IRQ_CTI1] hw
                          in if snd (request_rc hw) \<noteq> 0
                             then (snd (request_rc hw), do_io [Free_irq OMAP44XX_IRQ_CTI0] (hw\<lparr>irq0 := False\<rparr>))
                             else (0, hw\<lparr>irq1 := True\<rparr>))"

text \<open>
  \<open>do val = ...; while ((val & 0x30000) != 0)\<close> over the values the power controller returns;
  \<open>None\<close>: it never reports that it is ready. A failure of \<open>config_irq\<close> is printed only.
\<close>

definition arm_initialize_arch :: "arm \<Rightarrow> (int \<times> arm) option" where
  "arm_initialize_arch hw =
     (let hw = do_io [Raw_writel 2 CM_EMU_CLKSTCTRL, Raw_writel 1 CM_L3INSTR_L3_3_CLKCTRL,
        Raw_writel 1 CM_L3INSTR_L3_INSTR_CLKCTRL, Raw_writel 1 CM_PRM_PROFILING_CLKCTRL, Raw_writel 0x3000000 PM_EMU_PWRSTST] hw
      in case dropWhile (\<lambda>val. val AND 0x30000 \<noteq> 0) (emu_polls hw) of
           [] \<Rightarrow> None
         | val # polls \<Rightarrow>
             let hw = do_io [Raw_writel 0x101 RM_EMU_DEBUGSS_CONTEXT] (hw\<lparr>emu_polls := polls\<rparr>);
                 hw = hw\<lparr>arm_num_ctrs := unat (getPMN (pmu hw (arm_cpu hw)))\<rparr>;
                 (rc, hw) = config_irq hw
             in Some (0, hw))"

definition arm_cleanup_arch :: "arm \<Rightarrow> arm" where
  "arm_cleanup_arch hw =
     do_io [Free_irq OMAP44XX_IRQ_CTI0, Free_irq OMAP44XX_IRQ_CTI1] ((pmu_cti_off hw)\<lparr>irq0 := False, irq1 := False\<rparr>)"

definition arm_api :: "arm pmu_api" where
  "arm_api = \<lparr>num_ctrs = arm_num_ctrs, read_ccnt = arm_read_ccnt, read_pmn = arm_read_pmn,
     initialize_arch = arm_initialize_arch, cleanup_arch = arm_cleanup_arch,
     startCtrsLocal = arm_startCtrsLocal, stopCtrsLocal = arm_stopCtrsLocal, dump_regs = arm_dump_regs,
     register_interrupt = (\<lambda>hw. hw), deregister_interrupt = (\<lambda>hw. hw)\<rparr>"

datatype irqreturn = IRQ_NONE | IRQ_HANDLED

definition pmu_step :: "nat \<Rightarrow> (v7_pmu \<Rightarrow> v7_pmu) \<Rightarrow> arm kmod \<Rightarrow> arm kmod" where
  "pmu_step c f m = m\<lparr>arch := on_pmu c f (arch m)\<rparr>"

definition sample_handle_irq :: "nat \<Rightarrow> irqnum \<Rightarrow> u64 \<Rightarrow> arm kmod \<Rightarrow> fault + (irqreturn \<times> arm kmod)" where
  "sample_handle_irq c irq pid m =
     (if irq = Other_irq then Inr (IRQ_NONE, m)
      else
        let m = pmu_step c disable_pmu m;
            flags = read_flags (pmu (arch m) c)
        in if flags = 0 then Inr (IRQ_NONE, m)
           else fault_bind (gatherSample arm_api c pid m) (\<lambda>m.
                  let m = pmu_step c reset_pmn m;
                      m = (if shutdown m = 0 then pmu_step c (write_ccnt (arm_ccnt_start (period m))) m else m);
                      m = pmu_step c (write_flags 0xFFFFFFFF) m;
                      m = (if shutdown m = 0 then pmu_step c enable_pmu m else m)
                  in Inr (IRQ_HANDLED, m)))"

section \<open>The contract\<close>

text \<open>The sample structure and the configuration array have room for six counters.\<close>

definition arm_ok :: "arm \<Rightarrow> bool" where
  "arm_ok hw \<longleftrightarrow> arm_num_ctrs hw \<le> 6"

definition arm_running :: "arm \<Rightarrow> nat \<Rightarrow> bool" where
  "arm_running hw c \<longleftrightarrow> bit (r_pmnc (pmu hw c)) 0"

lemma arm_running_on_pmu:
  "arm_running (on_pmu c f hw) = (arm_running hw)(c := bit (r_pmnc (f (pmu hw c))) 0)"
  by (auto simp: arm_running_def fun_eq_iff)

lemma read_pmn_int_simps [simp]:
  "r_pmnc (snd (read_pmn_int i r)) = r_pmnc r" "r_pmn (snd (read_pmn_int i r)) = r_pmn r"
  "r_cnten (snd (read_pmn_int i r)) = r_cnten r" "r_inten (snd (read_pmn_int i r)) = r_inten r"
  "r_evtsel (snd (read_pmn_int i r)) = r_evtsel r" "r_ccnt (snd (read_pmn_int i r)) = r_ccnt r"
  "fst (read_pmn_int i r) = r_pmn r (unat (i AND 0x1F))"
  by (simp_all add: read_pmn_int_def mcr_pmnxsel_def Let_def)

lemma dump_simps [simp]:
  "r_pmnc (fold (\<lambda>cnt r. snd (read_pmn_int (f cnt) r)) is r) = r_pmnc r"
  "r_cnten (fold (\<lambda>cnt r. snd (read_pmn_int (f cnt) r)) is r) = r_cnten r"
  "r_inten (fold (\<lambda>cnt r. snd (read_pmn_int (f cnt) r)) is r) = r_inten r"
  "r_evtsel (fold (\<lambda>cnt r. snd (read_pmn_int (f cnt) r)) is r) = r_evtsel r"
  "r_ccnt (fold (\<lambda>cnt r. snd (read_pmn_int (f cnt) r)) is r) = r_ccnt r"
  by (induction "is" arbitrary: r) auto

lemma enable_fold [simp]:
  "r_pmnc (fold (\<lambda>i. enable_pmn (f i)) is r) = r_pmnc r"
  "r_evtsel (fold (\<lambda>i. enable_pmn (f i)) is r) = r_evtsel r"
  "r_ccnt (fold (\<lambda>i. enable_pmn (f i)) is r) = r_ccnt r"
  "r_inten (fold (\<lambda>i. enable_pmn (f i)) is r) = r_inten r"
  by (induction "is" arbitrary: r) (auto simp: enable_pmn_def mcr_cntens_def)

lemma enable_fold_cnten:
  "k \<le> 32 \<Longrightarrow> bit (r_cnten (fold (\<lambda>i. enable_pmn (of_nat i)) [0..<k] r)) j \<longleftrightarrow> j < k \<or> bit (r_cnten r) j"
  by (induction k) (auto simp: enable_pmn_def mcr_cntens_def bit_simps bit_lsl_one)

lemma pmn_config_simps [simp]:
  "r_pmnc (pmn_config i e r) = r_pmnc r" "r_cnten (pmn_config i e r) = r_cnten r" "r_inten (pmn_config i e r) = r_inten r"
  "r_ccnt (pmn_config i e r) = r_ccnt r" "r_evtsel (pmn_config i e r) = (r_evtsel r)(unat (i AND 0x1F) := e)"
  by (simp_all add: pmn_config_def mcr_evtsel_def mcr_pmnxsel_def)

lemma unat_counter: "i < 32 \<Longrightarrow> unat ((of_nat i :: u32) AND 0x1F) = i"
proof -
  assume i: "i < 32"
  have "(of_nat i :: u32) AND 0x1F = of_nat i mod 2 ^ 5"
    using take_bit_eq_mask[of 5 "of_nat i :: u32"] by (simp add: take_bit_eq_mod mask_eq_exp_minus_1)
  with i show ?thesis by (simp add: unat_mod unat_of_nat)
qed

lemma arm_config_counters:
  assumes "k \<le> length cs" "k \<le> 6"
  shows "\<exists>r'. fault_fold (arm_config_counter cs) [0..<k] r = Inr r' \<and> r_pmnc r' = r_pmnc r \<and> r_cnten r' = r_cnten r \<and>
     r_inten r' = r_inten r \<and> r_ccnt r' = r_ccnt r \<and> (\<forall>i < k. r_evtsel r' i = ucast (cs ! i))"
  using assms
proof (induction k)
  case 0
  then show ?case by simp
next
  case (Suc k)
  then obtain r1 where 1: "fault_fold (arm_config_counter cs) [0..<k] r = Inr r1" "r_pmnc r1 = r_pmnc r"
    "r_cnten r1 = r_cnten r" "r_inten r1 = r_inten r" "r_ccnt r1 = r_ccnt r" "\<forall>i < k. r_evtsel r1 i = ucast (cs ! i)" by auto
  let ?r = "pmn_config (of_nat k) (ucast (cs ! k)) r1"
  have "arm_config_counter cs k r1 = Inr ?r" using Suc.prems by (simp add: arm_config_counter_def)
  with 1(1) have "fault_fold (arm_config_counter cs) [0..<Suc k] r = Inr ?r" by (simp add: fault_fold_append)
  moreover have "\<forall>i < Suc k. r_evtsel ?r i = ucast (cs ! i)"
    using 1(6) Suc.prems unat_counter[of k] by (simp add: less_Suc_eq)
  ultimately show ?case using 1 by (intro exI[of _ ?r]) simp
qed

text \<open>A processor whose counters are programmed: every enable bit set, the cycle counter at its start.\<close>

definition arm_armed :: "nat \<Rightarrow> u64 list \<Rightarrow> u64 \<Rightarrow> arm \<Rightarrow> bool" where
  "arm_armed c cs p hw \<longleftrightarrow>
     (let r = pmu hw c
      in bit (r_pmnc r) 0 \<and> bit (r_cnten r) 31 \<and> bit (r_inten r) 31 \<and> r_ccnt r = arm_ccnt_start p \<and>
         (\<forall>i < arm_num_ctrs hw. bit (r_cnten r) i \<and> r_evtsel r i = ucast (cs ! i)))"

lemma enable_simps [simp]:
  "r_cnten (enable_pmu r) = r_cnten r" "r_inten (enable_pmu r) = r_inten r" "r_evtsel (enable_pmu r) = r_evtsel r"
  "r_pmnc (enable_ccnt r) = r_pmnc r" "r_inten (enable_ccnt r) = r_inten r" "r_evtsel (enable_ccnt r) = r_evtsel r"
  "r_ccnt (enable_ccnt r) = r_ccnt r" "r_cnten (enable_ccnt r) = r_cnten r OR 0x80000000"
  "r_pmnc (enable_ccnt_irq r) = r_pmnc r" "r_cnten (enable_ccnt_irq r) = r_cnten r" "r_ccnt (enable_ccnt_irq r) = r_ccnt r"
  "r_evtsel (enable_ccnt_irq r) = r_evtsel r" "r_inten (enable_ccnt_irq r) = r_inten r OR 0x80000000"
  by (simp_all add: enable_pmu_def mcr_pmnc_def enable_ccnt_def mcr_cntens_def enable_ccnt_irq_def mcr_intens_def Let_def)

text \<open>The reset bit of the cycle counter reads as zero, so enabling the unit leaves its value.\<close>

lemma enable_pmu_ccnt: "\<not> bit (r_pmnc r) 2 \<Longrightarrow> r_ccnt (enable_pmu r) = r_ccnt r"
  by (simp add: enable_pmu_def mcr_pmnc_def Let_def bit_simps word_consts)

lemma reset_reads_zero: "\<not> bit (r_pmnc (reset_pmn r)) 2" "\<not> bit (r_pmnc (reset_ccnt r)) 2" "\<not> bit (r_pmnc (disable_pmu r)) 2"
  by (simp_all add: reset_pmn_def reset_ccnt_def disable_pmu_def r_pmnc_mcr bit_simps word_consts)

lemma write_simps [simp]:
  "r_pmnc (write_flags v r) = r_pmnc r" "r_ccnt (write_flags v r) = r_ccnt r" "r_pmnc (write_ccnt v r) = r_pmnc r"
  "r_ccnt (write_ccnt v r) = v" "r_flags (write_ccnt v r) = r_flags r" "r_flags (write_flags v r) = r_flags r AND NOT v"
  "r_pmnc (disable_ccnt r) = r_pmnc r" "r_pmnc (disable_ccnt_irq r) = r_pmnc r"
  by (simp_all add: write_flags_def mcr_flag_def write_ccnt_def disable_ccnt_def mcr_cntenc_def disable_ccnt_irq_def
      mcr_intenc_def)

lemma arm_start_ok:
  assumes n: "arm_ok hw" and l: "length cs = 6"
  shows "\<exists>hw'. arm_startCtrsLocal c cs p hw = Inr hw' \<and> arm_num_ctrs hw' = arm_num_ctrs hw \<and> arm_armed c cs p hw' \<and>
     (\<forall>d. d \<noteq> c \<longrightarrow> pmu hw' d = pmu hw d)"
proof -
  let ?k = "arm_num_ctrs hw"
  let ?r0 = "write_ccnt (arm_ccnt_start p) (write_flags 0xFFFFFFFF (reset_pmn (reset_ccnt (disable_ccnt (disable_pmu (pmu hw c))))))"
  obtain r1 where 1: "fault_fold (arm_config_counter cs) [0..<?k] ?r0 = Inr r1" "r_pmnc r1 = r_pmnc ?r0"
    "r_ccnt r1 = r_ccnt ?r0" "\<forall>i < ?k. r_evtsel r1 i = ucast (cs ! i)"
    using arm_config_counters[of ?k cs ?r0] n l by (auto simp: arm_ok_def)
  let ?hw1 = "arm_dump_regs c (on_pmu c (\<lambda>_. r1) hw)"
  let ?r2 = "fold (\<lambda>i. enable_pmn (of_nat i)) [0..<?k] (enable_ccnt_irq (pmu ?hw1 c))"
  let ?hw2 = "on_pmu c (\<lambda>_. enable_pmu (enable_ccnt ?r2)) ?hw1"
  have k: "arm_num_ctrs ?hw1 = ?k" by (simp add: arm_dump_regs_def)
  have "arm_startCtrsLocal c cs p hw = Inr ?hw2"
    unfolding arm_startCtrsLocal_def Let_def 1(1) fault_bind_simps k by (rule refl)
  moreover have "\<not> bit (r_pmnc (enable_ccnt ?r2)) 2"
    using 1(2) reset_reads_zero(1) by (simp add: arm_dump_regs_def)
  then have "r_ccnt (pmu ?hw2 c) = arm_ccnt_start p" using 1(3) by (simp add: enable_pmu_ccnt arm_dump_regs_def)
  moreover have "bit (r_cnten (pmu ?hw2 c)) i" if "i < ?k \<or> i = 31" for i
    using that n enable_fold_cnten[of ?k] by (auto simp: bit_or_iff word_consts arm_ok_def)
  moreover have "bit (r_inten (pmu ?hw2 c)) 31" by (simp add: bit_or_iff word_consts)
  moreover have "\<forall>i < ?k. r_evtsel (pmu ?hw2 c) i = ucast (cs ! i)" using 1(4) by (simp add: arm_dump_regs_def)
  ultimately have "arm_startCtrsLocal c cs p hw = Inr ?hw2" "arm_armed c cs p ?hw2"
    using k by (auto simp: arm_armed_def Let_def)
  then show ?thesis using k by (intro exI[of _ ?hw2]) (simp add: arm_dump_regs_def)
qed

lemma disable_fold [simp]: "r_pmnc (fold (\<lambda>i. disable_pmn (f i)) is r) = r_pmnc r"
  using enable_fold(1) by (simp add: disable_is_enable)

lemma arm_stop_ok:
  "arm_num_ctrs (arm_stopCtrsLocal c hw) = arm_num_ctrs hw"
  "arm_running (arm_stopCtrsLocal c hw) = (arm_running hw)(c := False)"
  by (simp_all add: arm_stopCtrsLocal_def arm_running_on_pmu)

text \<open>The counters stay enabled in CNTEN after they have been stopped.\<close>

lemma arm_stop_leaves_enabled:
  assumes "arm_ok hw" "i < arm_num_ctrs hw"
  shows "bit (r_cnten (pmu (arm_stopCtrsLocal c hw) c)) i"
proof -
  have "r_cnten (disable_pmu r) = r_cnten r" for r by (simp add: disable_pmu_def mcr_pmnc_def Let_def)
  then show ?thesis
    using assms enable_fold_cnten[of "arm_num_ctrs hw"] by (simp add: arm_stopCtrsLocal_def disable_is_enable arm_ok_def)
qed

lemma arm_read_simps:
  "arm_num_ctrs (snd (arm_read_pmn c i hw)) = arm_num_ctrs hw"
  "arm_running (snd (arm_read_pmn c i hw)) = arm_running hw"
  "fst (arm_read_pmn c i hw) = ucast (r_pmn (pmu hw c) (unat ((of_nat i :: u32) AND 0x1F)))"
  "r_pmn (pmu (snd (arm_read_pmn c j hw)) c) = r_pmn (pmu hw c)"
  by (simp_all add: arm_read_pmn_def split_def arm_running_on_pmu) (simp add: arm_running_def fun_eq_iff)

interpretation arm: pmu_arch arm_api arm_ok arm_running
proof unfold_locales
  fix hw cs c p
  assume a: "arm_ok hw" "length (cs :: u64 list) = 6"
  from arm_start_ok[OF a, of c p] obtain hw' where "arm_startCtrsLocal c cs p hw = Inr hw'"
    "arm_num_ctrs hw' = arm_num_ctrs hw" "arm_armed c cs p hw'" "\<forall>d. d \<noteq> c \<longrightarrow> pmu hw' d = pmu hw d" by blast
  then show "\<exists>hw'. startCtrsLocal arm_api c cs p hw = Inr hw' \<and> arm_ok hw' \<and> arm_running hw' = (arm_running hw)(c := True)"
    using a(1) by (auto simp: arm_api_def arm_ok_def arm_running_def arm_armed_def Let_def fun_eq_iff)
next
  fix c and hw :: arm
  show "arm_ok hw \<Longrightarrow> arm_ok (dump_regs arm_api c hw) \<and> arm_running (dump_regs arm_api c hw) = arm_running hw"
    by (simp add: arm_api_def arm_ok_def arm_dump_regs_def arm_running_on_pmu) (simp add: arm_running_def fun_eq_iff)
qed (simp_all add: arm_api_def arm_ok_def arm_read_simps arm_stop_ok arm_cleanup_arch_def pmu_cti_off_def arm_running_def fun_eq_iff)

section \<open>The interrupt handler\<close>

lemma pmu_step_frame [simp]:
  "kmod_rep n (pmu_step c f m) es fs L = kmod_rep n m es fs L"
  "in_module (pmu_step c f m) fs d = in_module m fs d"
  "arch (pmu_step c f m) = on_pmu c f (arch m)" "period (pmu_step c f m) = period m" "shutdown (pmu_step c f m) = shutdown m"
  "missed_attr (pmu_step c f m) = missed_attr m" "lbuffer (pmu_step c f m) = lbuffer m" "slot (pmu_step c f m) d = slot m d"
  by (simp_all add: pmu_step_def slot_def split: option.split)

text \<open>An interrupt without an overflow flag leaves the unit of its processor disabled.\<close>

lemma sample_handle_irq_spurious:
  assumes "irq \<noteq> Other_irq" and "read_flags (disable_pmu (pmu (arch m) c)) = 0"
  shows "sample_handle_irq c irq pid m = Inr (IRQ_NONE, m\<lparr>arch := on_pmu c disable_pmu (arch m)\<rparr>) \<and>
     \<not> arm_running (on_pmu c disable_pmu (arch m)) c"
  using assms by (simp add: sample_handle_irq_def Let_def arm_running_def pmu_step_def)

definition arm_rearm :: "nat \<Rightarrow> arm kmod \<Rightarrow> arm kmod" where
  "arm_rearm c m =
     (let m = pmu_step c reset_pmn m;
          m = (if shutdown m = 0 then pmu_step c (write_ccnt (arm_ccnt_start (period m))) m else m);
          m = pmu_step c (write_flags 0xFFFFFFFF) m
      in (if shutdown m = 0 then pmu_step c enable_pmu m else m))"

lemma arm_rearm_ok:
  "arm_num_ctrs (arch (arm_rearm c m)) = arm_num_ctrs (arch m)"
  "arm_running (arch (arm_rearm c m)) = (arm_running (arch m))(c := shutdown m = 0 \<or> arm_running (arch m) c)"
  "shutdown m = 0 \<Longrightarrow> read_ccnt_int (pmu (arch (arm_rearm c m)) c) = arm_ccnt_start (period m)"
  "kmod_rep n (arm_rearm c m) es fs L = kmod_rep n m es fs L" "in_module (arm_rearm c m) fs d = in_module m fs d"
  "missed_attr (arm_rearm c m) = missed_attr m"
       apply (simp add: arm_rearm_def Let_def)
      apply (auto simp: arm_rearm_def Let_def arm_running_def fun_eq_iff)[1]
     apply (simp add: arm_rearm_def Let_def read_ccnt_int_def enable_pmu_ccnt reset_reads_zero)
    apply (simp_all add: arm_rearm_def Let_def)
  done

lemma sample_handle_irq_ok:
  assumes r: "kmod_rep n m es fs {}" and c: "c < n" "n \<le> 2 ^ 32" and hw: "arm_ok (arch m)"
    and some: "lbuffer m c \<noteq> None \<or> es \<noteq> []"
    and irq: "irq \<noteq> Other_irq" "read_flags (disable_pmu (pmu (arch m) c)) \<noteq> 0"
  shows "\<exists>m' es' fs'. sample_handle_irq c irq pid m = Inr (IRQ_HANDLED, m') \<and> kmod_rep n m' es' fs' {} \<and>
     arm_ok (arch m') \<and> arm_running (arch m') = (arm_running (arch m))(c := shutdown m = 0) \<and>
     (shutdown m = 0 \<longrightarrow> arm_read_ccnt c (arch m') = ucast (arm_ccnt_start (period m))) \<and> missed_attr m' = missed_attr m \<and>
     (\<forall>d < n. in_module m' fs' d = in_module m fs d @
        (if d = c then [sample_now arm_api c pid (period m) (on_pmu c disable_pmu (arch m)) (s_counters (slot m c))] else []))"
proof -
  let ?m = "pmu_step c disable_pmu m"
  have 0: "kmod_rep n ?m es fs {}" "arm_ok (arch ?m)" "lbuffer ?m c \<noteq> None \<or> es \<noteq> []"
    using r hw some by (auto simp: arm_ok_def)
  have run0: "arm_running (arch ?m) = (arm_running (arch m))(c := False)" by (simp add: arm_running_on_pmu)
  obtain m1 es1 fs1 where 1: "gatherSample arm_api c pid ?m = Inr m1" "kmod_rep n m1 es1 fs1 {}" "arm_ok (arch m1)"
    "arm_running (arch m1) = arm_running (arch ?m)" "period m1 = period ?m" "shutdown m1 = shutdown ?m"
    "missed_attr m1 = missed_attr ?m"
    "\<forall>d < n. in_module m1 fs1 d = in_module ?m fs d @
       (if d = c then [sample_now arm_api c pid (period ?m) (arch ?m) (s_counters (slot ?m c))] else [])"
    using arm.gatherSample_ok[OF 0(1) c 0(2,3), of pid] by blast
  have "sample_handle_irq c irq pid m = Inr (IRQ_HANDLED, arm_rearm c m1)"
    using irq 1(1) by (simp add: sample_handle_irq_def arm_rearm_def Let_def)
  moreover have "arm_running (arch (arm_rearm c m1)) = (arm_running (arch m))(c := shutdown m = 0)"
    unfolding arm_rearm_ok(2) 1(4) run0 1(6) by (simp add: fun_eq_iff)
  moreover have "shutdown m = 0 \<longrightarrow> arm_read_ccnt c (arch (arm_rearm c m1)) = ucast (arm_ccnt_start (period m))"
    using arm_rearm_ok(3)[of m1 c] 1(5,6) by (simp add: arm_read_ccnt_def)
  moreover have "arm_ok (arch (arm_rearm c m1))" using 1(3) by (simp add: arm_ok_def arm_rearm_ok)
  ultimately show ?thesis
    using 1(2,7,8) by (intro exI[of _ "arm_rearm c m1"] exI[of _ es1] exI[of _ fs1]) (simp add: arm_rearm_ok)
qed

text \<open>
  \<open>config_irq\<close> routes each of the two interrupts to one processor. The handler takes a sample when
  an overflow flag is set, after it has disabled the unit.
\<close>

definition irq_of :: "nat \<Rightarrow> irqnum" where
  "irq_of c = (if c = 0 then OMAP44XX_IRQ_CTI0 else if c = 1 then OMAP44XX_IRQ_CTI1 else Other_irq)"

definition arm_irq :: "arm irq" where
  "arm_irq =
     \<lparr>irq_handler = (\<lambda>c pid m. fault_bind (sample_handle_irq c (irq_of c) pid m) (\<lambda>(rc, m). Inr m)),
      irq_takes = (\<lambda>c hw. irq_of c \<noteq> Other_irq \<and> read_flags (disable_pmu (pmu hw c)) \<noteq> 0),
      irq_sees = (\<lambda>c. on_pmu c disable_pmu)\<rparr>"

lemma sample_handle_irq_missed:
  assumes r: "kmod_rep n m [] fs {}" and hw: "arm_ok (arch m)" and none: "lbuffer m c = None"
    and irq: "irq \<noteq> Other_irq" "read_flags (disable_pmu (pmu (arch m) c)) \<noteq> 0"
  shows "\<exists>m'. sample_handle_irq c irq pid m = Inr (IRQ_HANDLED, m') \<and> kmod_rep n m' [] fs {} \<and> arm_ok (arch m') \<and>
     arm_running (arch m') = (arm_running (arch m))(c := shutdown m = 0) \<and>
     (shutdown m = 0 \<longrightarrow> arm_read_ccnt c (arch m') = ucast (arm_ccnt_start (period m))) \<and>
     missed_attr m' = missed_attr m + 1 \<and> (\<forall>d. in_module m' fs d = in_module m fs d)"
proof -
  let ?m = "pmu_step c disable_pmu m"
  let ?m1 = "?m\<lparr>missed_attr := missed_attr m + 1\<rparr>"
  have "gatherSample arm_api c pid ?m = Inr ?m1"
    using arm.gatherSample_missed[of n ?m fs "{}" c pid] r none by simp
  then have "sample_handle_irq c irq pid m = Inr (IRQ_HANDLED, arm_rearm c ?m1)"
    using irq by (simp add: sample_handle_irq_def arm_rearm_def Let_def)
  moreover have "arm_ok (arch (arm_rearm c ?m1))" using hw by (simp add: arm_ok_def arm_rearm_ok)
  moreover have "arm_running (arch (arm_rearm c ?m1)) = (arm_running (arch m))(c := shutdown m = 0)"
    by (simp add: arm_rearm_ok(2) arm_running_on_pmu fun_eq_iff)
  moreover have "shutdown m = 0 \<longrightarrow> arm_read_ccnt c (arch (arm_rearm c ?m1)) = ucast (arm_ccnt_start (period m))"
    using arm_rearm_ok(3)[of ?m1 c] by (simp add: arm_read_ccnt_def)
  ultimately show ?thesis using r by (intro exI[of _ "arm_rearm c ?m1"]) (simp add: arm_rearm_ok)
qed

text \<open>The handler in any state with an overflow flag set.\<close>

lemma sample_handle_irq_total:
  assumes r: "kmod_rep n m es fs {}" and c: "c < n" "n \<le> 2 ^ 32" and hw: "arm_ok (arch m)"
    and irq: "irq \<noteq> Other_irq" "read_flags (disable_pmu (pmu (arch m) c)) \<noteq> 0"
  shows "\<exists>m' es' fs'. sample_handle_irq c irq pid m = Inr (IRQ_HANDLED, m') \<and> kmod_rep n m' es' fs' {} \<and>
     arm_ok (arch m') \<and> arm_running (arch m') = (arm_running (arch m))(c := shutdown m = 0) \<and>
     (shutdown m = 0 \<longrightarrow> arm_read_ccnt c (arch m') = ucast (arm_ccnt_start (period m))) \<and>
     missed_attr m' = missed_attr m + (if lbuffer m c = None \<and> es = [] then 1 else 0) \<and>
     (\<forall>d < n. in_module m' fs' d = in_module m fs d @ (if d = c \<and> (lbuffer m c \<noteq> None \<or> es \<noteq> [])
        then [sample_now arm_api c pid (period m) (on_pmu c disable_pmu (arch m)) (s_counters (slot m c))] else []))"
proof (cases "lbuffer m c = None \<and> es = []")
  case True
  with sample_handle_irq_missed[of n m fs c irq pid] r hw irq obtain m' where
    "sample_handle_irq c irq pid m = Inr (IRQ_HANDLED, m')" "kmod_rep n m' [] fs {}" "arm_ok (arch m')"
    "arm_running (arch m') = (arm_running (arch m))(c := shutdown m = 0)"
    "shutdown m = 0 \<longrightarrow> arm_read_ccnt c (arch m') = ucast (arm_ccnt_start (period m))" "missed_attr m' = missed_attr m + 1"
    "\<forall>d. in_module m' fs d = in_module m fs d" by auto
  with True show ?thesis by (intro exI[of _ m'] exI[of _ "[]"] exI[of _ fs]) simp
next
  case False
  then have some: "lbuffer m c \<noteq> None \<or> es \<noteq> []" by simp
  from sample_handle_irq_ok[OF r c hw this irq, of pid] obtain m' es' fs' where
    "sample_handle_irq c irq pid m = Inr (IRQ_HANDLED, m')" "kmod_rep n m' es' fs' {}" "arm_ok (arch m')"
    "arm_running (arch m') = (arm_running (arch m))(c := shutdown m = 0)"
    "shutdown m = 0 \<longrightarrow> arm_read_ccnt c (arch m') = ucast (arm_ccnt_start (period m))" "missed_attr m' = missed_attr m"
    "\<forall>d < n. in_module m' fs' d = in_module m fs d @
       (if d = c then [sample_now arm_api c pid (period m) (on_pmu c disable_pmu (arch m)) (s_counters (slot m c))] else [])" by blast
  with some False show ?thesis by (intro exI[of _ m'] exI[of _ es'] exI[of _ fs']) simp
qed

interpretation cti: pmu_irq arm_api arm_ok arm_running arm_irq
proof unfold_locales
  fix n m es fs c pid
  assume a: "kmod_rep n m es fs {}" "c < n" "n \<le> 2 ^ 32" "arm_ok (arch m)" and t: "irq_takes arm_irq c (arch m)"
    and b: "lbuffer m c \<noteq> None \<or> es \<noteq> []"
  have "irq_of c \<noteq> Other_irq" "read_flags (disable_pmu (pmu (arch m) c)) \<noteq> 0" using t by (simp_all add: arm_irq_def)
  from sample_handle_irq_ok[OF a b this, of pid] obtain m' es' fs' where
    "sample_handle_irq c (irq_of c) pid m = Inr (IRQ_HANDLED, m')" "kmod_rep n m' es' fs' {}" "arm_ok (arch m')"
    "\<forall>d < n. in_module m' fs' d = in_module m fs d @
        (if d = c then [sample_now arm_api c pid (period m) (on_pmu c disable_pmu (arch m)) (s_counters (slot m c))] else [])" by blast
  then show "\<exists>m' es' fs'. irq_handler arm_irq c pid m = Inr m' \<and> kmod_rep n m' es' fs' {} \<and>
      arm_ok (arch m') \<and> (\<forall>d < n. in_module m' fs' d = in_module m fs d @
        (if d = c then [sample_now arm_api c pid (period m) (irq_sees arm_irq c (arch m)) (s_counters (slot m c))] else []))"
    by (intro exI[of _ m'] exI[of _ es'] exI[of _ fs']) (simp add: arm_irq_def)
next
  fix n m fs c pid
  assume a: "kmod_rep n m [] fs {}" "arm_ok (arch m)" and t: "irq_takes arm_irq c (arch m)" and b: "lbuffer m c = None"
  have "irq_of c \<noteq> Other_irq" "read_flags (disable_pmu (pmu (arch m) c)) \<noteq> 0" using t by (simp_all add: arm_irq_def)
  from sample_handle_irq_missed[OF a b this, of pid] show "\<exists>m'. irq_handler arm_irq c pid m = Inr m' \<and> kmod_rep n m' [] fs {} \<and> arm_ok (arch m') \<and>
      missed_attr m' = missed_attr m + 1 \<and> (\<forall>d. in_module m' fs d = in_module m fs d)"
    by (auto simp: arm_irq_def)
next
  fix n m es fs c pid
  assume "kmod_rep n m es fs {}" "arm_ok (arch m)" "\<not> irq_takes arm_irq c (arch m)"
  then show "\<exists>m'. irq_handler arm_irq c pid m = Inr m' \<and> kmod_rep n m' es fs {} \<and> arm_ok (arch m') \<and>
      (\<forall>d. in_module m' fs d = in_module m fs d)"
    by (auto simp: arm_irq_def sample_handle_irq_def Let_def arm_ok_def)
qed

section \<open>Initialisation\<close>

text \<open>The controller may never be ready; if it is, the result is 0, whatever \<open>config_irq\<close> said.\<close>

lemma arm_initialize_arch_zero: "arm_initialize_arch hw = Some (rc, hw') \<Longrightarrow> rc = 0"
  by (simp add: arm_initialize_arch_def Let_def split: list.splits prod.splits)

lemma getPMN_le: "unat (getPMN r) \<le> 31"
proof -
  have "getPMN r = drop_bit 11 (r_pmnc r) mod 2 ^ 5"
    using take_bit_eq_mask[of 5 "drop_bit 11 (r_pmnc r)"] by (simp add: getPMN_def take_bit_eq_mod mask_eq_exp_minus_1)
  then show ?thesis using unat_mod[of "drop_bit 11 (r_pmnc r)" "2 ^ 5"] by simp
qed

text \<open>A processor with more counters than the structures have room for.\<close>

lemma arm_start_overflow:
  assumes "length cs = 6" and "arm_num_ctrs hw > 6"
  shows "arm_startCtrsLocal c cs p hw = Inl OutOfBounds"
proof -
  let ?r = "write_ccnt (arm_ccnt_start p) (write_flags 0xFFFFFFFF (reset_pmn (reset_ccnt (disable_ccnt (disable_pmu (pmu hw c))))))"
  obtain r1 where r1: "fault_fold (arm_config_counter cs) [0..<6] ?r = Inr r1"
    using arm_config_counters[of 6 cs ?r] assms(1) by auto
  have "[0..<arm_num_ctrs hw] = [0..<6] @ 6 # [7..<arm_num_ctrs hw]"
    using assms(2) upt_add_eq_append[of 0 6 "arm_num_ctrs hw - 6"] upt_conv_Cons[of 6 "arm_num_ctrs hw"] by simp
  then have "fault_fold (arm_config_counter cs) [0..<arm_num_ctrs hw] ?r = Inl OutOfBounds"
    using r1 assms(1) by (simp only: fault_fold_append) (simp add: arm_config_counter_def)
  then show ?thesis by (simp only: arm_startCtrsLocal_def Let_def fault_bind_simps)
qed

text \<open>With a controller that becomes ready and at most six counters, the module's hypotheses hold.\<close>

lemma config_irq_num [simp]: "arm_num_ctrs (snd (config_irq hw)) = arm_num_ctrs hw"
  by (simp add: config_irq_def omap4_init_cti_def pmu_cti_on_def Let_def)

lemma arm_ready:
  assumes "\<exists>val \<in> set (emu_polls hw). val AND 0x30000 = 0"
  obtains v vs where "dropWhile (\<lambda>val. val AND 0x30000 \<noteq> 0) (emu_polls hw) = v # vs"
  using assms by (cases "dropWhile (\<lambda>val. val AND 0x30000 \<noteq> 0) (emu_polls hw)") (auto simp: dropWhile_eq_Nil_conv)

lemma arm_initialize_ok:
  assumes "\<exists>val \<in> set (emu_polls hw). val AND 0x30000 = 0" and "unat (getPMN (pmu hw (arm_cpu hw))) \<le> 6"
  shows "\<exists>hw'. arm_initialize_arch hw = Some (0, hw') \<and> arm_ok hw'"
proof -
  obtain v vs where "dropWhile (\<lambda>val. val AND 0x30000 \<noteq> 0) (emu_polls hw) = v # vs" by (rule arm_ready[OF assms(1)])
  with assms(2) show ?thesis by (simp add: arm_initialize_arch_def Let_def split_def arm_ok_def)
qed

text \<open>
  What the initialisation does to the outside when everything succeeds: each interface routes the
  overflow of its unit to its interrupt, which goes to one processor and is requested.
\<close>

definition omap_clocks :: "io_call list" where
  "omap_clocks = [Raw_writel 2 CM_EMU_CLKSTCTRL, Raw_writel 1 CM_L3INSTR_L3_3_CLKCTRL, Raw_writel 1 CM_L3INSTR_L3_INSTR_CLKCTRL,
     Raw_writel 1 CM_PRM_PROFILING_CLKCTRL, Raw_writel 0x3000000 PM_EMU_PWRSTST, Raw_writel 0x101 RM_EMU_DEBUGSS_CONTEXT]"

lemma arm_initialize_io:
  assumes "\<exists>val \<in> set (emu_polls hw). val AND 0x30000 = 0" and "ioremap_ok hw = (True, True)"
    and "affinity_rc hw = (0, 0)" and "request_rc hw = (0, 0)"
  shows "\<exists>hw'. arm_initialize_arch hw = Some (0, hw') \<and> irq0 hw' \<and> irq1 hw' \<and>
     io hw' = io hw @ omap_clocks @ [Cti_init 0 OMAP44XX_IRQ_CTI0 6, Cti_init 1 OMAP44XX_IRQ_CTI1 6,
       Cti_unlock 0, Cti_map_trigger 0 1 6 2, Cti_enable 0, Cti_unlock 1, Cti_map_trigger 1 1 6 3, Cti_enable 1,
       Set_affinity OMAP44XX_IRQ_CTI0 0, Request_irq OMAP44XX_IRQ_CTI0, Set_affinity OMAP44XX_IRQ_CTI1 1, Request_irq OMAP44XX_IRQ_CTI1]"
proof -
  obtain v vs where "dropWhile (\<lambda>val. val AND 0x30000 \<noteq> 0) (emu_polls hw) = v # vs" by (rule arm_ready[OF assms(1)])
  with assms(2-4) show ?thesis
    by (simp add: arm_initialize_arch_def config_irq_def omap4_init_cti_def pmu_cti_on_def omap_clocks_def do_io_def Let_def)
qed

text \<open>
  With an interface that cannot be mapped the initialisation reports success all the same; unloading
  then disables interfaces that were never initialised and frees interrupts that were never requested.
\<close>

lemma arm_initialize_without_irq:
  assumes "\<exists>val \<in> set (emu_polls hw). val AND 0x30000 = 0" and "ioremap_ok hw \<noteq> (True, True)" and "\<not> irq0 hw" "\<not> irq1 hw"
  shows "\<exists>hw'. arm_initialize_arch hw = Some (0, hw') \<and> \<not> irq0 hw' \<and> \<not> irq1 hw' \<and>
     io (arm_cleanup_arch hw') = io hw @ omap_clocks @
       [Cti_disable 0, Cti_disable 1, Free_irq OMAP44XX_IRQ_CTI0, Free_irq OMAP44XX_IRQ_CTI1]"
proof -
  obtain v vs where v: "dropWhile (\<lambda>val. val AND 0x30000 \<noteq> 0) (emu_polls hw) = v # vs" by (rule arm_ready[OF assms(1)])
  have "\<not> fst (ioremap_ok hw) \<or> \<not> snd (ioremap_ok hw)" using assms(2) by (cases "ioremap_ok hw") auto
  with assms(3,4) v show ?thesis
    by (simp add: arm_initialize_arch_def config_irq_def omap4_init_cti_def ENOMEM_def arm_cleanup_arch_def pmu_cti_off_def
        omap_clocks_def do_io_def Let_def)
qed

text \<open>The handler wakes the readers of a buffer it fills.\<close>

lemma same_queue_pmu_step [simp]: "same_queue m (pmu_step c f m') = same_queue m m'"
  by (simp add: same_queue_def pmu_step_def)

lemma sample_handle_irq_wakes:
  assumes "sample_handle_irq c irq pid m = Inr (rc, m')"
  shows "wakes_readers m m'"
proof -
  let ?m0 = "pmu_step c disable_pmu m"
  have q: "wakes_readers m ?m0" by (simp add: same_queue_wakes)
  show ?thesis
  proof (cases "irq = Other_irq \<or> read_flags (pmu (arch ?m0) c) = 0")
    case True
    with assms have "m' = m \<or> m' = ?m0" by (auto simp: sample_handle_irq_def Let_def split: if_splits)
    with q show ?thesis by auto
  next
    case False
    with assms obtain m1 where 1: "gatherSample arm_api c pid ?m0 = Inr m1" and rest: "(let m = pmu_step c reset_pmn m1;
        m = (if shutdown m = 0 then pmu_step c (write_ccnt (arm_ccnt_start (period m))) m else m);
        m = pmu_step c (write_flags 0xFFFFFFFF) m
        in if shutdown m = 0 then pmu_step c enable_pmu m else m) = m'"
      by (auto simp: sample_handle_irq_def Let_def elim!: fault_bind_InrE)
    have "same_queue m1 m'" unfolding rest[symmetric] Let_def by simp
    from wakes_readers_trans[OF wakes_readers_trans[OF q gatherSample_wakes[OF 1]] same_queue_wakes[OF this]] show ?thesis .
  qed
qed

interpretation cti_wait: pmu_wait arm_api arm_ok arm_running arm_irq
  by unfold_locales (auto simp: arm_irq_def sample_handle_irq_wakes elim!: fault_bind_InrE)

end
