(* ===== verification/Examples.thy ===== *)
theory Examples
  imports System_Run Legacy_Reader Arm
begin

text \<open>
  Concrete inputs, on which the hypotheses of the properties hold: two samples in a buffer, an
  operating system that takes everything, a device and its attributes, a loaded module.
\<close>

section \<open>User space\<close>

definition ex_sample :: sample where
  "ex_sample = \<lparr>s_cycles = 2000, s_pid = 42, s_counters = [1, 2, 3, 4, 5, 6]\<rparr>"

definition ex_idle :: sample where
  "ex_idle = \<lparr>s_cycles = 3000, s_pid = 0, s_counters = [6, 5, 4, 3, 2, 1]\<rparr>"

definition ex_buffer :: buffer where
  "ex_buffer = \<lparr>b_core = 1, b_num_samples = 2, b_nextBuffer = None,
     b_samples = ex_sample # ex_idle # replicate 100 zero_sample\<rparr>"

definition ex_proc :: proc_fs where
  "ex_proc = \<lparr>fs_stream = (\<lambda>path. if path = proc_path 42 ''cmdline'' then StreamContent (ascii ''ls'') else StreamFail),
     fs_readlink = (\<lambda>_. None)\<rparr>"

definition ex_os :: os_env where
  "ex_os = \<lparr>os_sendto = (\<lambda>i n. int n), os_fwrite = (\<lambda>i n. 1), os_proc = (\<lambda>_. ex_proc), os_alloc = (\<lambda>i n. Some (\<lambda>_. 0))\<rparr>"

definition ex_sysfs :: sysfs where
  "ex_sysfs path = Some (ascii ''8'' @ newline)"

definition ex_connect :: connect_env where
  "ex_connect = \<lparr>ce_getaddrinfo = 0, ce_socket = 3, ce_connect = 0, ce_errno = 0, ce_debug_opens = True\<rparr>"

definition ex_sampler :: sampler_env where
  "ex_sampler = \<lparr>se_os = ex_os, se_connect = (\<lambda>_ _. ex_connect), se_sysfs = ex_sysfs,
     se_device = Some \<lparr>dev_reads = [GotBuffer ex_buffer, GotBuffer ex_buffer, GotBuffer ex_buffer], dev_eof = False\<rparr>,
     se_missed = Some (ascii ''0'' @ newline), se_stack = ex_buffer\<rparr>"

definition ex_args :: "bytes list" where
  "ex_args = [ascii ''host'', ascii ''7777'']"

definition ex_split :: sp_env where
  "ex_split = \<lparr>sp_fopen = (\<lambda>_. True), sp_realpath = Some, sp_mkdir = True, sp_write = Some\<rparr>"

definition ex_split_args :: "bytes list" where
  "ex_split_args = [ascii ''splitter'', ascii ''samples'', ascii ''out'', ascii ''t'']"

definition ex_order :: "splitter \<Rightarrow> u32 list" where
  "ex_order st = sorted_list_of_set (dom (pid_files st))"

definition ex_out :: read_result where
  "ex_out = \<lparr>rr_hdr = zero_header, rr_buf = replicate 256 zero_sample, rr_cmdline = None, rr_exe = None, rr_read = 0\<rparr>"

lemma ex_sample_wf [simp]: "wf_sample ex_sample" "wf_sample ex_idle"
  by (simp_all add: wf_sample_def ex_sample_def ex_idle_def)

lemma ex_buffer_ok [simp]: "wf_buffer ex_buffer" "buffer_ok ex_buffer" "unat (b_num_samples ex_buffer) \<le> BUFFER_ENTRIES"
  by (simp_all add: buffer_ok_def wf_buffer_def ex_buffer_def BUFFER_ENTRIES_eq)

lemma ex_filled [simp]: "filled ex_buffer = [ex_sample, ex_idle]"
  by (simp add: filled_def ex_buffer_def)

lemma ex_no_proc_0: "fs_stream ex_proc (proc_path 0 ''cmdline'') = StreamFail"
proof -
  have "dec 0 = [48]" "dec 42 = [52, 50]" by (subst dec.simps, simp add: digit_def)+
  then have "proc_path 0 ''cmdline'' \<noteq> proc_path 42 ''cmdline''" by (simp add: proc_path_def ascii_def)
  then show ?thesis by (simp add: ex_proc_def)
qed

lemma ex_os_good [simp]: "env_good ex_os"
  by (simp add: env_good_def ex_os_def)

lemma ex_sampler_simps [simp]:
  "se_os ex_sampler = ex_os" "se_stack ex_sampler = ex_buffer" "connects (se_connect ex_sampler host port)"
  "se_sysfs ex_sampler = ex_sysfs" "attributes_exist ex_sysfs"
  by (simp_all add: ex_sampler_def connects_def ex_connect_def attributes_exist_def ex_sysfs_def)

lemma ex_parse [simp]: "parse_args ex_args False 0 = Inr (False, 0, ascii ''host'' # ascii ''7777'' # [])"
  by (simp add: ex_args_def ascii_def)

lemma ex_missed_line: "snd (fgets 23 (ascii ''0'' @ newline)) = []"
proof -
  have "line_prefix (Suc (Suc k)) [48, 10] = [48, 10]" for k by simp
  from this[of 20] show ?thesis by (simp add: fgets_def newline_def ascii_def Let_def)
qed

lemma ex_iterates [simp]: "iterates ex_order"
  by (simp add: iterates_def visits_keys_def ex_order_def)

lemma ex_device_ok [simp]: "device_ok ex_sampler [GotBuffer ex_buffer]"
  using ex_missed_line by (simp add: device_ok_def) (simp add: ex_sampler_def)

lemma ex_split_ok [simp]: "split_env_ok ex_split dir" "can_open ex_split dir pid"
  by (simp_all add: split_env_ok_def can_open_def ex_split_def)

lemma ex_fits [simp]: "buffer_fits ex_split dir ex_buffer"
  by (simp add: buffer_fits_def) (simp add: ex_buffer_def)

lemma ex_out_wf [simp]: "wf_out ex_out"
  by (simp add: wf_out_def ex_out_def)


text \<open>A packet under construction, and one on the wire.\<close>

definition ex_process :: ProcessInfo where
  "ex_process = new_ProcessInfo\<lparr>pi_pid := 42, pi_mode := User, pi_cmdline := ascii ''ls'', pi_executable := ascii ''/bin/ls''\<rparr>"

definition ex_table :: proc_table where
  "ex_table = empty_proc_table\<lparr>procMap := [42 \<mapsto> ex_process]\<rparr>"

definition ex_start :: packet_state where
  "ex_start = packet_start_batch packet_state0"

definition ex_pkt :: packet_state where
  "ex_pkt = snd (packet_append ex_buffer ex_sample ex_table 42 3 ex_start)"

definition ex_packet :: wire_packet where
  "ex_packet = \<lparr>wp_header = \<lparr>h_kernel = 0, h_counters = 6, h_core = 1, h_quantity = 1, h_batch = 1, h_missed = 3,
     h_first_index = 0, h_pid = 42\<rparr>, wp_samples = [ex_sample], wp_cmdline = ascii ''ls'', wp_exe = ascii ''/bin/ls''\<rparr>"

lemma ex_nul_free [simp]: "nul_free (ascii ''ls'')" "nul_free (ascii ''/bin/ls'')"
  by (simp_all add: ascii_def)

lemma ex_packet_wf [simp]: "wf_packet ex_packet"
  by (simp add: wf_packet_def ex_packet_def)

lemma ex_start_simps [simp]: "packet_inv ex_start" "h_quantity (header ex_start) = 0" "initialized ex_start" "pending ex_start = []"
proof -
  show 1: "packet_inv ex_start" unfolding ex_start_def by (rule start_batch_first_inv)
  then show "initialized ex_start" by (simp add: packet_inv_def)
  show "h_quantity (header ex_start) = 0" by (simp add: ex_start_def packet_start_batch_def Let_def)
  show "pending ex_start = []" by (simp add: ex_start_def)
qed

lemma ex_pkt_simps [simp]:
  "packet_inv ex_pkt" "pending ex_pkt = [ex_sample]" "h_quantity (header ex_pkt) = 1"
  "info_cmdline ex_pkt = Some 42" "info_exe ex_pkt = Some 42"
proof -
  obtain st' where 1: "packet_append ex_buffer ex_sample ex_table 42 3 ex_start = (0, st')" "packet_inv st'"
    "pending st' = pending ex_start @ [ex_sample]" "h_quantity (header st') = h_quantity (header ex_start) + 1"
    using packet_append_ok[of ex_start ex_sample ex_buffer ex_table 42 3] by auto
  then show "packet_inv ex_pkt" "pending ex_pkt = [ex_sample]" "h_quantity (header ex_pkt) = 1"
    by (simp_all add: ex_pkt_def)
  have "packet_append ex_buffer ex_sample ex_table 42 3 ex_start = (0, ex_start\<lparr>header := (header ex_start)\<lparr>
          h_kernel := 0, h_missed := 3, h_first_index := of_nat (current_index ex_start), h_counters := 6,
          h_core := ucast (b_core ex_buffer), h_pid := ucast (s_pid ex_sample), h_quantity := 1\<rparr>,
        info_cmdline := Some 42, info_exe := Some 42, samples := (samples ex_start)[0 := ex_sample],
        current_index := current_index ex_start + 1\<rparr>)"
    by (subst packet_append_unfold) (simp_all add: ex_table_def proc_entry_def ex_process_def)
  then show "info_cmdline ex_pkt = Some 42" "info_exe ex_pkt = Some 42" by (simp_all add: ex_pkt_def)
qed

lemma ex_pkt_strings [simp]: "strings_of ex_table ex_pkt (ascii ''ls'') (ascii ''/bin/ls'')"
  by (simp add: strings_of_def deref_info_def ex_table_def ex_process_def)

text \<open>A file with some packets and an empty description.\<close>

definition ex_file :: "wire_packet list \<Rightarrow> file_env" where
  "ex_file ps = \<lparr>fe_stat = Some (1 + length (concat (map wire_bytes ps))), fe_open = True,
     fe_mmap = Some (0 # concat (map wire_bytes ps))\<rparr>"

lemma ex_file_recording [simp]: "recording (ex_file ps) [] ps []"
  by (simp add: recording_def ex_file_def)

text \<open>The first \<open>n\<close> bytes of such a file.\<close>

definition ex_cut_file :: "nat \<Rightarrow> wire_packet list \<Rightarrow> file_env" where
  "ex_cut_file n ps = \<lparr>fe_stat = Some n, fe_open = True,
     fe_mmap = Some (take n (0 # concat (map wire_bytes ps)) @ [0, 0])\<rparr>"

section \<open>The kernel module\<close>

definition ex_intel :: intel where
  "ex_intel = \<lparr>msr = (\<lambda>_ _. 0), lvtpc = (\<lambda>_. 0), nmi_registered = False, perfctr_free = True, evntsel_free = True,
     intel_num_ctrs = 4\<rparr>"

definition ex_v7 :: v7_pmu where
  "ex_v7 = \<lparr>r_pmnc = 0x3000, r_cnten = 0, r_inten = 0, r_flags = 0x80000000, r_pmnxsel = 0, r_ccnt = 0, r_evtsel = (\<lambda>_. 0),
     r_pmn = (\<lambda>_. 0), r_useren = 0, r_swincr = 0\<rparr>"

definition ex_arm :: arm where
  "ex_arm = \<lparr>pmu = (\<lambda>_. ex_v7), arm_num_ctrs = 6, arm_cpu = 0, emu_polls = [0x30000, 0], ioremap_ok = (True, True),
     affinity_rc = (0, 0), request_rc = (0, 0), io = [], irq0 = False, irq1 = False\<rparr>"

definition ex_init :: init_env where
  "ex_init = \<lparr>ie_kobj_alloc = True, ie_kobj_add = True, ie_kzalloc = (\<lambda>i. Some (100 + i))\<rparr>"

text \<open>A scanner for decimal numbers, and a module just loaded on two processors.\<close>

definition ex_scanner :: scanner where
  "ex_scanner = \<lparr>scan_hex = (\<lambda>_. None),
     scan_dec = (\<lambda>b. let ds = takeWhile is_digit b in if ds = [] then None else Some (of_nat (digits_value 0 ds)))\<rparr>"

definition ex_loaded :: "'a \<Rightarrow> 'a kmod" where
  "ex_loaded hw = (let m = (kmod0 hw)\<lparr>k_heap := [100 \<mapsto> zero_buffer]\<rparr>
     in m\<lparr>empty_buffers := \<lparr>bl_head = Some 100, bl_tail = Some 100\<rparr>\<rparr>)"

lemma ex_loaded_rep [simp]: "kmod_rep n (ex_loaded hw) [100] [] {}"
proof -
  have "blist_rep [100 \<mapsto> zero_buffer] \<lparr>bl_head = Some 100, bl_tail = Some 100\<rparr> [100]"
    by (simp add: blist_rep_def zero_buffer_def)
  moreover have "content [100 \<mapsto> zero_buffer] 100 = zero_buffer"
    by (simp add: content_def payload_def zero_buffer_def)
  ultimately show ?thesis
    by (simp add: kmod_rep_def ex_loaded_def Let_def kmod0_def owned_def contents_ok_def)
qed

lemma ex_loaded_simps [simp]:
  "arch (ex_loaded hw) = hw" "shutdown (ex_loaded hw) = 0" "lbuffer (ex_loaded hw) = (\<lambda>_. None)"
  by (simp_all add: ex_loaded_def Let_def kmod0_def)

text \<open>A module with one full buffer.\<close>

definition ex_full :: "'a \<Rightarrow> 'a kmod" where
  "ex_full hw = (kmod0 hw)\<lparr>k_heap := [200 \<mapsto> ex_buffer\<lparr>b_num_samples := 102\<rparr>],
     full_buffers := \<lparr>bl_head = Some 200, bl_tail = Some 200\<rparr>\<rparr>"

lemma ex_full_rep [simp]: "kmod_rep 2 (ex_full hw) [] [200] {}"
proof -
  have "blist_rep [200 \<mapsto> ex_buffer\<lparr>b_num_samples := 102\<rparr>] \<lparr>bl_head = Some 200, bl_tail = Some 200\<rparr> [200]"
    by (simp add: blist_rep_def ex_buffer_def)
  moreover have "content [200 \<mapsto> ex_buffer\<lparr>b_num_samples := 102\<rparr>] 200 = ex_buffer\<lparr>b_num_samples := 102\<rparr>"
    by (simp add: content_def payload_def ex_buffer_def)
  ultimately show ?thesis
    using ex_buffer_ok(1)
    by (simp add: kmod_rep_def ex_full_def kmod0_def owned_def contents_ok_def BUFFER_ENTRIES_eq wf_buffer_def)
      (simp add: ex_buffer_def)
qed

lemma ex_full_simps [simp]: "shutdown (ex_full hw) = 0" "arch (ex_full hw) = hw"
  by (simp_all add: ex_full_def kmod0_def)

text \<open>A module whose only buffer is the current one of processor 1, with two samples.\<close>

definition ex_current :: "'a \<Rightarrow> 'a kmod" where
  "ex_current hw = (kmod0 hw)\<lparr>k_heap := [300 \<mapsto> ex_buffer\<lparr>b_core := 1\<rparr>], lbuffer := [1 \<mapsto> 300]\<rparr>"

lemma ex_current_rep [simp]: "kmod_rep 2 (ex_current hw) [] [] {}"
proof -
  have "content [300 \<mapsto> ex_buffer\<lparr>b_core := 1\<rparr>] 300 = ex_buffer\<lparr>b_core := 1\<rparr>"
    by (simp add: content_def payload_def ex_buffer_def)
  then show ?thesis
    using ex_buffer_ok(1)
    by (simp add: kmod_rep_def ex_current_def kmod0_def owned_def contents_ok_def BUFFER_ENTRIES_eq wf_buffer_def)
      (simp add: ex_buffer_def)
qed

text \<open>The same with all samples but the last.\<close>

definition ex_almost :: "'a \<Rightarrow> 'a kmod" where
  "ex_almost hw = (kmod0 hw)\<lparr>k_heap := [300 \<mapsto> ex_buffer\<lparr>b_core := 1, b_num_samples := 101\<rparr>], lbuffer := [1 \<mapsto> 300]\<rparr>"

lemma ex_almost_rep [simp]: "kmod_rep 2 (ex_almost hw) [] [] {}"
proof -
  have "content [300 \<mapsto> ex_buffer\<lparr>b_core := 1, b_num_samples := 101\<rparr>] 300 = ex_buffer\<lparr>b_core := 1, b_num_samples := 101\<rparr>"
    by (simp add: content_def payload_def ex_buffer_def)
  then show ?thesis
    using ex_buffer_ok(1)
    by (simp add: kmod_rep_def ex_almost_def kmod0_def owned_def contents_ok_def BUFFER_ENTRIES_eq wf_buffer_def)
qed

lemma ex_almost_simps [simp]:
  "arch (ex_almost hw) = hw" "lbuffer (ex_almost hw) (Suc 0) = Some 300" "wakes (ex_almost hw) = 0"
  "k_heap (ex_almost hw) 300 = Some (ex_buffer\<lparr>b_core := 1, b_num_samples := 101\<rparr>)"
  by (simp_all add: ex_almost_def kmod0_def)

text \<open>Three full buffers of one processor, and a run that reads them all.\<close>

definition ex_three :: "'a \<Rightarrow> 'a kmod" where
  "ex_three hw = (let b = ex_buffer\<lparr>b_num_samples := 102\<rparr> in (kmod0 hw)\<lparr>
     k_heap := [200 \<mapsto> b\<lparr>b_nextBuffer := Some 201\<rparr>, 201 \<mapsto> b\<lparr>b_nextBuffer := Some 202\<rparr>, 202 \<mapsto> b],
     full_buffers := \<lparr>bl_head = Some 200, bl_tail = Some 202\<rparr>\<rparr>)"

lemma ex_three_rep [simp]: "kmod_rep 2 (ex_three hw) [] [200, 201, 202] {}"
proof -
  let ?b = "ex_buffer\<lparr>b_num_samples := 102\<rparr>"
  let ?h = "[200 \<mapsto> ?b\<lparr>b_nextBuffer := Some 201\<rparr>, 201 \<mapsto> ?b\<lparr>b_nextBuffer := Some 202\<rparr>, 202 \<mapsto> ?b]"
  have "blist_rep ?h \<lparr>bl_head = Some 200, bl_tail = Some 202\<rparr> [200, 201, 202]"
    by (simp add: blist_rep_def ex_buffer_def)
  moreover have "content ?h 200 = ?b" "content ?h 201 = ?b" "content ?h 202 = ?b"
    by (simp_all add: content_def payload_def ex_buffer_def)
  ultimately show ?thesis
    using ex_buffer_ok(1)
    by (simp add: kmod_rep_def ex_three_def kmod0_def owned_def contents_ok_def BUFFER_ENTRIES_eq wf_buffer_def Let_def)
      (auto simp: ex_buffer_def)
qed

lemma ex_three_arch: "arch (ex_three hw) = hw"
  by (simp add: ex_three_def kmod0_def Let_def)

definition ex_sampler_of :: "buffer list \<Rightarrow> sampler_env" where
  "ex_sampler_of bs = ex_sampler\<lparr>se_device := Some \<lparr>dev_reads = map GotBuffer bs, dev_eof = False\<rparr>\<rparr>"

lemma ex_sampler_missed: "se_missed ex_sampler = Some (ascii ''0'' @ newline)"
  by (simp add: ex_sampler_def)

lemma ex_three_run:
  obtains evs m' b1 b2 b3 where "ktrace intel_api intel_irq intel_ok 2 (ex_three ex_intel) evs m'"
    "delivered_buffers evs = [b1, b2, b3]"
proof -
  obtain m1 b1 where 1: "my_read_wait False True (ex_three ex_intel) = Inr (Returned 4096 (Some b1), m1)"
    "kmod_rep 2 m1 ([] @ [200]) [201, 202] {}"
    using my_read_wait_some[OF ex_three_rep[of ex_intel], of False True] by auto
  obtain m2 b2 where 2: "my_read_wait False True m1 = Inr (Returned 4096 (Some b2), m2)"
    "kmod_rep 2 m2 (([] @ [200]) @ [201]) [202] {}"
    using my_read_wait_some[OF 1(2), of False True] by auto
  obtain m3 b3 where 3: "my_read_wait False True m2 = Inr (Returned 4096 (Some b3), m3)"
    using my_read_wait_some[OF 2(2), of False True] by auto
  have "ktrace intel_api intel_irq intel_ok 2 (ex_three ex_intel) [Delivered b1, Delivered b2, Delivered b3] m3"
    using 1(1) 2(1) 3 by (blast intro: ktrace.intros kstep.woken)
  then show ?thesis by (rule that) simp
qed

lemma ex_intel_ok [simp]: "intel_ok ex_intel" "perfctr_free ex_intel" "evntsel_free ex_intel"
  by (simp_all add: intel_ok_def ex_intel_def)

lemma ex_arm_ok [simp]: "arm_ok ex_arm" "arm_num_ctrs ex_arm = 6"
  by (simp_all add: arm_ok_def ex_arm_def)

lemma ex_allocates [simp]: "allocates ex_init"
  by (simp add: allocates_def allocated_def ex_init_def upt_rec)

lemma ex_scanner_dec: "scan_dec ex_scanner (dec k @ newline) = Some (of_nat k)"
proof -
  have "takeWhile is_digit (dec k @ newline) = dec k"
    using dec_digits[of _ k] by (subst takeWhile_append2) (auto simp: newline_def is_digit_def)
  then show ?thesis by (simp add: ex_scanner_def digits_value_dec)
qed

lemma ex_scan_one: "scan_dec ex_scanner (ascii ''1'') = Some 1" "ascii ''1'' \<noteq> ascii ''0x''"
  by (simp_all add: ex_scanner_def ascii_def is_digit_def digit_value_def Let_def)

end
