(* ===== verification/User_Properties.thy ===== *)
theory User_Properties
  imports Examples
begin

text \<open>
  The properties of the programs in user space, component by component: what the packet
  builder, the packet reader, the process table, the network code, the command line and the
  splitter promise, each applied to a concrete input.
\<close>

section \<open>The sender\<close>

text \<open>
  C12: \<open>network_send\<close> never leaves the objects it works on, whatever the operating system
  answers. It returns 0 or -1, and 0 when the network takes whole packets and memory is there;
  with 0 it has appended to the stream a sequence of well-formed packets of the next batch that
  carry exactly the samples of the buffer, in order and numbered from 0, and \<open>*total\<close> is the
  number of bytes; with -1 \<open>*total\<close> is as before.
\<close>

theorem network_send_correct:
  assumes "sender_inv st" and "buffer_ok b"
  shows "\<exists>rc tot' st'. network_send env b missed tot st = Inr (rc, tot', st') \<and> rc \<in> {0, -1} \<and>
     (env_good env \<longrightarrow> rc = 0) \<and> sender_inv st' \<and> (rc = -1 \<longrightarrow> tot' = tot) \<and>
     (rc = 0 \<longrightarrow> (\<exists>ps. batch_packets b missed (next_batch (pkt st)) ps \<and>
        wire (net st') = wire (net st) @ concat (map wire_bytes ps) \<and> tot' = length (concat (map wire_bytes ps))))"
  using network_send_ok[OF assms(1), of b env missed tot] assms(2) unfolding buffer_ok_def by blast

theorem network_send_correct_witness:
  "\<exists>rc tot' st'. network_send ex_os ex_buffer 5 0 sender_state0 = Inr (rc, tot', st') \<and> rc \<in> {0, -1} \<and>
     (env_good ex_os \<longrightarrow> rc = 0) \<and> sender_inv st' \<and> (rc = -1 \<longrightarrow> tot' = 0) \<and>
     (rc = 0 \<longrightarrow> (\<exists>ps. batch_packets ex_buffer 5 (next_batch (pkt sender_state0)) ps \<and>
        wire (net st') = wire (net sender_state0) @ concat (map wire_bytes ps) \<and> tot' = length (concat (map wire_bytes ps))))"
  by (rule network_send_correct) (simp_all add: sender_inv_def sender_state0_def mode_ok_def empty_proc_table_def)

section \<open>Packets\<close>

text \<open>
  C13: encode and decode. A non-empty packet that \<open>packet_create\<close> serialises, with memory to
  serialise it to, is read back by \<open>packet_read\<close> from the first bytes of that memory: the same
  header, the samples as far as the wire carries them, both strings, and exactly the number of
  bytes written; the packet under construction is empty again.
\<close>

theorem packet_create_read:
  assumes inv: "packet_inv st" and q: "h_quantity (header st) \<noteq> 0" and str: "strings_of t st cmdline exe"
    and mem: "\<And>n. alloc n \<noteq> None" and out: "wf_out out"
  shows "\<exists>blk n st'. packet_create alloc t st = Inr (0, Some blk, n, st') \<and> packet_inv st' \<and> pending st' = [] \<and>
     packet_read blk n out =
       Inr (0, \<lparr>rr_hdr = header st,
                rr_buf = map (wire_sample (h_pid (header st))) (pending st) @ drop (length (pending st)) (rr_buf out),
                rr_cmdline = Some (cmdline @ 0 # exe @ 0 # drop n blk), rr_exe = Some (exe @ 0 # drop n blk), rr_read = n\<rparr>)"
proof -
  let ?p = "\<lparr>wp_header = header st, wp_samples = pending st, wp_cmdline = cmdline, wp_exe = exe\<rparr>"
  have nul: "nul_free cmdline" "nul_free exe"
    using str by (auto simp: strings_of_def deref_info_def split: option.splits)
  then have wf: "wf_packet ?p" using inv by (simp add: wf_packet_def wf_pending)
  have buf: "length (wp_samples ?p) \<le> length (rr_buf out)" "\<forall>s \<in> set (rr_buf out). wf_sample s"
    using out length_wp_samples[OF wf] by (simp_all add: wf_out_def)
  from inv q str obtain blk where c: "length (wire_bytes ?p) \<le> length blk" "take (length (wire_bytes ?p)) blk = wire_bytes ?p"
      "packet_create alloc t st = Inr (0, Some blk, length (wire_bytes ?p), after_create st blk)"
    by (cases rule: packet_create_cases[where alloc = alloc]) (use mem in \<open>auto simp: wire_bytes_def\<close>)
  have "blk = wire_bytes ?p @ drop (length (wire_bytes ?p)) blk" using c(2) append_take_drop_id by metis
  then have "packet_read blk (length (wire_bytes ?p)) out =
      packet_read (wire_bytes ?p @ drop (length (wire_bytes ?p)) blk) (length (wire_bytes ?p)) out" by simp
  with c(3) packet_read_wire_bytes[OF wf order.refl buf] inv show ?thesis
    by (intro exI[of _ blk] exI[of _ "length (wire_bytes ?p)"] exI[of _ "after_create st blk"]) auto
qed

theorem packet_create_read_witness:
  "\<exists>blk n st'. packet_create (\<lambda>_. Some (\<lambda>_. 0)) ex_table ex_pkt = Inr (0, Some blk, n, st') \<and> packet_inv st' \<and> pending st' = [] \<and>
     packet_read blk n ex_out =
       Inr (0, \<lparr>rr_hdr = header ex_pkt,
                rr_buf = map (wire_sample (h_pid (header ex_pkt))) (pending ex_pkt) @ drop (length (pending ex_pkt)) (rr_buf ex_out),
                rr_cmdline = Some (ascii ''ls'' @ 0 # ascii ''/bin/ls'' @ 0 # drop n blk),
                rr_exe = Some (ascii ''/bin/ls'' @ 0 # drop n blk), rr_read = n\<rparr>)"
  by (rule packet_create_read) simp_all



text \<open>
  C27: reading a packet from memory that holds at least the \<open>n\<close> bytes announced never leaves it,
  provided the command line ends within them: with fewer than 20 bytes, or fewer than the
  samples need, or nothing behind the command line, the result is 1, otherwise 0.
\<close>

theorem packet_read_safe:
  assumes len: "n \<le> length base" and buf: "255 \<le> length (rr_buf out)"
  defines "amt \<equiv> 20 + 28 * unat (base ! 3)"
  assumes nul: "20 \<le> n \<Longrightarrow> amt \<le> n \<Longrightarrow> 0 \<in> set (take (n - amt) (drop amt base))"
  shows "\<exists>rc out'. packet_read base n out = Inr (rc, out') \<and> rc \<in> {0, 1} \<and>
     (n < 20 \<or> n < amt \<longrightarrow> rc = 1 \<and> rr_buf out' = rr_buf out)"
proof -
  consider (header) "n < 20" | (samples) "20 \<le> n" "n < amt" | (strings) "20 \<le> n" "amt \<le> n" by linarith
  then show ?thesis
  proof cases
    case header
    then show ?thesis using packet_read_short_header[of n base out] by simp
  next
    case samples
    then show ?thesis using packet_read_short_samples[of n base out] len unfolding amt_def by auto
  next
    case strings
    obtain out1 where 1: "packet_read base n out = read_info (drop amt base) (n - amt) out1"
      using packet_read_info[of base n out] strings(2) len buf unfolding amt_def by (metis diff_diff_left)
    have "n - amt \<le> length (drop amt base)" using len by simp
    from read_info_terminated[OF this nul[OF strings], of out1] strings show ?thesis
      unfolding 1 by (auto split: if_splits)
  qed
qed

theorem packet_read_safe_witness:
  "\<exists>rc out'. packet_read (wire_bytes ex_packet) 25 ex_out = Inr (rc, out') \<and> rc \<in> {0, 1} \<and>
     (25 < (20 :: nat) \<or> 25 < 20 + 28 * unat (wire_bytes ex_packet ! 3) \<longrightarrow> rc = 1 \<and> rr_buf out' = rr_buf ex_out)"
proof (rule packet_read_safe)
  show "25 \<le> length (wire_bytes ex_packet)" using length_wire_bytes[OF ex_packet_wf] by (simp add: ex_packet_def ascii_def)
  show "255 \<le> length (rr_buf ex_out)" by (simp add: ex_out_def)
  have "wire_bytes ex_packet ! 3 = 1"
    by (simp add: wire_bytes_def packet_bytes_def header_bytes_def ex_packet_def)
  then show "20 + 28 * unat (wire_bytes ex_packet ! 3) \<le> 25 \<Longrightarrow> 0 \<in> set (take (25 - (20 + 28 * unat (wire_bytes ex_packet ! 3)))
      (drop (20 + 28 * unat (wire_bytes ex_packet ! 3)) (wire_bytes ex_packet)))" by simp
qed

text \<open>
  C28: without a NUL in the \<open>n\<close> bytes left for the strings, \<open>read_info\<close> does not ask for more
  bytes as packet.h says: its counter wraps around, it reads beyond the \<open>n\<close> bytes, and it either
  leaves the object or returns 0 after consuming more than it was given.
\<close>

theorem read_info_overrun:
  assumes "n \<le> length ms" and "length ms < SIZE_MAX" and "0 \<notin> set (take n ms)"
  shows "read_info ms n out = Inl OutOfBounds \<or>
         (\<exists>out'. read_info ms n out = Inr (0, out') \<and> rr_read out + n < rr_read out')"
  by (rule read_info_unterminated[OF assms])

theorem read_info_overrun_witness:
  "read_info [108, 115] 2 ex_out = Inl OutOfBounds \<or>
   (\<exists>out'. read_info [108, 115] 2 ex_out = Inr (0, out') \<and> rr_read ex_out + 2 < rr_read out')"
  by (rule read_info_overrun) (simp_all add: SIZE_MAX_def)

text \<open>
  The layout of a packet header in memory: four single bytes, then the four 32-bit fields
  with the most significant byte first; \<open>read_header\<close> reads back what \<open>write_header\<close> wrote.
\<close>

lemma packet_header_layout:
  assumes "20 \<le> length blk"
  shows "\<exists>blk'. write_header h (blk, 0) = Inr (blk', 20) \<and> length blk' = length blk \<and>
     take 20 blk' = [h_kernel h, h_counters h, h_core h, h_quantity h] @
       concat (map (\<lambda>w. [ucast (drop_bit 24 w), ucast (drop_bit 16 w), ucast (drop_bit 8 w), ucast w])
         [h_batch h, h_missed h, h_first_index h, h_pid h]) \<and>
     read_header blk' = Inr h"
proof -
  obtain blk' where b: "write_header h (blk, 0) = Inr (blk', 20)" "length blk' = length blk" "take 20 blk' = header_bytes h"
    using writesD[OF writes_header[of h], of 0 blk] assms by auto
  have "read_header blk' = Inr h" using read_header_bytes[of h "drop 20 blk'"] b(3) by (metis append_take_drop_id)
  with b show ?thesis by (intro exI[of _ blk']) (simp add: header_bytes_def net32_big_endian)
qed

section \<open>Processes\<close>

text \<open>
  C25: the process table stays in order: every entry has a known mode and its own pid, its
  counters of repeated checks stay between 0 and 10, one for a failed lookup and one for a
  zygote never both run, and \<open>earliest_zygote\<close> is at most the pid of every zygote.
\<close>

theorem process_table_invariant:
  assumes "no_proc_0 fs" and "table_inv t"
  shows "table_inv (getProcessInfo fs pid check t) \<and>
     (\<exists>p. procMap (getProcessInfo fs pid check t) pid = Some p \<and> pi_mode p \<noteq> Unknown) \<and>
     (\<forall>k. k \<noteq> pid \<longrightarrow> procMap (getProcessInfo fs pid check t) k = procMap t k)"
  using getProcessInfo_inv[OF assms] getProcessInfo_known by auto

theorem process_table_invariant_witness:
  "table_inv (getProcessInfo ex_proc 42 True empty_proc_table) \<and>
     (\<exists>p. procMap (getProcessInfo ex_proc 42 True empty_proc_table) 42 = Some p \<and> pi_mode p \<noteq> Unknown) \<and>
     procMap (getProcessInfo ex_proc 42 True empty_proc_table) 7 = procMap empty_proc_table 7"
  using process_table_invariant[of ex_proc empty_proc_table 42 True] by (simp add: no_proc_0_def ex_no_proc_0)


section \<open>The command line and the attributes\<close>

text \<open>
  C39: an attribute file that cannot be opened is a null pointer passed to \<open>fgets\<close>: the sampling
  program, connected to its host, stops before it has sent anything, instead of ending with -1.
\<close>

theorem missing_attribute_crashes:
  assumes "parse_args argv False 0 = Inr (dbg, k, host # port # extra)" and "connects (se_connect se host port)"
    and "p \<in> {''period'', ''0'', ''1'', ''2'', ''3''}" and "se_sysfs se (sysfs_path p) = None"
  shows "sender_main se argv = Inl NullDeref"
  using sender_main_missing[OF assms(1,2) _ assms(4)] assms(3) by (simp add: attributes_def)

theorem missing_attribute_crashes_witness:
  "sender_main (ex_sampler\<lparr>se_sysfs := (ex_sysfs (sysfs_path ''3'' := None))\<rparr>) ex_args = Inl NullDeref"
  by (rule missing_attribute_crashes[where p = "''3''", OF ex_parse]) simp_all

section \<open>The splitter\<close>





text \<open>
  C35: the guard against corrupt packets is off by one. A recording with a well-formed packet of
  core 16, after any packets the splitter can file, stops the splitter with a failed assertion:
  nothing is closed and the index is not written.
\<close>

theorem splitter_core_16:
  assumes "2 < length argv" "argv ! 2 = dir" "parse_format argv = Some fmt"
    and "split_env_ok env dir" and "recording fe desc (ps @ p # qs) pad" and "nul_free desc" and "wf_out out"
    and "\<forall>q \<in> set (ps @ p # qs). wf_packet q" and "\<forall>q \<in> set ps. packet_fits env dir q"
    and "unat (h_core (wp_header p)) = 16"
  shows "splitter_main env fe order out argv = Inl AssertFail"
  by (rule splitter_main_core_16[OF assms(1-6,8,7,9,10)])

theorem splitter_core_16_witness:
  "splitter_main ex_split (ex_file [ex_packet, ex_packet\<lparr>wp_header := (wp_header ex_packet)\<lparr>h_core := 16\<rparr>\<rparr>]) ex_order ex_out
     ex_split_args = Inl AssertFail"
proof (rule splitter_core_16[of ex_split_args "ascii ''out''" Text ex_split _ "[]" "[ex_packet]" _ "[]" "[]"])
  show "recording (ex_file [ex_packet, ex_packet\<lparr>wp_header := (wp_header ex_packet)\<lparr>h_core := 16\<rparr>\<rparr>]) []
      ([ex_packet] @ [ex_packet\<lparr>wp_header := (wp_header ex_packet)\<lparr>h_core := 16\<rparr>\<rparr>]) []" by simp
  show "\<forall>q \<in> set ([ex_packet] @ [ex_packet\<lparr>wp_header := (wp_header ex_packet)\<lparr>h_core := 16\<rparr>\<rparr>]). wf_packet q"
    by (simp add: wf_packet_def) (simp add: ex_packet_def)
  show "\<forall>q \<in> set [ex_packet]. packet_fits ex_split (ascii ''out'') q" by (simp add: packet_fits_def) (simp add: ex_packet_def)
qed (simp_all add: ex_split_args_def parse_format_def ascii_def)

text \<open>
  C32: closing visits every process once, in whatever order the table is visited: it writes one
  line of the index for each, closes every file, keeps their contents, and empties the table.
\<close>

theorem splitter_close_correct:
  assumes "splitter_inv hist st" and "visits_keys order st" and "indexfd st = Some idx"
  shows "closeAll order st = Inr (idx @ concat (map (\<lambda>pid. index_line (the (pid_files st pid))) order),
     st\<lparr>files := map (\<lambda>f. f\<lparr>f_open := False\<rparr>) (files st), pid_files := (\<lambda>_. None), indexfd := None\<rparr>)"
  using closeAll_ok[OF assms] by (simp add: index_of_def)

theorem splitter_close_correct_witness:
  "\<exists>st. pid_files st 42 \<noteq> None \<and> closeAll (ex_order st) st =
     Inr ([] @ concat (map (\<lambda>pid. index_line (the (pid_files st pid))) (ex_order st)),
       st\<lparr>files := map (\<lambda>f. f\<lparr>f_open := False\<rparr>) (files st), pid_files := (\<lambda>_. None), indexfd := None\<rparr>)"
proof -
  let ?st = "initial_splitter (ascii ''out'') Text\<lparr>indexfd := Some []\<rparr>"
  have "splitter_inv [] ?st" by (simp add: splitter_inv_initial)
  moreover have "\<forall>p \<in> set [ex_packet]. packet_fits ex_split (topDir ?st) p"
    by (simp add: packet_fits_def) (simp add: ex_packet_def)
  ultimately obtain st where st: "splitter_inv ([] @ delivered [ex_packet]) st" "same_setup ?st st"
    "\<forall>p \<in> set [ex_packet]. pid_files st (h_pid (wp_header p)) \<noteq> None"
    by (rule splitter_packets_ok)
  have "visits_keys (ex_order st) st" using ex_iterates by (simp add: iterates_def)
  moreover have "indexfd st = Some []" using st(2) by (simp add: same_setup_def)
  ultimately have "closeAll (ex_order st) st =
     Inr ([] @ concat (map (\<lambda>pid. index_line (the (pid_files st pid))) (ex_order st)),
       st\<lparr>files := map (\<lambda>f. f\<lparr>f_open := False\<rparr>) (files st), pid_files := (\<lambda>_. None), indexfd := None\<rparr>)"
    by (rule splitter_close_correct[OF st(1)])
  moreover have "pid_files st 42 \<noteq> None" using st(3) by (simp add: ex_packet_def)
  ultimately show ?thesis by blast
qed

text \<open>
  C38: when the index file cannot be opened the splitter prints a message and goes on. Whatever the
  recording holds, and whether it can be read or not, the run then never reaches its end: at the
  latest the null pointer is passed to \<open>fprintf\<close> or \<open>fclose\<close>.
\<close>

theorem splitter_without_index:
  assumes "3 \<le> length argv" "parse_format argv = Some fmt" and "sp_mkdir env"
    and "\<not> sp_fopen env (take 1023 (argv ! 2 @ ascii ''/index.csv''))"
  shows "(\<exists>e. splitter_main env fe order out argv = Inl e) \<and>
     splitter_main env (fe\<lparr>fe_stat := None\<rparr>) order out argv = Inl NullDeref"
proof -
  have "indexfd (startIndex env (initial_splitter (argv ! 2) fmt)) = None"
    using assms(4) by (simp add: startIndex_def initial_splitter_def)
  then have "splitter_main env (fe\<lparr>fe_stat := None\<rparr>) order out argv = Inl NullDeref"
    using assms(1-3) closeAll_no_index by (simp add: splitter_main_def read_file_def)
  with splitter_main_no_index[OF assms(1,2,4,3)] show ?thesis by blast
qed

theorem splitter_without_index_witness:
  "(\<exists>e. splitter_main (ex_split\<lparr>sp_fopen := (\<lambda>f. f \<noteq> ascii ''out/index.csv'')\<rparr>) (ex_file [ex_packet]) ex_order ex_out ex_split_args = Inl e) \<and>
     splitter_main (ex_split\<lparr>sp_fopen := (\<lambda>f. f \<noteq> ascii ''out/index.csv'')\<rparr>) (ex_file [ex_packet]\<lparr>fe_stat := None\<rparr>) ex_order ex_out ex_split_args
       = Inl NullDeref"
  by (rule splitter_without_index) (simp_all add: ex_split_args_def parse_format_def ascii_def ex_split_def)

section \<open>The older reader\<close>

text \<open>
  C34: the older reader prints one line for every sample of the device, in order, with the strings
  of its process; every process is looked up exactly once, at its first sample. It does not look
  at the result of the read that meets the end of the device: it goes on to print what the memory
  of its buffer happens to hold, or fails its assertion.
\<close>

theorem legacy_prints:
  assumes "\<forall>b \<in> set bs. printable b" and "wf_buffer (stack (length bs))"
  shows "if unat (b_num_samples (stack (length bs))) \<le> BUFFER_ENTRIES
     then \<exists>st. legacy_main fs stack (Some \<lparr>dev_reads = map GotBuffer bs, dev_eof = False\<rparr>) = Inr (0, st) \<and>
       lg_out st = legacy_lines (lg_procMap st) (concat (map core_samples (bs @ [stack (length bs)]))) \<and>
       lg_lookups st = card (s_pid ` snd ` set (concat (map core_samples (bs @ [stack (length bs)])))) \<and>
       (\<forall>(core, c) \<in> set (concat (map core_samples (bs @ [stack (length bs)]))). \<exists>k < lg_lookups st.
          lg_procMap st (s_pid c) = Some (populate (fs k) (new_legacy_process\<lparr>lp_pid := ucast (s_pid c)\<rparr>)))
     else legacy_main fs stack (Some \<lparr>dev_reads = map GotBuffer bs, dev_eof = False\<rparr>) = Inl AssertFail"
proof -
  let ?dev = "\<lparr>dev_reads = map GotBuffer bs, dev_eof = False\<rparr>" and ?j = "stack (length bs)"
  let ?cs = "concat (map core_samples (bs @ [?j]))"
  obtain st1 where 1: "printed fs (concat (map core_samples bs)) st1"
    "legacy_loop fs stack 0 ?dev legacy0 = outputBuffer fs ?j st1"
    using legacy_loop_ok[OF printed_initial assms(1), of fs stack 0] by auto
  show ?thesis
  proof (cases "unat (b_num_samples ?j) \<le> BUFFER_ENTRIES")
    case True
    then have "printable ?j" using assms(2) by (simp add: printable_def)
    from outputBuffer_ok[OF 1(1) this] obtain st where 2: "outputBuffer fs ?j st1 = Inr st" "printed fs ?cs st" by auto
    have d: "dom (lg_procMap st) = s_pid ` snd ` set ?cs"
      using 2(2) unfolding printed_def by blast
    have "\<exists>k < lg_lookups st. lg_procMap st (s_pid c) = Some (populate (fs k) (new_legacy_process\<lparr>lp_pid := ucast (s_pid c)\<rparr>))"
      if c: "(core, c) \<in> set ?cs" for core c
    proof -
      have "s_pid c \<in> dom (lg_procMap st)" unfolding d using c by force
      then obtain p where p: "lg_procMap st (s_pid c) = Some p" by blast
      moreover have "legacy_inv fs st" using 2(2) by (simp add: printed_def)
      ultimately show ?thesis unfolding legacy_inv_def by metis
    qed
    moreover have "lg_lookups st = card (s_pid ` snd ` set ?cs)" "lg_out st = legacy_lines (lg_procMap st) ?cs"
      using 2(2) unfolding printed_def legacy_inv_def by metis+
    ultimately show ?thesis using True 1(2) 2(1) by (auto simp: legacy_main_def)
  next
    case False
    then have "outputBuffer fs ?j st1 = Inl AssertFail" by (simp add: outputBuffer_def)
    with False 1(2) show ?thesis by (simp add: legacy_main_def)
  qed
qed

theorem legacy_prints_witness:
  "(if unat (b_num_samples ex_buffer) \<le> BUFFER_ENTRIES
    then \<exists>st. legacy_main (\<lambda>_. ex_proc) (\<lambda>_. ex_buffer) (Some \<lparr>dev_reads = map GotBuffer [ex_buffer], dev_eof = False\<rparr>) = Inr (0, st) \<and>
       lg_out st = legacy_lines (lg_procMap st) (concat (map core_samples ([ex_buffer] @ [ex_buffer]))) \<and>
       lg_lookups st = card (s_pid ` snd ` set (concat (map core_samples ([ex_buffer] @ [ex_buffer])))) \<and>
       (\<forall>(core, c) \<in> set (concat (map core_samples ([ex_buffer] @ [ex_buffer]))). \<exists>k < lg_lookups st.
          lg_procMap st (s_pid c) = Some (populate ex_proc (new_legacy_process\<lparr>lp_pid := ucast (s_pid c)\<rparr>)))
    else legacy_main (\<lambda>_. ex_proc) (\<lambda>_. ex_buffer) (Some \<lparr>dev_reads = map GotBuffer [ex_buffer], dev_eof = False\<rparr>) = Inl AssertFail)"
  by (rule legacy_prints[of "[ex_buffer]" "\<lambda>_. ex_buffer" "\<lambda>_. ex_proc"]) (simp_all add: printable_def)

end
