(* ===== verification/Kernel_Concurrent.thy ===== *)
theory Kernel_Concurrent
  imports Kernel_Session
begin

text \<open>
  The module with its real interleavings: interrupts on several processors and reading tasks run
  at the same time, and only the two critical sections of \<open>append_blist\<close> and \<open>pop_blist\<close> on the
  same list exclude each other. \<open>gatherSample\<close>, \<open>startCtrs\<close> and \<open>my_read\<close> are
  cut at every access to shared state; what lies between two cuts is done in one step.
\<close>

section \<open>The interrupt handlers in pieces\<close>

text \<open>
  Where a processor is in \<open>gatherSample\<close>, or in \<open>startCtrs\<close>, which \<open>on_each_cpu\<close> runs with the
  processor's interrupts off. \<open>Want_empty\<close>, \<open>Want_full\<close> and \<open>Start_want\<close> spin for the lock of
  a list, \<open>In_empty\<close>, \<open>In_full\<close> and \<open>Start_in\<close> hold it; the number is the process that was
  interrupted.
\<close>

datatype hphase = Idle | Want_empty u64 | In_empty u64 | Popped addr u64 | Ready addr u64
  | Want_full addr | In_full addr | Appended
  | Start_want addr | Start_in addr | Start_clear | Start_local

definition gather_start :: "nat \<Rightarrow> u64 \<Rightarrow> 'a kmod \<Rightarrow> hphase" where
  "gather_start c pid m = (case lbuffer m c of None \<Rightarrow> Want_empty pid | Some a \<Rightarrow> Ready a pid)"

definition start_start :: "nat \<Rightarrow> 'a kmod \<Rightarrow> hphase" where
  "start_start c m = (case lbuffer m c of None \<Rightarrow> Start_clear | Some a \<Rightarrow> Start_want a)"

text \<open>Writing the sample into the processor's own buffer; the flag says that it is full now.\<close>

definition write_sample :: "'a pmu_api \<Rightarrow> nat \<Rightarrow> u64 \<Rightarrow> addr \<Rightarrow> 'a kmod \<Rightarrow> fault + (bool \<times> 'a kmod)" where
  "write_sample api c pid a m =
     (case k_heap m a of
        None \<Rightarrow> Inl UseAfterFree
      | Some b \<Rightarrow>
          let n = unat (b_num_samples b);
              b = b\<lparr>b_num_samples := b_num_samples b + 1\<rparr>
          in if \<not> n < length (b_samples b) then Inl OutOfBounds
             else
               let s = (b_samples b ! n)\<lparr>s_cycles := read_ccnt api c (arch m) + period m, s_pid := pid\<rparr>
               in fault_bind (fault_fold (read_counter api c) [0..<num_ctrs api (arch m)] (s, arch m)) (\<lambda>(s, hw).
                    let b = b\<lparr>b_samples := (b_samples b)[n := s]\<rparr>
                    in Inr (unat (b_num_samples b) \<ge> BUFFER_ENTRIES, m\<lparr>k_heap := (k_heap m)(a \<mapsto> b), arch := hw\<rparr>)))"

fun hand_next :: "'a pmu_api \<Rightarrow> nat \<Rightarrow> hphase \<Rightarrow> 'a kmod \<Rightarrow> fault + (hphase \<times> 'a kmod)" where
  "hand_next api c Idle m = Inr (Idle, m)"
| "hand_next api c (Want_empty pid) m = Inr (In_empty pid, m)"
| "hand_next api c (In_empty pid) m =
     fault_bind (pop_empty m) (\<lambda>(r, m).
       case r of None \<Rightarrow> Inr (Idle, m\<lparr>missed_attr := missed_attr m + 1\<rparr>) | Some a \<Rightarrow> Inr (Popped a pid, m))"
| "hand_next api c (Popped a pid) m =
     fault_bind (initialize_buffer c a m) (\<lambda>m. Inr (Ready a pid, m\<lparr>lbuffer := (lbuffer m)(c := Some a)\<rparr>))"
| "hand_next api c (Ready a pid) m =
     fault_bind (write_sample api c pid a m) (\<lambda>(full, m). Inr (if full then Want_full a else Idle, m))"
| "hand_next api c (Want_full a) m = Inr (In_full a, m)"
| "hand_next api c (In_full a) m = fault_bind (append_full (Some a) m) (\<lambda>m. Inr (Appended, m))"
| "hand_next api c Appended m = Inr (Idle, wake_up_all (m\<lparr>lbuffer := (lbuffer m)(c := None)\<rparr>))"
| "hand_next api c (Start_want a) m = Inr (Start_in a, m)"
| "hand_next api c (Start_in a) m = fault_bind (append_empty (Some a) m) (\<lambda>m. Inr (Start_clear, m))"
| "hand_next api c Start_clear m = Inr (Start_local, m\<lparr>lbuffer := (lbuffer m)(c := None)\<rparr>)"
| "hand_next api c Start_local m =
     fault_bind (startCtrsLocal api c (cfgs m) (period m) (arch m)) (\<lambda>hw. Inr (Idle, m\<lparr>arch := hw\<rparr>))"

text \<open>Run without interruption, the pieces are \<open>gatherSample\<close> and \<open>startCtrs\<close>.\<close>

fun hand_run :: "'a pmu_api \<Rightarrow> nat \<Rightarrow> nat \<Rightarrow> hphase \<Rightarrow> 'a kmod \<Rightarrow> fault + (hphase \<times> 'a kmod)" where
  "hand_run api c 0 p m = Inr (p, m)"
| "hand_run api c (Suc k) p m = fault_bind (hand_next api c p m) (\<lambda>(p, m). hand_run api c k p m)"

lemma hand_run_Idle [simp]: "hand_run api c k Idle m = Inr (Idle, m)"
  by (induction k) auto

lemma hand_run_sample:
  assumes "4 \<le> k"
  shows "hand_run api c k (Ready a pid) m =
     fault_bind (write_sample api c pid a m) (\<lambda>(full, m).
       if full then fault_bind (append_full (Some a) m) (\<lambda>m. Inr (Idle, wake_up_all (m\<lparr>lbuffer := (lbuffer m)(c := None)\<rparr>)))
       else Inr (Idle, m))"
proof -
  obtain j where "k = 4 + j" using assms le_Suc_ex by blast
  then have k: "k = Suc (Suc (Suc (Suc j)))" by simp
  show ?thesis unfolding k
    by (cases "write_sample api c pid a m") (auto simp: fault_bind_assoc)
qed

lemma gatherSample_write:
  "gatherSample api c pid m =
     fault_bind (current_buffer c m) (\<lambda>(r, m).
       case r of None \<Rightarrow> Inr m
       | Some a \<Rightarrow> fault_bind (write_sample api c pid a m) (\<lambda>(full, m).
           if full then fault_bind (append_full (Some a) m) (\<lambda>m. Inr (wake_up_all (m\<lparr>lbuffer := (lbuffer m)(c := None)\<rparr>)))
           else Inr m))"
proof (cases "current_buffer c m")
  case (Inl e)
  then show ?thesis by (simp add: gatherSample_def)
next
  case (Inr r)
  obtain x m1 where r: "r = (x, m1)" by fastforce
  show ?thesis
  proof (cases x)
    case None
    with Inr r show ?thesis by (simp add: gatherSample_def)
  next
    case (Some a)
    show ?thesis
    proof (cases "k_heap m1 a")
      case None
      with Inr r Some show ?thesis by (simp add: gatherSample_def write_sample_def)
    next
      case (Some b)
      with Inr r \<open>x = Some a\<close> show ?thesis
        by (cases "fault_fold (read_counter api c) [0..<num_ctrs api (arch m1)]
            ((b_samples b ! unat (b_num_samples b))\<lparr>s_cycles := read_ccnt api c (arch m1) + period m1, s_pid := pid\<rparr>, arch m1)")
          (auto simp: gatherSample_def write_sample_def Let_def)
    qed
  qed
qed

lemma gather_alone:
  "hand_run api c 7 (gather_start c pid m) m = fault_bind (gatherSample api c pid m) (\<lambda>m. Inr (Idle, m))"
proof (cases "lbuffer m c")
  case (Some a)
  then show ?thesis
    by (cases "write_sample api c pid a m")
      (auto simp: gather_start_def gatherSample_write current_buffer_def hand_run_sample fault_bind_assoc)
next
  case None
  have 7: "hand_run api c 7 (Want_empty pid) m = hand_run api c 6 (In_empty pid) m" by (simp add: numeral_eq_Suc)
  show ?thesis
  proof (cases "pop_empty m")
    case (Inl e)
    with None 7 show ?thesis by (simp add: gather_start_def gatherSample_def current_buffer_def numeral_eq_Suc)
  next
    case (Inr r)
    obtain x m1 where r: "r = (x, m1)" by fastforce
    show ?thesis
    proof (cases x)
      case None
      with Inr r \<open>lbuffer m c = None\<close> show ?thesis
        by (simp add: gather_start_def gatherSample_def current_buffer_def numeral_eq_Suc)
    next
      case (Some a)
      have "hand_run api c 6 (In_empty pid) m = fault_bind (initialize_buffer c a m1) (\<lambda>m1.
          hand_run api c 4 (Ready a pid) (m1\<lparr>lbuffer := (lbuffer m1)(c := Some a)\<rparr>))"
        using Inr r Some by (simp add: numeral_eq_Suc fault_bind_assoc)
      with Inr r Some None 7 show ?thesis
        by (cases "initialize_buffer c a m1")
          (auto simp: gather_start_def gatherSample_write current_buffer_def hand_run_sample fault_bind_assoc case_prod_beta fault_bind_def split: sum.split)
    qed
  qed
qed

lemma start_alone:
  "hand_run api c 4 (start_start c m) m = fault_bind (startCtrs api c m) (\<lambda>m. Inr (Idle, m))"
proof (cases "lbuffer m c")
  case None
  then show ?thesis
    by (cases "startCtrsLocal api c (cfgs (m\<lparr>lbuffer := (lbuffer m)(c := None)\<rparr>)) (period m) (arch m)")
      (simp_all add: start_start_def startCtrs_def numeral_eq_Suc Let_def)
next
  case (Some a)
  show ?thesis
  proof (cases "append_empty (Some a) m")
    case (Inl e)
    with Some show ?thesis by (simp add: start_start_def startCtrs_def numeral_eq_Suc)
  next
    case (Inr m1)
    with Some show ?thesis
      by (cases "startCtrsLocal api c (cfgs (m1\<lparr>lbuffer := (lbuffer m1)(c := None)\<rparr>)) (period m1) (arch m1)")
        (simp_all add: start_start_def startCtrs_def numeral_eq_Suc Let_def)
  qed
qed

section \<open>The reader in pieces\<close>

text \<open>
  Where a task is in \<open>my_read\<close>, after the checks of its arguments. A task that finds no buffer
  sleeps; waking up it starts again. Whether the copy to the user's memory succeeds or not, the
  buffer is put back.
\<close>

datatype rphase = R_idle | R_want_full | R_in_full | R_copy addr | R_want_empty addr | R_in_empty addr

fun read_next :: "rphase \<Rightarrow> 'a kmod \<Rightarrow> fault + (rphase \<times> 'a kmod)" where
  "read_next R_idle m = Inr (R_idle, m)"
| "read_next R_want_full m = Inr (R_in_full, m)"
| "read_next R_in_full m =
     fault_bind (pop_full m) (\<lambda>(r, m). Inr (case r of None \<Rightarrow> R_idle | Some a \<Rightarrow> R_copy a, m))"
| "read_next (R_copy a) m = (case k_heap m a of None \<Rightarrow> Inl UseAfterFree | Some b \<Rightarrow> Inr (R_want_empty a, m))"
| "read_next (R_want_empty a) m = Inr (R_in_empty a, m)"
| "read_next (R_in_empty a) m = fault_bind (append_empty (Some a) m) (\<lambda>m. Inr (R_idle, m))"

section \<open>Interleavings\<close>

record 'a conc =
  c_mod :: "'a kmod"
  c_hand :: "nat \<Rightarrow> hphase"
  c_read :: "nat \<Rightarrow> rphase"

definition set_hand :: "'a conc \<Rightarrow> nat \<Rightarrow> hphase \<Rightarrow> 'a kmod \<Rightarrow> 'a conc" where
  "set_hand s c p m = s\<lparr>c_hand := (c_hand s)(c := p), c_mod := m\<rparr>"

definition set_read :: "'a conc \<Rightarrow> nat \<Rightarrow> rphase \<Rightarrow> 'a kmod \<Rightarrow> 'a conc" where
  "set_read s r q m = s\<lparr>c_read := (c_read s)(r := q), c_mod := m\<rparr>"

lemma set_simps [simp]:
  "c_mod (set_hand s c p m) = m" "c_hand (set_hand s c p m) = (c_hand s)(c := p)" "c_read (set_hand s c p m) = c_read s"
  "c_mod (set_read s r q m) = m" "c_hand (set_read s r q m) = c_hand s" "c_read (set_read s r q m) = (c_read s)(r := q)"
  by (simp_all add: set_hand_def set_read_def)

text \<open>Each list has a lock, held by whoever is inside one of its critical sections.\<close>

datatype lock = Empty_lock | Full_lock

fun h_lock :: "hphase \<Rightarrow> lock option" where
  "h_lock (In_empty pid) = Some Empty_lock"
| "h_lock (In_full a) = Some Full_lock"
| "h_lock (Start_in a) = Some Empty_lock"
| "h_lock _ = None"

fun h_wants :: "hphase \<Rightarrow> lock option" where
  "h_wants (Want_empty pid) = Some Empty_lock"
| "h_wants (Want_full a) = Some Full_lock"
| "h_wants (Start_want a) = Some Empty_lock"
| "h_wants _ = None"

fun r_lock :: "rphase \<Rightarrow> lock option" where
  "r_lock (R_in_empty a) = Some Empty_lock"
| "r_lock R_in_full = Some Full_lock"
| "r_lock _ = None"

fun r_wants :: "rphase \<Rightarrow> lock option" where
  "r_wants (R_want_empty a) = Some Empty_lock"
| "r_wants R_want_full = Some Full_lock"
| "r_wants _ = None"

definition lock_of :: "'a conc \<Rightarrow> nat + nat \<Rightarrow> lock option" where
  "lock_of s x = (case x of Inl c \<Rightarrow> h_lock (c_hand s c) | Inr r \<Rightarrow> r_lock (c_read s r))"

definition locked :: "'a conc \<Rightarrow> lock \<Rightarrow> bool" where
  "locked s l \<longleftrightarrow> Some l \<in> range (lock_of s)"

definition can_hand :: "'a conc \<Rightarrow> nat \<Rightarrow> bool" where
  "can_hand s c \<longleftrightarrow> c_hand s c \<noteq> Idle \<and> (case h_wants (c_hand s c) of None \<Rightarrow> True | Some l \<Rightarrow> \<not> locked s l)"

definition can_read :: "'a conc \<Rightarrow> nat \<Rightarrow> bool" where
  "can_read s r \<longleftrightarrow> c_read s r \<noteq> R_idle \<and> (case r_wants (c_read s r) of None \<Rightarrow> True | Some l \<Rightarrow> \<not> locked s l)"

text \<open>\<open>spin_lock_irqsave\<close>: the processor of a task that holds a lock has its interrupts off.\<close>

definition irqs_off :: "(nat \<Rightarrow> nat) \<Rightarrow> 'a conc \<Rightarrow> nat \<Rightarrow> bool" where
  "irqs_off home s c \<longleftrightarrow> (\<exists>r. home r = c \<and> r_lock (c_read s r) \<noteq> None)"

datatype cevent = C_sampled nat sample | C_missed nat | C_popped nat buffer | C_copied nat buffer | C_restarted nat | C_other

definition slot_at :: "'a kmod \<Rightarrow> addr \<Rightarrow> sample" where
  "slot_at m a = b_samples (content (k_heap m) a) ! unat (b_num_samples (content (k_heap m) a))"

definition hand_event :: "'a pmu_api \<Rightarrow> nat \<Rightarrow> hphase \<Rightarrow> 'a kmod \<Rightarrow> hphase \<Rightarrow> cevent" where
  "hand_event api c p0 m p = (case p0 of
       Ready a pid \<Rightarrow> C_sampled c (sample_now api c pid (period m) (arch m) (s_counters (slot_at m a)))
     | In_empty pid \<Rightarrow> if p = Idle then C_missed c else C_other
     | _ \<Rightarrow> C_other)"

text \<open>What a reader pops and copies, apart from the link of the buffer.\<close>

definition read_event :: "nat \<Rightarrow> rphase \<Rightarrow> 'a kmod \<Rightarrow> rphase \<Rightarrow> cevent" where
  "read_event r q0 m q = (case q0 of
       R_in_full \<Rightarrow> (case q of R_copy a \<Rightarrow> C_popped r (content (k_heap m) a) | _ \<Rightarrow> C_other)
     | R_copy a \<Rightarrow> C_copied r (content (k_heap m) a)
     | _ \<Rightarrow> C_other)"

text \<open>
  \<open>home r\<close> is the processor of the task \<open>r\<close>; a task only runs while its processor is not in the
  handler. A non-maskable interrupt (\<open>nmi\<close>) arrives whether interrupts are off or not. A
  processor may be told to start again at any time its interrupts are on; that a non-maskable
  interrupt then arrives in the middle of \<open>startCtrs\<close> is left to the theory \<open>Kernel_Restart\<close>.
\<close>

inductive cstep :: "'a pmu_api \<Rightarrow> nat \<Rightarrow> bool \<Rightarrow> (nat \<Rightarrow> nat) \<Rightarrow> 'a conc \<Rightarrow> cevent \<Rightarrow> 'a conc \<Rightarrow> bool"
  for api n nmi home where
  interrupt: "c < n \<Longrightarrow> c_hand s c = Idle \<Longrightarrow> nmi \<or> \<not> irqs_off home s c \<Longrightarrow>
    cstep api n nmi home s C_other (set_hand s c (gather_start c pid (c_mod s)) (c_mod s))"
| restart: "c < n \<Longrightarrow> c_hand s c = Idle \<Longrightarrow> \<not> nmi \<Longrightarrow> \<not> irqs_off home s c \<Longrightarrow>
    cstep api n nmi home s (C_restarted c) (set_hand s c (start_start c (c_mod s)) (c_mod s))"
| handler: "can_hand s c \<Longrightarrow> hand_next api c (c_hand s c) (c_mod s) = Inr (p, m) \<Longrightarrow>
    cstep api n nmi home s (hand_event api c (c_hand s c) (c_mod s) p) (set_hand s c p m)"
| call: "c_read s r = R_idle \<Longrightarrow> c_hand s (home r) = Idle \<Longrightarrow>
    cstep api n nmi home s C_other (set_read s r R_want_full (c_mod s))"
| reader: "c_hand s (home r) = Idle \<Longrightarrow> can_read s r \<Longrightarrow> read_next (c_read s r) (c_mod s) = Inr (q, m) \<Longrightarrow>
    cstep api n nmi home s (read_event r (c_read s r) (c_mod s) q) (set_read s r q m)"

inductive ctrace :: "'a pmu_api \<Rightarrow> nat \<Rightarrow> bool \<Rightarrow> (nat \<Rightarrow> nat) \<Rightarrow> 'a conc \<Rightarrow> cevent list \<Rightarrow> 'a conc \<Rightarrow> bool"
  for api n nmi home where
  c_finished: "ctrace api n nmi home s [] s"
| c_step: "cstep api n nmi home s e s1 \<Longrightarrow> ctrace api n nmi home s1 es s' \<Longrightarrow> ctrace api n nmi home s (e # es) s'"

section \<open>Ownership while others run\<close>

fun h_holds :: "hphase \<Rightarrow> addr option" where
  "h_holds (Popped a pid) = Some a"
| "h_holds (Want_full a) = Some a"
| "h_holds (In_full a) = Some a"
| "h_holds (Start_want a) = Some a"
| "h_holds (Start_in a) = Some a"
| "h_holds _ = None"

fun r_holds :: "rphase \<Rightarrow> addr option" where
  "r_holds (R_copy a) = Some a"
| "r_holds (R_want_empty a) = Some a"
| "r_holds (R_in_empty a) = Some a"
| "r_holds _ = None"

definition holds_of :: "'a conc \<Rightarrow> nat + nat \<Rightarrow> addr option" where
  "holds_of s x = (case x of Inl c \<Rightarrow> h_holds (c_hand s c) | Inr r \<Rightarrow> r_holds (c_read s r))"

text \<open>
  A full buffer is on its way to the list, or on it already, while the processor's pointer still
  points to it: the pointer counts as empty from the moment the buffer is full. In the same way a
  restart takes the buffer away from its processor at once.
\<close>

fun eff_of :: "hphase \<Rightarrow> addr option \<Rightarrow> addr option" where
  "eff_of (Want_full a) x = None"
| "eff_of (In_full a) x = None"
| "eff_of Appended x = None"
| "eff_of (Start_want a) x = None"
| "eff_of (Start_in a) x = None"
| "eff_of Start_clear x = None"
| "eff_of _ x = x"

definition eff :: "'a conc \<Rightarrow> nat \<Rightarrow> addr option" where
  "eff s c = eff_of (c_hand s c) (lbuffer (c_mod s) c)"

definition view :: "'a conc \<Rightarrow> 'a kmod" where
  "view s = (c_mod s)\<lparr>lbuffer := eff s\<rparr>"

lemma view_simps [simp]:
  "k_heap (view s) = k_heap (c_mod s)" "lbuffer (view s) = eff s" "arch (view s) = arch (c_mod s)"
  "period (view s) = period (c_mod s)" "empty_buffers (view s) = empty_buffers (c_mod s)"
  "full_buffers (view s) = full_buffers (c_mod s)"
  by (simp_all add: view_def)

fun hand_ok :: "nat \<Rightarrow> hphase \<Rightarrow> 'a kmod \<Rightarrow> bool" where
  "hand_ok c Idle m = True"
| "hand_ok c (Want_empty pid) m = (lbuffer m c = None)"
| "hand_ok c (In_empty pid) m = (lbuffer m c = None)"
| "hand_ok c (Popped a pid) m = (lbuffer m c = None)"
| "hand_ok c (Ready a pid) m = (lbuffer m c = Some a)"
| "hand_ok c (Want_full a) m =
     (unat (b_num_samples (content (k_heap m) a)) = BUFFER_ENTRIES \<and> b_core (content (k_heap m) a) = of_nat c)"
| "hand_ok c (In_full a) m =
     (unat (b_num_samples (content (k_heap m) a)) = BUFFER_ENTRIES \<and> b_core (content (k_heap m) a) = of_nat c)"
| "hand_ok c Appended m = True"
| "hand_ok c (Start_want a) m = True"
| "hand_ok c (Start_in a) m = True"
| "hand_ok c Start_clear m = True"
| "hand_ok c Start_local m = True"

definition cinv :: "('a \<Rightarrow> bool) \<Rightarrow> nat \<Rightarrow> 'a conc \<Rightarrow> addr list \<Rightarrow> addr list \<Rightarrow> bool" where
  "cinv ok n s es fs \<longleftrightarrow>
     kmod_rep n (view s) es fs (ran (holds_of s)) \<and>
     (\<forall>x y a. holds_of s x = Some a \<and> holds_of s y = Some a \<longrightarrow> x = y) \<and>
     (\<forall>c. hand_ok c (c_hand s c) (c_mod s)) \<and> (\<forall>c. n \<le> c \<longrightarrow> c_hand s c = Idle) \<and>
     ok (arch (c_mod s)) \<and> n \<le> 2 ^ 32"

lemma holds_set [simp]:
  "holds_of (set_hand s c p m) = (holds_of s)(Inl c := h_holds p)"
  "holds_of (set_read s r q m) = (holds_of s)(Inr r := r_holds q)"
  by (auto simp: holds_of_def fun_eq_iff split: sum.split)

lemma eff_set:
  "lbuffer m = lbuffer (c_mod s) \<Longrightarrow> eff (set_hand s c p m) = (eff s)(c := eff_of p (lbuffer (c_mod s) c))"
  "lbuffer m = lbuffer (c_mod s) \<Longrightarrow> eff (set_read s r q m) = eff s"
  by (auto simp: eff_def fun_eq_iff)

section \<open>What the module holds\<close>

definition handed :: "'a conc \<Rightarrow> nat \<Rightarrow> sample list" where
  "handed s c = (case c_hand s c of Want_full a \<Rightarrow> filled (content (k_heap (c_mod s)) a)
     | In_full a \<Rightarrow> filled (content (k_heap (c_mod s)) a) | _ \<Rightarrow> [])"

definition c_total :: "'a conc \<Rightarrow> addr list \<Rightarrow> nat \<Rightarrow> sample list" where
  "c_total s fs c = in_module (view s) fs c @ handed s c"

definition in_hand :: "'a conc \<Rightarrow> nat \<Rightarrow> buffer list" where
  "in_hand s r = (case c_read s r of R_copy a \<Rightarrow> [content (k_heap (c_mod s)) a] | _ \<Rightarrow> [])"

definition c_sampled_on :: "nat \<Rightarrow> cevent list \<Rightarrow> sample list" where
  "c_sampled_on c evs = concat (map (\<lambda>e. case e of C_sampled d x \<Rightarrow> if d = c then [x] else [] | _ \<Rightarrow> []) evs)"

definition popped_of :: "nat \<Rightarrow> cevent list \<Rightarrow> sample list" where
  "popped_of c evs = concat (map (\<lambda>e. case e of C_popped r b \<Rightarrow> part_of c b | _ \<Rightarrow> []) evs)"

definition popped_by :: "nat \<Rightarrow> cevent list \<Rightarrow> buffer list" where
  "popped_by r evs = concat (map (\<lambda>e. case e of C_popped q b \<Rightarrow> if q = r then [b] else [] | _ \<Rightarrow> []) evs)"

definition copied_by :: "nat \<Rightarrow> cevent list \<Rightarrow> buffer list" where
  "copied_by r evs = concat (map (\<lambda>e. case e of C_copied q b \<Rightarrow> if q = r then [b] else [] | _ \<Rightarrow> []) evs)"

lemmas c_history = c_sampled_on_def popped_of_def popped_by_def copied_by_def

section \<open>The abstract module\<close>

text \<open>
  What the module promises, without buffers and lists: for each processor a queue of samples. A
  sample is put at its end; a reader takes a part from its front; a restart of the processor throws
  away what does not fill a whole buffer. \<open>None\<close>: the event is not possible.
\<close>

fun spec_step :: "nat \<Rightarrow> cevent \<Rightarrow> sample list \<Rightarrow> sample list option" where
  "spec_step c (C_sampled d x) q = Some (if d = c then q @ [x] else q)"
| "spec_step c (C_popped r b) q =
     (if take (length (part_of c b)) q = part_of c b then Some (drop (length (part_of c b)) q) else None)"
| "spec_step c (C_restarted d) q = Some (if d = c then whole q else q)"
| "spec_step c _ q = Some q"

fun spec_run :: "nat \<Rightarrow> cevent list \<Rightarrow> sample list \<Rightarrow> sample list option" where
  "spec_run c [] q = Some q"
| "spec_run c (e # es) q = (case spec_step c e q of None \<Rightarrow> None | Some q \<Rightarrow> spec_run c es q)"

lemma spec_popped: "spec_step c (C_popped r b) (part_of c b @ q) = Some q"
  by simp

lemma spec_run_append: "spec_run c (xs @ ys) q = (case spec_run c xs q of None \<Rightarrow> None | Some q \<Rightarrow> spec_run c ys q)"
  by (induction xs arbitrary: q) (auto split: option.split)

text \<open>Without a restart the samples taken from the queue and those left are those put in, in order.\<close>

lemma spec_step_equation:
  "spec_step c e q = Some q' \<Longrightarrow> \<forall>d. e \<noteq> C_restarted d \<Longrightarrow> popped_of c [e] @ q' = q @ c_sampled_on c [e]"
  by (cases e) (auto simp: c_history split: if_splits, metis append_take_drop_id)

lemma spec_run_equation:
  "spec_run c es q = Some q' \<Longrightarrow> \<forall>d. C_restarted d \<notin> set es \<Longrightarrow> popped_of c es @ q' = q @ c_sampled_on c es"
proof (induction es arbitrary: q)
  case Nil
  then show ?case by (simp add: c_history)
next
  case (Cons e es)
  then obtain q1 where 1: "spec_step c e q = Some q1" "spec_run c es q1 = Some q'" by (auto split: option.splits)
  have "popped_of c [e] @ q1 = q @ c_sampled_on c [e]" using spec_step_equation[OF 1(1)] Cons.prems(2) by auto
  moreover have "popped_of c es @ q' = q1 @ c_sampled_on c es" using Cons.IH[OF 1(2)] Cons.prems(2) by simp
  ultimately have "(popped_of c [e] @ popped_of c es) @ q' = q @ (c_sampled_on c [e] @ c_sampled_on c es)" by (metis append.assoc)
  then show ?case by (simp add: c_history)
qed

text \<open>
  What a step or a run does: the module's samples follow the abstract queues, and every reader
  copies exactly the buffers it popped, unchanged since.
\<close>

definition advances :: "nat \<Rightarrow> 'a conc \<Rightarrow> addr list \<Rightarrow> cevent list \<Rightarrow> 'a conc \<Rightarrow> addr list \<Rightarrow> bool" where
  "advances n s fs evs s' fs' \<longleftrightarrow>
     (\<forall>c < n. spec_run c evs (c_total s fs c) = Some (c_total s' fs' c)) \<and>
     (\<forall>r. copied_by r evs @ in_hand s' r = in_hand s r @ popped_by r evs) \<and>
     (\<forall>r b. C_popped r b \<in> set evs \<longrightarrow> full_buffer n b)"

end
