(* ===== verification/Kernel_Interleaving.thy ===== *)
theory Kernel_Interleaving
  imports Kernel_Concurrent
begin

text \<open>
  Every interleaving keeps the ownership of the buffers and the account of the samples; with
  interrupts off inside the critical sections it never gets stuck.
\<close>

section \<open>Frames\<close>

lemma cinvD:
  assumes "cinv ok n s es fs"
  shows "kmod_rep n (view s) es fs (ran (holds_of s))" "hand_ok c (c_hand s c) (c_mod s)" "ok (arch (c_mod s))" "n \<le> 2 ^ 32"
    "c_hand s c \<noteq> Idle \<Longrightarrow> c < n" "holds_of s x = Some a \<Longrightarrow> holds_of s y = Some a \<Longrightarrow> x = y"
  using assms unfolding cinv_def by (auto simp: not_le[symmetric])

lemma holds_live:
  assumes "cinv ok n s es fs" and "holds_of s x = Some a"
  shows "\<exists>b. k_heap (c_mod s) a = Some b" "a \<notin> set es" "a \<notin> set fs" "a \<notin> ran (eff s)"
proof -
  have r: "kmod_rep n (view s) es fs (ran (holds_of s))" and a: "a \<in> ran (holds_of s)"
    using assms by (auto simp: cinv_def ran_def)
  then show "a \<notin> set es" "a \<notin> set fs" "a \<notin> ran (eff s)" by (auto simp: kmod_rep_def owned_def)
  show "\<exists>b. k_heap (c_mod s) a = Some b" using kmod_rep_live[OF r, of a] a by auto
qed

lemma hand_ok_cong:
  "lbuffer m' d = lbuffer m d \<Longrightarrow> (\<And>a. h_holds p = Some a \<Longrightarrow> content (k_heap m') a = content (k_heap m) a) \<Longrightarrow>
   hand_ok d p m' = hand_ok d p m"
  by (cases p) auto

lemma ran_holds_upd:
  assumes "cinv ok n s es fs" and "holds_of s x = Some a"
  shows "ran ((holds_of s)(x := None)) = ran (holds_of s) - {a}"
  by (rule ran_upd_None) (use assms cinvD(6)[OF assms(1)] in auto)

text \<open>A step of a handler, or of a reader, that leaves what the others hold as it is.\<close>

lemma hand_step:
  assumes inv: "cinv ok n s es fs" and c: "c < n"
    and lb: "\<And>d. d \<noteq> c \<Longrightarrow> lbuffer m d = lbuffer (c_mod s) d"
    and cont: "\<And>y b. y \<noteq> Inl c \<Longrightarrow> holds_of s y = Some b \<Longrightarrow> content (k_heap m) b = content (k_heap (c_mod s)) b"
    and rep: "kmod_rep n (m\<lparr>lbuffer := (eff s)(c := eff_of p (lbuffer m c))\<rparr>) es' fs' (ran ((holds_of s)(Inl c := h_holds p)))"
    and new: "\<And>y b. y \<noteq> Inl c \<Longrightarrow> h_holds p = Some b \<Longrightarrow> holds_of s y \<noteq> Some b"
    and hand: "hand_ok c p m" and ok: "ok (arch m)"
    and e: "e = C_other \<or> e = C_missed c \<or> e = C_restarted c \<or> (\<exists>x. e = C_sampled c x)"
    and others: "\<And>d. d < n \<Longrightarrow> d \<noteq> c \<Longrightarrow>
      in_module (m\<lparr>lbuffer := (eff s)(c := eff_of p (lbuffer m c))\<rparr>) fs' d = in_module (view s) fs d"
    and own: "spec_step c e (c_total s fs c) =
      Some (in_module (m\<lparr>lbuffer := (eff s)(c := eff_of p (lbuffer m c))\<rparr>) fs' c @ handed (set_hand s c p m) c)"
  shows "cinv ok n (set_hand s c p m) es' fs' \<and> advances n s fs [e] (set_hand s c p m) fs'"
proof -
  let ?s = "set_hand s c p m"
  have eff: "eff ?s = (eff s)(c := eff_of p (lbuffer m c))" using lb by (auto simp: eff_def fun_eq_iff)
  then have view: "view ?s = m\<lparr>lbuffer := (eff s)(c := eff_of p (lbuffer m c))\<rparr>" by (simp add: view_def)
  have inj: "x = y" if "holds_of ?s x = Some a" "holds_of ?s y = Some a" for x y a
    using that new cinvD(6)[OF inv] by (auto split: if_splits)
  have "hand_ok d (c_hand ?s d) m" for d
  proof (cases "d = c")
    case True
    with hand show ?thesis by simp
  next
    case False
    have "hand_ok d (c_hand s d) m = hand_ok d (c_hand s d) (c_mod s)"
      by (rule hand_ok_cong[OF lb[OF False]]) (use cont[of "Inl d"] False in \<open>simp add: holds_of_def\<close>)
    with False cinvD(2)[OF inv, of d] show ?thesis by simp
  qed
  moreover have "n \<le> d \<longrightarrow> c_hand ?s d = Idle" for d using c inv by (auto simp: cinv_def)
  ultimately have 1: "cinv ok n ?s es' fs'"
    using inj rep ok cinvD(4)[OF inv] unfolding cinv_def view holds_set by (simp del: fun_upd_apply)
  have handed: "handed ?s d = handed s d" if "d \<noteq> c" for d
    using that cont[of "Inl d"] by (auto simp: handed_def holds_of_def split: hphase.split)
  have hand: "in_hand ?s r = in_hand s r" for r
    using cont[of "Inr r"] by (auto simp: in_hand_def holds_of_def split: rphase.split)
  have "spec_run d [e] (c_total s fs d) = Some (c_total ?s fs' d)" if "d < n" for d
  proof (cases "d = c")
    case True
    with own show ?thesis by (simp add: c_total_def view)
  next
    case False
    with others[OF that] handed e show ?thesis by (auto simp: c_total_def view)
  qed
  moreover have "copied_by r [e] @ in_hand ?s r = in_hand s r @ popped_by r [e]" for r
    using e hand by (auto simp: c_history)
  ultimately have "advances n s fs [e] ?s fs'" using e by (auto simp: advances_def)
  with 1 show ?thesis by blast
qed

lemma read_step:
  assumes inv: "cinv ok n s es fs" and lb: "lbuffer m = lbuffer (c_mod s)"
    and cont: "content (k_heap m) = content (k_heap (c_mod s))"
    and rep: "kmod_rep n (m\<lparr>lbuffer := eff s\<rparr>) es' fs' (ran ((holds_of s)(Inr r := r_holds q)))"
    and new: "\<And>y b. y \<noteq> Inr r \<Longrightarrow> r_holds q = Some b \<Longrightarrow> holds_of s y \<noteq> Some b"
    and ok: "ok (arch m)"
    and e: "e = C_other \<or> (\<exists>b. e = C_popped r b \<and> full_buffer n b) \<or> (\<exists>b. e = C_copied r b)"
    and all: "\<And>c. c < n \<Longrightarrow> popped_of c [e] @ in_module (m\<lparr>lbuffer := eff s\<rparr>) fs' c = in_module (view s) fs c"
    and own: "copied_by r [e] @ in_hand (set_read s r q m) r = in_hand s r @ popped_by r [e]"
  shows "cinv ok n (set_read s r q m) es' fs' \<and> advances n s fs [e] (set_read s r q m) fs'"
proof -
  let ?s = "set_read s r q m"
  have view: "view ?s = m\<lparr>lbuffer := eff s\<rparr>" using lb eff_set(2)[of m s r q] by (simp add: view_def)
  have inj: "x = y" if "holds_of ?s x = Some a" "holds_of ?s y = Some a" for x y a
    using that new cinvD(6)[OF inv] by (auto split: if_splits)
  have "hand_ok d (c_hand s d) m" for d
    using cinvD(2)[OF inv, of d] hand_ok_cong[of m d "c_mod s" "c_hand s d"] lb cont by simp
  then have 1: "cinv ok n ?s es' fs'"
    using inj rep ok inv unfolding cinv_def view holds_set by (simp del: fun_upd_apply)
  have handed: "handed ?s d = handed s d" for d by (simp add: handed_def cont split: hphase.split)
  have "spec_run d [e] (c_total s fs d) = Some (c_total ?s fs' d)" if "d < n" for d
  proof -
    have "c_total s fs d = popped_of d [e] @ c_total ?s fs' d" using all[OF that] handed by (simp add: c_total_def view)
    with e show ?thesis by (auto simp: c_history)
  qed
  moreover have "copied_by d [e] @ in_hand ?s d = in_hand s d @ popped_by d [e]" for d
  proof (cases "d = r")
    case True
    with own show ?thesis by simp
  next
    case False
    then have "in_hand ?s d = in_hand s d" by (simp add: in_hand_def cont split: rphase.split)
    with e False show ?thesis by (auto simp: c_history)
  qed
  ultimately have "advances n s fs [e] ?s fs'" using e by (auto simp: advances_def)
  with 1 show ?thesis by blast
qed

section \<open>The operations on a view\<close>

lemma lbuffer_commute:
  "append_full b (m\<lparr>lbuffer := f\<rparr>) = fault_bind (append_full b m) (\<lambda>m. Inr (m\<lparr>lbuffer := f\<rparr>))"
  "append_empty b (m\<lparr>lbuffer := f\<rparr>) = fault_bind (append_empty b m) (\<lambda>m. Inr (m\<lparr>lbuffer := f\<rparr>))"
  "pop_full (m\<lparr>lbuffer := f\<rparr>) = fault_bind (pop_full m) (\<lambda>(r, m). Inr (r, m\<lparr>lbuffer := f\<rparr>))"
  "pop_empty (m\<lparr>lbuffer := f\<rparr>) = fault_bind (pop_empty m) (\<lambda>(r, m). Inr (r, m\<lparr>lbuffer := f\<rparr>))"
  by (rule append_full_lbuffer, rule append_empty_lbuffer)
    (cases "pop_blist (Some (full_buffers m)) (k_heap m)", auto simp: pop_full_def,
     cases "pop_blist (Some (empty_buffers m)) (k_heap m)", auto simp: pop_empty_def)

text \<open>What an operation does to the view, it does to the module, whose pointers it leaves alone.\<close>

lemma moved_view:
  assumes "moved (view s) mv" and "mv = m\<lparr>lbuffer := eff s\<rparr>" and "lbuffer m = lbuffer (c_mod s)"
  shows "content (k_heap m) = content (k_heap (c_mod s))" "arch m = arch (c_mod s)" "m\<lparr>lbuffer := eff s\<rparr> = mv"
    "in_module (m\<lparr>lbuffer := eff s\<rparr>) fs c = in_module (view s) fs c"
  using moved_fields[OF assms(1)] in_module_moved[OF assms(1)] assms(2,3) by auto

lemma pop_view:
  assumes "op \<in> {pop_empty, pop_full}" and "op (view s) = Inr (r, mv)"
  obtains m where "op (c_mod s) = Inr (r, m)" "mv = m\<lparr>lbuffer := eff s\<rparr>" "lbuffer m = lbuffer (c_mod s)"
proof -
  obtain m where m: "op (c_mod s) = Inr (r, m)" "mv = m\<lparr>lbuffer := eff s\<rparr>"
    using assms unfolding view_def by (auto simp: lbuffer_commute elim!: fault_bind_InrE)
  have "lbuffer m = lbuffer (c_mod s)"
    using assms(1) m(1) by (auto simp: pop_full_def pop_empty_def elim!: fault_bind_InrE)
  with m show ?thesis by (rule that)
qed

lemma append_view:
  assumes "op \<in> {append_empty b, append_full b}" and "op (view s) = Inr mv"
  obtains m where "op (c_mod s) = Inr m" "mv = m\<lparr>lbuffer := eff s\<rparr>" "lbuffer m = lbuffer (c_mod s)"
proof -
  obtain m where m: "op (c_mod s) = Inr m" "mv = m\<lparr>lbuffer := eff s\<rparr>"
    using assms unfolding view_def by (auto simp: lbuffer_commute elim!: fault_bind_InrE)
  have "lbuffer m = lbuffer (c_mod s)"
    using assms(1) m(1) by (auto simp: append_full_def append_empty_def elim!: fault_bind_InrE)
  with m show ?thesis by (rule that)
qed

section \<open>The steps of a reader\<close>

lemma reader_ok:
  assumes inv: "cinv ok n s es fs" and q: "c_read s r \<noteq> R_idle"
  shows "\<exists>q m es' fs'. read_next (c_read s r) (c_mod s) = Inr (q, m) \<and> cinv ok n (set_read s r q m) es' fs' \<and>
     advances n s fs [read_event r (c_read s r) (c_mod s) q] (set_read s r q m) fs'"
proof -
  note rep = cinvD(1)[OF inv] and ok = cinvD(3)[OF inv]
  have quiet: "cinv ok n (set_read s r q (c_mod s)) es fs \<and> advances n s fs [e] (set_read s r q (c_mod s)) fs"
    if h: "r_holds q = r_holds (c_read s r)" "e = C_other \<or> (\<exists>b. e = C_copied r b)"
      "copied_by r [e] @ in_hand (set_read s r q (c_mod s)) r = in_hand s r @ popped_by r [e]" for q e
  proof (rule read_step[OF inv refl refl _ _ ok _ _ h(3)])
    have "(holds_of s)(Inr r := r_holds q) = holds_of s" using h(1) by (simp add: holds_of_def fun_upd_idem)
    with rep show "kmod_rep n ((c_mod s)\<lparr>lbuffer := eff s\<rparr>) es fs (ran ((holds_of s)(Inr r := r_holds q)))"
      by (simp add: view_def)
    show "holds_of s y \<noteq> Some b" if "y \<noteq> Inr r" "r_holds q = Some b" for y b
      using that h(1) cinvD(6)[OF inv, of "Inr r" b y] by (auto simp: holds_of_def)
    show "e = C_other \<or> (\<exists>b. e = C_popped r b \<and> full_buffer n b) \<or> (\<exists>b. e = C_copied r b)" using h(2) by blast
    show "popped_of c [e] @ in_module ((c_mod s)\<lparr>lbuffer := eff s\<rparr>) fs c = in_module (view s) fs c" for c
      using h(2) by (auto simp: view_def c_history)
  qed
  show ?thesis
  proof (cases "c_read s r")
    case R_idle
    with q show ?thesis by simp
  next
    case R_want_full
    with quiet[of R_in_full C_other] show ?thesis
      by (intro exI[of _ R_in_full] exI[of _ "c_mod s"]) (auto simp: read_event_def in_hand_def c_history)
  next
    case (R_want_empty a)
    with quiet[of "R_in_empty a" C_other] show ?thesis
      by (intro exI[of _ "R_in_empty a"] exI[of _ "c_mod s"]) (auto simp: read_event_def in_hand_def c_history)
  next
    case (R_copy a)
    then obtain b where b: "k_heap (c_mod s) a = Some b" using holds_live(1)[OF inv, of "Inr r" a] by (auto simp: holds_of_def)
    with R_copy quiet[of "R_want_empty a" "C_copied r (content (k_heap (c_mod s)) a)"] show ?thesis
      by (intro exI[of _ "R_want_empty a"] exI[of _ "c_mod s"]) (auto simp: read_event_def in_hand_def c_history)
  next
    case (R_in_empty a)
    then have h: "holds_of s (Inr r) = Some a" by (simp add: holds_of_def)
    then have L: "ran (holds_of s) = insert a (ran ((holds_of s)(Inr r := None)))" "a \<notin> ran ((holds_of s)(Inr r := None))"
      using ran_holds_upd[OF inv h] by (auto simp: ran_def)
    obtain mv where 1: "append_empty (Some a) (view s) = Inr mv"
      "kmod_rep n mv (es @ [a]) fs (ran ((holds_of s)(Inr r := None)))" "moved (view s) mv"
      using append_empty_ok[OF rep[unfolded L(1)] L(2)] by blast
    obtain m where m: "append_empty (Some a) (c_mod s) = Inr m" "mv = m\<lparr>lbuffer := eff s\<rparr>" "lbuffer m = lbuffer (c_mod s)"
      using append_view[of "append_empty (Some a)", OF _ 1(1)] by blast
    note mv = moved_view[OF 1(3) m(2,3)]
    have "cinv ok n (set_read s r R_idle m) (es @ [a]) fs \<and> advances n s fs [C_other] (set_read s r R_idle m) fs"
      by (rule read_step[OF inv m(3) mv(1)]) (use 1(2) mv ok R_in_empty in \<open>simp_all add: in_hand_def c_history\<close>)
    with R_in_empty m(1) show ?thesis
      by (intro exI[of _ R_idle] exI[of _ m]) (auto simp: read_event_def)
  next
    case R_in_full
    then have h: "holds_of s (Inr r) = None" by (simp add: holds_of_def)
    show ?thesis
    proof (cases fs)
      case Nil
      then have "pop_full (view s) = Inr (None, view s)" using pop_nothing(2)[of n "view s" es] rep by simp
      then obtain m where m: "pop_full (c_mod s) = Inr (None, m)" "view s = m\<lparr>lbuffer := eff s\<rparr>" "lbuffer m = lbuffer (c_mod s)"
        using pop_view[of pop_full] by blast
      have "m = view s\<lparr>lbuffer := lbuffer (c_mod s)\<rparr>" using m(2,3) by simp
      then have "m = c_mod s" by (simp add: view_def)
      with m(1) R_in_full quiet[of R_idle C_other] show ?thesis
        by (intro exI[of _ R_idle] exI[of _ "c_mod s"]) (auto simp: read_event_def in_hand_def c_history)
    next
      case (Cons a gs)
      obtain mv where 1: "pop_full (view s) = Inr (Some a, mv)" "kmod_rep n mv es gs (insert a (ran (holds_of s)))"
        "a \<notin> ran (holds_of s)" "moved (view s) mv"
        using pop_full_ok[OF rep[unfolded Cons]] by blast
      obtain m where m: "pop_full (c_mod s) = Inr (Some a, m)" "mv = m\<lparr>lbuffer := eff s\<rparr>" "lbuffer m = lbuffer (c_mod s)"
        using pop_view[of pop_full, OF _ 1(1)] by blast
      note mv = moved_view[OF 1(4) m(2,3)]
      have full: "full_buffer n (content (k_heap (c_mod s)) a)"
        using rep Cons unfolding kmod_rep_def contents_ok_def full_buffer_def by (auto simp: dom_def)
      have "cinv ok n (set_read s r (R_copy a) m) es gs \<and>
          advances n s fs [C_popped r (content (k_heap (c_mod s)) a)] (set_read s r (R_copy a) m) gs"
      proof (rule read_step[OF inv m(3) mv(1)])
        show "kmod_rep n (m\<lparr>lbuffer := eff s\<rparr>) es gs (ran ((holds_of s)(Inr r := r_holds (R_copy a))))"
          using 1(2) mv(3) h by simp
        show "holds_of s y \<noteq> Some b" if "y \<noteq> Inr r" "r_holds (R_copy a) = Some b" for y b
          using that 1(3) by (auto simp: ran_def)
        show "popped_of c [C_popped r (content (k_heap (c_mod s)) a)] @ in_module (m\<lparr>lbuffer := eff s\<rparr>) gs c =
            in_module (view s) fs c" for c
          unfolding mv(4) Cons by (simp add: c_history in_module_def)
      qed (use full mv ok R_in_full in \<open>simp_all add: in_hand_def c_history\<close>)
      with R_in_full m(1) show ?thesis
        by (intro exI[of _ "R_copy a"] exI[of _ m]) (auto simp: read_event_def)
    qed
  qed
qed

section \<open>The steps of a handler\<close>

lemma write_sample_ok:
  assumes arch: "pmu_arch api ok running" and b: "k_heap m a = Some b" "wf_buffer b" "unat (b_num_samples b) < BUFFER_ENTRIES"
    and hw: "ok (arch m)" and x: "x = sample_now api c pid (period m) (arch m) (s_counters (slot_at m a))"
  shows "\<exists>hw'. write_sample api c pid a m = Inr (unat (b_num_samples (put_sample b x)) \<ge> BUFFER_ENTRIES,
      m\<lparr>k_heap := (k_heap m)(a \<mapsto> put_sample b x), arch := hw'\<rparr>) \<and> ok hw'"
proof -
  let ?old = "b_samples b ! unat (b_num_samples b)"
  let ?slot = "?old\<lparr>s_cycles := read_ccnt api c (arch m) + period m, s_pid := pid\<rparr>"
  have slot: "slot_at m a = ?old" using content_Some[of "k_heap m" a b, OF b(1)] by (simp add: slot_at_def)
  have nth: "unat (b_num_samples b) < length (b_samples b)" using b by (simp add: wf_buffer_def)
  then have len: "length (s_counters ?slot) = 6" using b(2) by (simp add: wf_buffer_def wf_sample_def)
  obtain hw' where "fault_fold (read_counter api c) [0..<num_ctrs api (arch m)] (?slot, arch m) = Inr (x, hw')" "ok hw'"
    using pmu_arch.read_counters_ok[OF arch hw len pmu_arch.few[OF arch hw], of c] by (auto simp: x sample_now_def slot)
  with b(1) nth show ?thesis by (intro exI[of _ hw']) (simp add: write_sample_def put_sample_def Let_def)
qed

definition hand_moves :: "'a pmu_api \<Rightarrow> ('a \<Rightarrow> bool) \<Rightarrow> nat \<Rightarrow> 'a conc \<Rightarrow> addr list \<Rightarrow> nat \<Rightarrow> bool" where
  "hand_moves api ok n s fs c \<longleftrightarrow>
     (\<exists>p m es' fs'. hand_next api c (c_hand s c) (c_mod s) = Inr (p, m) \<and> cinv ok n (set_hand s c p m) es' fs' \<and>
        advances n s fs [hand_event api c (c_hand s c) (c_mod s) p] (set_hand s c p m) fs')"

lemma hand_movesI:
  "hand_next api c (c_hand s c) (c_mod s) = Inr (p, m) \<Longrightarrow> hand_event api c (c_hand s c) (c_mod s) p = e \<Longrightarrow>
   cinv ok n (set_hand s c p m) es' fs' \<and> advances n s fs [e] (set_hand s c p m) fs' \<Longrightarrow> hand_moves api ok n s fs c"
  unfolding hand_moves_def by blast

text \<open>A step that changes nothing but the phase and, perhaps, counters of the module.\<close>

lemma hand_quiet:
  assumes inv: "cinv ok n s es fs" and c: "c < n"
    and m: "k_heap m = k_heap (c_mod s)" "empty_buffers m = empty_buffers (c_mod s)" "full_buffers m = full_buffers (c_mod s)"
      "ok (arch m)" "\<And>d. d \<noteq> c \<Longrightarrow> lbuffer m d = lbuffer (c_mod s) d"
    and h: "h_holds p = h_holds (c_hand s c)" "eff_of p (lbuffer m c) = eff s c" "hand_ok c p m"
      "handed (set_hand s c p m) c = handed s c" and e: "e = C_other \<or> e = C_missed c"
  shows "cinv ok n (set_hand s c p m) es fs \<and> advances n s fs [e] (set_hand s c p m) fs"
proof (rule hand_step[OF inv c m(5) _ _ _ h(3)])
  let ?v = "m\<lparr>lbuffer := (eff s)(c := eff_of p (lbuffer m c))\<rparr>"
  have lb: "(eff s)(c := eff_of p (lbuffer m c)) = eff s" using h(2) by (simp add: fun_upd_idem)
  have v: "kmod_rep n ?v es fs L = kmod_rep n (view s) es fs L" "in_module ?v fs d = in_module (view s) fs d" for L d
    unfolding lb using m(1-3) by (simp_all add: kmod_rep_def in_module_def view_def)
  have "(holds_of s)(Inl c := h_holds p) = holds_of s" using h(1) by (simp add: holds_of_def fun_upd_idem)
  with v(1) cinvD(1)[OF inv] show "kmod_rep n ?v es fs (ran ((holds_of s)(Inl c := h_holds p)))" by simp
  show "holds_of s y \<noteq> Some b" if "y \<noteq> Inl c" "h_holds p = Some b" for y b
    using that h(1) cinvD(6)[OF inv, of "Inl c" b y] by (auto simp: holds_of_def)
  show "in_module ?v fs d = in_module (view s) fs d" for d by (rule v(2))
  show "spec_step c e (c_total s fs c) = Some (in_module ?v fs c @ handed (set_hand s c p m) c)"
    using e unfolding v(2) h(4) by (auto simp: c_total_def)
qed (use m e in auto)

lemma hand_pop:
  assumes inv: "cinv ok n s es fs" and p: "c_hand s c = In_empty pid"
  shows "hand_moves api ok n s fs c"
proof -
  note rep = cinvD(1)[OF inv] and ok = cinvD(3)[OF inv]
  have c: "c < n" using cinvD(5)[OF inv] p by simp
  have none: "lbuffer (c_mod s) c = None" using cinvD(2)[OF inv, of c] p by simp
  have h: "holds_of s (Inl c) = None" using p by (simp add: holds_of_def)
  show ?thesis
  proof (cases es)
    case Nil
    then have "pop_empty (view s) = Inr (None, view s)" using pop_nothing(1)[of n "view s" fs] rep by simp
    then obtain m where m: "pop_empty (c_mod s) = Inr (None, m)" "view s = m\<lparr>lbuffer := eff s\<rparr>" "lbuffer m = lbuffer (c_mod s)"
      using pop_view[of pop_empty] by blast
    have "m = view s\<lparr>lbuffer := lbuffer (c_mod s)\<rparr>" using m(2,3) by simp
    then have "m = c_mod s" by (simp add: view_def)
    with m(1) p have "hand_next api c (c_hand s c) (c_mod s) = Inr (Idle, (c_mod s)\<lparr>missed_attr := missed_attr (c_mod s) + 1\<rparr>)"
      by simp
    then show ?thesis
      by (rule hand_movesI[OF _ refl]) (rule hand_quiet[OF inv c], use p none ok in \<open>simp_all add: eff_def handed_def hand_event_def\<close>)
  next
    case (Cons a es1)
    obtain mv where 1: "pop_empty (view s) = Inr (Some a, mv)" "kmod_rep n mv es1 fs (insert a (ran (holds_of s)))"
      "a \<notin> ran (holds_of s)" "moved (view s) mv"
      using pop_empty_ok[OF rep[unfolded Cons]] by blast
    obtain m where m: "pop_empty (c_mod s) = Inr (Some a, m)" "mv = m\<lparr>lbuffer := eff s\<rparr>" "lbuffer m = lbuffer (c_mod s)"
      using pop_view[of pop_empty, OF _ 1(1)] by blast
    note mv = moved_view[OF 1(4) m(2,3)]
    have lb: "(eff s)(c := eff_of (Popped a pid) (lbuffer m c)) = eff s" using m(3) p by (simp add: fun_upd_idem eff_def)
    have "hand_next api c (c_hand s c) (c_mod s) = Inr (Popped a pid, m)" using m(1) p by simp
    then show ?thesis
    proof (rule hand_movesI[OF _ refl], intro hand_step[OF inv c])
      show "kmod_rep n (m\<lparr>lbuffer := (eff s)(c := eff_of (Popped a pid) (lbuffer m c))\<rparr>) es1 fs
          (ran ((holds_of s)(Inl c := h_holds (Popped a pid))))" unfolding lb mv(3) using 1(2) h by simp
      show "holds_of s y \<noteq> Some b" if "y \<noteq> Inl c" "h_holds (Popped a pid) = Some b" for y b
        using that 1(3) by (auto simp: ran_def)
      show "in_module (m\<lparr>lbuffer := (eff s)(c := eff_of (Popped a pid) (lbuffer m c))\<rparr>) fs d = in_module (view s) fs d" for d
        unfolding lb by (rule mv(4))
      then show "spec_step c (hand_event api c (c_hand s c) (c_mod s) (Popped a pid)) (c_total s fs c) =
          Some (in_module (m\<lparr>lbuffer := (eff s)(c := eff_of (Popped a pid) (lbuffer m c))\<rparr>) fs c @ handed (set_hand s c (Popped a pid) m) c)"
        using p by (simp add: c_total_def handed_def hand_event_def)
    qed (use m(3) mv none ok p in \<open>simp_all add: hand_event_def\<close>)
  qed
qed

lemma hand_init:
  assumes inv: "cinv ok n s es fs" and p: "c_hand s c = Popped a pid"
  shows "hand_moves api ok n s fs c"
proof -
  note rep = cinvD(1)[OF inv] and ok = cinvD(3)[OF inv]
  have c: "c < n" using cinvD(5)[OF inv] p by simp
  have none: "eff s c = None" using cinvD(2)[OF inv, of c] p by (simp add: eff_def)
  have h: "holds_of s (Inl c) = Some a" using p by (simp add: holds_of_def)
  note live = holds_live[OF inv h]
  let ?L = "ran ((holds_of s)(Inl c := None))"
  have L: "ran (holds_of s) = insert a ?L" "a \<notin> ?L" using ran_holds_upd[OF inv h] h by (auto simp: ran_def)
  obtain b where b: "k_heap (c_mod s) a = Some b" using live(1) by blast
  let ?b = "b\<lparr>b_core := of_nat c, b_num_samples := 0\<rparr>"
  let ?m = "(c_mod s)\<lparr>k_heap := (k_heap (c_mod s))(a \<mapsto> ?b), lbuffer := (lbuffer (c_mod s))(c := Some a)\<rparr>"
  let ?v = "(view s)\<lparr>k_heap := (k_heap (view s))(a \<mapsto> ?b)\<rparr>"
  have "wf_buffer b" using kmod_rep_wf[OF rep, of a b] b by simp
  then have r1: "kmod_rep n ?v es fs (insert a ?L)"
    using store_buffer[OF rep, of a ?b] L(1) by (simp add: wf_buffer_def)
  have "kmod_rep n (?v\<lparr>lbuffer := (lbuffer ?v)(c := Some a)\<rparr>) es fs ?L"
    by (rule acquire[OF r1 L(2)]) (use none c entries_word in \<open>simp_all add: content_upd\<close>)
  then have r2: "kmod_rep n (?m\<lparr>lbuffer := (eff s)(c := Some a)\<rparr>) es fs ?L"
    by (subst kmod_rep_cong[where m' = "?v\<lparr>lbuffer := (lbuffer ?v)(c := Some a)\<rparr>"]) simp_all
  have "in_module ?v fs d = in_module (view s) fs d" for d by (rule in_module_store) (use live in simp_all)
  moreover have "in_module (?m\<lparr>lbuffer := (eff s)(c := Some a)\<rparr>) fs d = in_module ?v fs d" for d
    using none by (simp add: in_module_def cur_def content_upd filled_def)
  ultimately have im: "in_module (?m\<lparr>lbuffer := (eff s)(c := Some a)\<rparr>) fs d = in_module (view s) fs d" for d by simp
  have "hand_next api c (c_hand s c) (c_mod s) = Inr (Ready a pid, ?m)" using p b by (simp add: initialize_buffer_def)
  then show ?thesis
  proof (rule hand_movesI[OF _ refl], intro hand_step[OF inv c])
    show "content (k_heap ?m) x = content (k_heap (c_mod s)) x" if "y \<noteq> Inl c" "holds_of s y = Some x" for y x
      using that cinvD(6)[OF inv h, of y] by (auto simp: content_upd)
    show "kmod_rep n (?m\<lparr>lbuffer := (eff s)(c := eff_of (Ready a pid) (lbuffer ?m c))\<rparr>) es fs (ran ((holds_of s)(Inl c := h_holds (Ready a pid))))"
      using r2 by simp
    show "in_module (?m\<lparr>lbuffer := (eff s)(c := eff_of (Ready a pid) (lbuffer ?m c))\<rparr>) fs d = in_module (view s) fs d" for d
      using im by simp
    then show "spec_step c (hand_event api c (c_hand s c) (c_mod s) (Ready a pid)) (c_total s fs c) =
        Some (in_module (?m\<lparr>lbuffer := (eff s)(c := eff_of (Ready a pid) (lbuffer ?m c))\<rparr>) fs c @ handed (set_hand s c (Ready a pid) ?m) c)"
      using p by (simp add: c_total_def handed_def hand_event_def)
  qed (use ok p in \<open>simp_all add: hand_event_def\<close>)
qed

lemma hand_append:
  assumes inv: "cinv ok n s es fs" and p: "c_hand s c = In_full a"
  shows "hand_moves api ok n s fs c"
proof -
  note rep = cinvD(1)[OF inv] and ok = cinvD(3)[OF inv] and n = cinvD(4)[OF inv]
  have c: "c < n" using cinvD(5)[OF inv] p by simp
  have none: "eff s c = None" using p by (simp add: eff_def)
  have full: "unat (b_num_samples (content (k_heap (c_mod s)) a)) = BUFFER_ENTRIES" "b_core (content (k_heap (c_mod s)) a) = of_nat c"
    using cinvD(2)[OF inv, of c] p by simp_all
  have h: "holds_of s (Inl c) = Some a" using p by (simp add: holds_of_def)
  let ?L = "ran ((holds_of s)(Inl c := None))"
  have L: "ran (holds_of s) = insert a ?L" "a \<notin> ?L" using ran_holds_upd[OF inv h] h by (auto simp: ran_def)
  obtain mv where 1: "append_full (Some a) (view s) = Inr mv" "kmod_rep n mv es (fs @ [a]) ?L" "moved (view s) mv"
    using append_full_ok[OF rep[unfolded L(1)] L(2)] full core_word[OF c n] c by auto
  obtain m where m: "append_full (Some a) (c_mod s) = Inr m" "mv = m\<lparr>lbuffer := eff s\<rparr>" "lbuffer m = lbuffer (c_mod s)"
    using append_view[of "append_full (Some a)", OF _ 1(1)] by blast
  note mv = moved_view[OF 1(3) m(2,3)]
  have lb: "(eff s)(c := eff_of Appended (lbuffer m c)) = eff s" using none by (simp add: fun_upd_idem)
  have im: "in_module (m\<lparr>lbuffer := eff s\<rparr>) (fs @ [a]) d = (if d = c then c_total s fs c else in_module (view s) fs d)" if "d < n" for d
  proof -
    have "in_module (m\<lparr>lbuffer := eff s\<rparr>) (fs @ [a]) d = in_module (view s) (fs @ [a]) d" by (rule mv(4))
    then show ?thesis
      using none full(2) core_word_inj[OF c that n] p
      by (auto simp: in_module_def part_of_def cur_def c_total_def handed_def)
  qed
  have "hand_next api c (c_hand s c) (c_mod s) = Inr (Appended, m)" using m(1) p by simp
  then show ?thesis
  proof (rule hand_movesI[OF _ refl], intro hand_step[OF inv c])
    show "kmod_rep n (m\<lparr>lbuffer := (eff s)(c := eff_of Appended (lbuffer m c))\<rparr>) es (fs @ [a]) (ran ((holds_of s)(Inl c := h_holds Appended)))"
      unfolding lb mv(3) using 1(2) by simp
    show "in_module (m\<lparr>lbuffer := (eff s)(c := eff_of Appended (lbuffer m c))\<rparr>) (fs @ [a]) d = in_module (view s) fs d"
      if "d < n" "d \<noteq> c" for d unfolding lb using im[OF that(1)] that(2) by simp
    show "spec_step c (hand_event api c (c_hand s c) (c_mod s) Appended) (c_total s fs c) =
        Some (in_module (m\<lparr>lbuffer := (eff s)(c := eff_of Appended (lbuffer m c))\<rparr>) (fs @ [a]) c @ handed (set_hand s c Appended m) c)"
      unfolding lb using im[OF c] p by (simp add: handed_def hand_event_def)
  qed (use m(3) mv ok p in \<open>simp_all add: hand_event_def\<close>)
qed

lemma hand_clear:
  assumes inv: "cinv ok n s es fs" and p: "c_hand s c = Appended"
  shows "hand_moves api ok n s fs c"
proof -
  have c: "c < n" using cinvD(5)[OF inv] p by simp
  have "hand_next api c (c_hand s c) (c_mod s) = Inr (Idle, wake_up_all ((c_mod s)\<lparr>lbuffer := (lbuffer (c_mod s))(c := None)\<rparr>))" using p by simp
  then show ?thesis
    by (rule hand_movesI[OF _ refl]) (rule hand_quiet[OF inv c], use p cinvD(3)[OF inv] in \<open>simp_all add: eff_def handed_def hand_event_def\<close>)
qed

lemma hand_sample:
  assumes arch: "pmu_arch api ok running" and inv: "cinv ok n s es fs" and p: "c_hand s c = Ready a pid"
  shows "hand_moves api ok n s fs c"
proof -
  note rep = cinvD(1)[OF inv] and ok = cinvD(3)[OF inv]
  have c: "c < n" using cinvD(5)[OF inv] p by simp
  have lb: "lbuffer (c_mod s) c = Some a" using cinvD(2)[OF inv, of c] p by simp
  then have e: "lbuffer (view s) c = Some a" using p by (simp add: eff_def)
  have h: "(holds_of s)(Inl c := None) = holds_of s" using p by (simp add: holds_of_def fun_upd_idem)
  note rel = release[OF rep e]
  have "a \<in> ran (lbuffer (view s))" using e by (auto simp: ran_def)
  then obtain b where b: "k_heap (view s) a = Some b" using kmod_rep_live[OF rep, of a] by auto
  note num = kmod_rep_current(1)[OF rep e b] and core = kmod_rep_current(2)[OF rep e b] and wf = kmod_rep_wf[OF rep b]
  define x where "x = sample_now api c pid (period (c_mod s)) (arch (c_mod s)) (s_counters (slot_at (c_mod s) a))"
  have wfx: "wf_sample x" by (simp add: x_def)
  let ?b = "put_sample b x"
  obtain hw' where w: "write_sample api c pid a (c_mod s) = Inr (unat (b_num_samples ?b) \<ge> BUFFER_ENTRIES,
      (c_mod s)\<lparr>k_heap := (k_heap (c_mod s))(a \<mapsto> ?b), arch := hw'\<rparr>)" "ok hw'"
    using write_sample_ok[OF arch _ wf num ok x_def] b by auto
  let ?m = "(c_mod s)\<lparr>k_heap := (k_heap (c_mod s))(a \<mapsto> ?b), arch := hw'\<rparr>"
  let ?v = "(view s)\<lparr>k_heap := (k_heap (view s))(a \<mapsto> ?b)\<rparr>"
  have r1: "kmod_rep n ((view s)\<lparr>lbuffer := (eff s)(c := None), k_heap := (k_heap (view s))(a \<mapsto> ?b)\<rparr>) es fs (insert a (ran (holds_of s)))"
    using store_buffer[OF rel(1), of a ?b] put_sample_wf[OF wf wfx] by simp
  have cont: "content (k_heap ?m) y = content (k_heap (c_mod s)) y" if "z \<noteq> Inl c" "holds_of s z = Some y" for z y
    using that rel(2) by (auto simp: content_upd ran_def)
  have ca: "content (k_heap ?m) a = ?b\<lparr>b_nextBuffer := None\<rparr>" by (simp add: content_upd)
  have put: "in_module ?v fs d = in_module (view s) fs d @ (if d = c then [x] else [])" for d
    by (rule in_module_put[OF rep e b num])
  have ev: "hand_event api c (c_hand s c) (c_mod s) q = C_sampled c x" for q using p by (simp add: hand_event_def x_def)
  have tot: "c_total s fs c = in_module (view s) fs c" using p by (simp add: c_total_def handed_def)
  show ?thesis
  proof (cases "unat (b_num_samples ?b) \<ge> BUFFER_ENTRIES")
    case True
    let ?w = "?m\<lparr>lbuffer := (eff s)(c := eff_of (Want_full a) (lbuffer ?m c))\<rparr>"
    have full: "unat (b_num_samples ?b) = BUFFER_ENTRIES" using True put_sample_num[OF num, of x] num by simp
    have r2: "kmod_rep n ?w es fs (insert a (ran (holds_of s)))"
      using r1 by (subst kmod_rep_cong[where m' = "(view s)\<lparr>lbuffer := (eff s)(c := None), k_heap := (k_heap (view s))(a \<mapsto> ?b)\<rparr>"]) simp_all
    have ran: "ran ((holds_of s)(Inl c := h_holds (Want_full a))) = insert a (ran (holds_of s))"
      using p by (simp add: holds_of_def ran_map_upd)
    have "hand_next api c (c_hand s c) (c_mod s) = Inr (Want_full a, ?m)" using w(1) True p by simp
    then show ?thesis
    proof (rule hand_movesI[OF _ ev], intro hand_step[OF inv c])
      show "kmod_rep n ?w es fs (ran ((holds_of s)(Inl c := h_holds (Want_full a))))" using r2 unfolding ran .
      show "holds_of s y \<noteq> Some z" if "y \<noteq> Inl c" "h_holds (Want_full a) = Some z" for y z
        using that rel(2) by (auto simp: ran_def)
      show "hand_ok c (Want_full a) ?m" using full core ca by (simp add: put_sample_def)
      show "in_module ?w fs d = in_module (view s) fs d" if "d < n" "d \<noteq> c" for d
        using put[of d] that(2) by (simp add: in_module_def cur_def)
      have "in_module (view s) fs c @ [x] = in_module ?w fs c @ filled (?b\<lparr>b_nextBuffer := None\<rparr>)"
        using put[of c] e by (simp add: in_module_def cur_def content_upd)
      then show "spec_step c (C_sampled c x) (c_total s fs c) = Some (in_module ?w fs c @ handed (set_hand s c (Want_full a) ?m) c)"
        using ca unfolding tot by (simp add: handed_def)
    qed (use cont w(2) in simp_all)
  next
    case False
    let ?w = "?m\<lparr>lbuffer := (eff s)(c := eff_of Idle (lbuffer ?m c))\<rparr>"
    let ?u = "(view s)\<lparr>lbuffer := (eff s)(c := None), k_heap := (k_heap (view s))(a \<mapsto> ?b)\<rparr>"
    have "kmod_rep n (?u\<lparr>lbuffer := (lbuffer ?u)(c := Some a)\<rparr>) es fs (ran (holds_of s))"
      by (rule acquire[OF r1 rel(2)]) (use False c core in \<open>simp_all add: content_upd put_sample_def\<close>)
    then have r2: "kmod_rep n ?w es fs (ran (holds_of s))"
      by (subst kmod_rep_cong[where m' = "?u\<lparr>lbuffer := (lbuffer ?u)(c := Some a)\<rparr>"]) (use lb in simp_all)
    have wv: "in_module ?w fs d = in_module ?v fs d" for d
      using e lb by (simp add: in_module_def fun_upd_idem)
    have "hand_next api c (c_hand s c) (c_mod s) = Inr (Idle, ?m)" using w(1) False p by simp
    then show ?thesis
    proof (rule hand_movesI[OF _ ev], intro hand_step[OF inv c])
      show "kmod_rep n ?w es fs (ran ((holds_of s)(Inl c := h_holds Idle)))" using r2 h by simp
      show "in_module ?w fs d = in_module (view s) fs d" if "d < n" "d \<noteq> c" for d using wv put that(2) by simp
      show "spec_step c (C_sampled c x) (c_total s fs c) = Some (in_module ?w fs c @ handed (set_hand s c Idle ?m) c)"
        unfolding wv put tot by (simp add: handed_def)
    qed (use cont w(2) in simp_all)
  qed
qed

text \<open>A restart: the buffer goes back to the empty ones, and its samples are lost.\<close>

lemma whole_total:
  assumes inv: "cinv ok n s es fs" and idle: "c_hand s c = Idle"
  shows "whole (c_total s fs c) = concat (map (\<lambda>a. part_of c (content (k_heap (c_mod s)) a)) fs)"
  using whole_in_module[OF cinvD(1)[OF inv], of c] idle by (simp add: c_total_def handed_def)

lemma restart_ok:
  assumes inv: "cinv ok n s es fs" and c: "c < n" and idle: "c_hand s c = Idle"
  shows "cinv ok n (set_hand s c (start_start c (c_mod s)) (c_mod s)) es fs \<and>
     advances n s fs [C_restarted c] (set_hand s c (start_start c (c_mod s)) (c_mod s)) fs"
proof (rule hand_step[OF inv c])
  let ?p = "start_start c (c_mod s)" and ?v = "(c_mod s)\<lparr>lbuffer := (eff s)(c := eff_of (start_start c (c_mod s)) (lbuffer (c_mod s) c))\<rparr>"
  note rep = cinvD(1)[OF inv]
  have e: "eff s c = lbuffer (c_mod s) c" and h: "holds_of s (Inl c) = None" using idle by (simp_all add: eff_def holds_of_def)
  have none: "eff_of ?p (lbuffer (c_mod s) c) = None" by (simp add: start_start_def split: option.split)
  show "kmod_rep n ?v es fs (ran ((holds_of s)(Inl c := h_holds ?p)))"
  proof (cases "lbuffer (c_mod s) c")
    case None
    then have "(eff s)(c := None) = eff s" "(holds_of s)(Inl c := None) = holds_of s" using e h by (simp_all add: fun_upd_idem)
    with rep None show ?thesis by (simp add: start_start_def view_def)
  next
    case (Some a)
    have "kmod_rep n ((view s)\<lparr>lbuffer := (lbuffer (view s))(c := None)\<rparr>) es fs (insert a (ran (holds_of s)))"
      by (rule release(1)[OF rep]) (use Some e in simp)
    with Some h show ?thesis by (simp add: start_start_def ran_map_upd view_def)
  qed
  show "holds_of s y \<noteq> Some b" if "y \<noteq> Inl c" "h_holds ?p = Some b" for y b
  proof -
    have "lbuffer (view s) c = Some b" using that(2) e by (auto simp: start_start_def split: option.splits)
    from release(2)[OF rep this] show ?thesis by (auto simp: ran_def)
  qed
  show "hand_ok c ?p (c_mod s)" by (simp add: start_start_def split: option.split)
  show "in_module ?v fs d = in_module (view s) fs d" if "d \<noteq> c" for d
    using that by (simp add: in_module_def cur_def)
  have "handed (set_hand s c ?p (c_mod s)) c = []" by (simp add: handed_def start_start_def split: option.split)
  then show "spec_step c (C_restarted c) (c_total s fs c) = Some (in_module ?v fs c @ handed (set_hand s c ?p (c_mod s)) c)"
    using none by (simp add: whole_total[OF inv idle] in_module_def cur_def)
qed (use cinvD(3)[OF inv] in simp_all)

lemma hand_give_back:
  assumes inv: "cinv ok n s es fs" and p: "c_hand s c = Start_in a"
  shows "hand_moves api ok n s fs c"
proof -
  note rep = cinvD(1)[OF inv] and ok = cinvD(3)[OF inv]
  have c: "c < n" using cinvD(5)[OF inv] p by simp
  have none: "eff s c = None" using p by (simp add: eff_def)
  have h: "holds_of s (Inl c) = Some a" using p by (simp add: holds_of_def)
  let ?L = "ran ((holds_of s)(Inl c := None))"
  have L: "ran (holds_of s) = insert a ?L" "a \<notin> ?L" using ran_holds_upd[OF inv h] h by (auto simp: ran_def)
  obtain mv where 1: "append_empty (Some a) (view s) = Inr mv" "kmod_rep n mv (es @ [a]) fs ?L" "moved (view s) mv"
    using append_empty_ok[OF rep[unfolded L(1)] L(2)] by blast
  obtain m where m: "append_empty (Some a) (c_mod s) = Inr m" "mv = m\<lparr>lbuffer := eff s\<rparr>" "lbuffer m = lbuffer (c_mod s)"
    using append_view[of "append_empty (Some a)", OF _ 1(1)] by blast
  note mv = moved_view[OF 1(3) m(2,3)]
  have lb: "(eff s)(c := eff_of Start_clear (lbuffer m c)) = eff s" using none by (simp add: fun_upd_idem)
  have "hand_next api c (c_hand s c) (c_mod s) = Inr (Start_clear, m)" using m(1) p by simp
  then show ?thesis
  proof (rule hand_movesI[OF _ refl], intro hand_step[OF inv c])
    show "kmod_rep n (m\<lparr>lbuffer := (eff s)(c := eff_of Start_clear (lbuffer m c))\<rparr>) (es @ [a]) fs (ran ((holds_of s)(Inl c := h_holds Start_clear)))"
      unfolding lb mv(3) using 1(2) by simp
    show "in_module (m\<lparr>lbuffer := (eff s)(c := eff_of Start_clear (lbuffer m c))\<rparr>) fs d = in_module (view s) fs d" for d
      unfolding lb by (rule mv(4))
    then show "spec_step c (hand_event api c (c_hand s c) (c_mod s) Start_clear) (c_total s fs c) =
        Some (in_module (m\<lparr>lbuffer := (eff s)(c := eff_of Start_clear (lbuffer m c))\<rparr>) fs c @ handed (set_hand s c Start_clear m) c)"
      using p by (simp add: c_total_def handed_def hand_event_def)
  qed (use m(3) mv ok p in \<open>simp_all add: hand_event_def\<close>)
qed

lemma hand_start_local:
  assumes arch: "pmu_arch api ok running" and inv: "cinv ok n s es fs" and p: "c_hand s c = Start_local"
  shows "hand_moves api ok n s fs c"
proof -
  have c: "c < n" using cinvD(5)[OF inv] p by simp
  have len: "length (cfgs (c_mod s)) = 6" by (simp add: cfgs_def)
  obtain hw where hw: "startCtrsLocal api c (cfgs (c_mod s)) (period (c_mod s)) (arch (c_mod s)) = Inr hw" "ok hw"
    using pmu_arch.start_ok[OF arch cinvD(3)[OF inv] len, of c "period (c_mod s)"] by blast
  have "hand_next api c (c_hand s c) (c_mod s) = Inr (Idle, (c_mod s)\<lparr>arch := hw\<rparr>)" using p hw(1) by simp
  then show ?thesis
    by (rule hand_movesI[OF _ refl]) (rule hand_quiet[OF inv c], use p hw(2) in \<open>simp_all add: eff_def handed_def hand_event_def\<close>)
qed

lemma hand_start_clear:
  assumes inv: "cinv ok n s es fs" and p: "c_hand s c = Start_clear"
  shows "hand_moves api ok n s fs c"
proof -
  have c: "c < n" using cinvD(5)[OF inv] p by simp
  have "hand_next api c (c_hand s c) (c_mod s) = Inr (Start_local, (c_mod s)\<lparr>lbuffer := (lbuffer (c_mod s))(c := None)\<rparr>)" using p by simp
  then show ?thesis
    by (rule hand_movesI[OF _ refl]) (rule hand_quiet[OF inv c], use p cinvD(3)[OF inv] in \<open>simp_all add: eff_def handed_def hand_event_def\<close>)
qed

lemma handler_ok:
  assumes "pmu_arch api ok running" and "cinv ok n s es fs" and "c_hand s c \<noteq> Idle"
  shows "hand_moves api ok n s fs c"
proof (cases "c_hand s c")
  case Idle
  with assms show ?thesis by simp
next
  case (Want_empty pid)
  have "hand_next api c (c_hand s c) (c_mod s) = Inr (In_empty pid, c_mod s)" using Want_empty by simp
  then show ?thesis
    by (rule hand_movesI[OF _ refl]) (rule hand_quiet[OF assms(2) cinvD(5)[OF assms(2,3)]],
      use Want_empty cinvD(2)[OF assms(2), of c] cinvD(3)[OF assms(2)] in \<open>simp_all add: eff_def handed_def hand_event_def\<close>)
next
  case (Want_full a)
  have "hand_next api c (c_hand s c) (c_mod s) = Inr (In_full a, c_mod s)" using Want_full by simp
  then show ?thesis
    by (rule hand_movesI[OF _ refl]) (rule hand_quiet[OF assms(2) cinvD(5)[OF assms(2,3)]],
      use Want_full cinvD(2)[OF assms(2), of c] cinvD(3)[OF assms(2)] in \<open>simp_all add: eff_def handed_def hand_event_def\<close>)
next
  case (Start_want a)
  have "hand_next api c (c_hand s c) (c_mod s) = Inr (Start_in a, c_mod s)" using Start_want by simp
  then show ?thesis
    by (rule hand_movesI[OF _ refl]) (rule hand_quiet[OF assms(2) cinvD(5)[OF assms(2,3)]],
      use Start_want cinvD(3)[OF assms(2)] in \<open>simp_all add: eff_def handed_def hand_event_def\<close>)
qed (use assms hand_pop hand_init hand_sample hand_append hand_clear hand_give_back hand_start_local hand_start_clear in metis)+

end
