(* ===== verification/Kernel_Progress.thy ===== *)
theory Kernel_Progress
  imports Kernel_Interleaving
begin

text \<open>
  Whole interleavings: the account of the samples over any number of steps, the exclusion of the
  critical sections, and whether the steps come to an end. With interrupts off inside the critical
  sections they always do; with non-maskable interrupts a processor may wait for itself.
\<close>

section \<open>Any interleaving\<close>

lemma cstep_ok:
  assumes arch: "pmu_arch api ok running" and inv: "cinv ok n s es fs" and step: "cstep api n nmi home s e s'"
  shows "\<exists>es' fs'. cinv ok n s' es' fs' \<and> advances n s fs [e] s' fs'"
  using step
proof cases
  case (interrupt c pid)
  have "cinv ok n (set_hand s c (gather_start c pid (c_mod s)) (c_mod s)) es fs \<and>
      advances n s fs [C_other] (set_hand s c (gather_start c pid (c_mod s)) (c_mod s)) fs"
    by (rule hand_quiet[OF inv interrupt(3)])
      (use interrupt(4) cinvD(3)[OF inv] in \<open>auto simp: gather_start_def eff_def handed_def split: option.split\<close>)
  with interrupt show ?thesis by blast
next
  case (restart c)
  with restart_ok[OF inv restart(3,4)] show ?thesis by blast
next
  case (handler c p m)
  then have "c_hand s c \<noteq> Idle" by (auto simp: can_hand_def)
  from handler_ok[OF arch inv this] handler show ?thesis by (auto simp: hand_moves_def)
next
  case (call r)
  have "cinv ok n (set_read s r R_want_full (c_mod s)) es fs \<and> advances n s fs [C_other] (set_read s r R_want_full (c_mod s)) fs"
  proof (rule read_step[OF inv refl refl _ _ cinvD(3)[OF inv]])
    have "(holds_of s)(Inr r := r_holds R_want_full) = holds_of s" using call(3) by (simp add: holds_of_def fun_upd_idem)
    with cinvD(1)[OF inv] show "kmod_rep n ((c_mod s)\<lparr>lbuffer := eff s\<rparr>) es fs (ran ((holds_of s)(Inr r := r_holds R_want_full)))"
      by (simp add: view_def)
  qed (use call(3) in \<open>simp_all add: view_def in_hand_def c_history\<close>)
  with call show ?thesis by blast
next
  case (reader r q m)
  then have "c_read s r \<noteq> R_idle" by (auto simp: can_read_def)
  from reader_ok[OF inv this] reader show ?thesis by auto
qed

lemma copies_append:
  "popped_by r (xs @ ys) = popped_by r xs @ popped_by r ys" "copied_by r (xs @ ys) = copied_by r xs @ copied_by r ys"
  by (simp_all add: c_history)

lemma advances_trans:
  assumes 1: "advances n s fs xs s1 fs1" and 2: "advances n s1 fs1 ys s2 fs2"
  shows "advances n s fs (xs @ ys) s2 fs2"
proof -
  have "spec_run c (xs @ ys) (c_total s fs c) = Some (c_total s2 fs2 c)" if "c < n" for c
    using 1 2 that by (simp add: advances_def spec_run_append)
  moreover have "copied_by r (xs @ ys) @ in_hand s2 r = in_hand s r @ popped_by r (xs @ ys)" for r
  proof -
    have "copied_by r xs @ (copied_by r ys @ in_hand s2 r) = (copied_by r xs @ in_hand s1 r) @ popped_by r ys"
      using 2 by (simp add: advances_def)
    with 1 show ?thesis by (simp add: advances_def copies_append)
  qed
  ultimately show ?thesis using 1 2 by (auto simp: advances_def)
qed

lemma advances_refl: "advances n s fs [] s fs"
  by (simp add: advances_def c_history)

lemma ctrace_ok:
  assumes arch: "pmu_arch api ok running" and "ctrace api n nmi home s evs s'" and "cinv ok n s es fs"
  shows "\<exists>es' fs'. cinv ok n s' es' fs' \<and> advances n s fs evs s' fs'"
  using assms(2,3)
proof (induction arbitrary: es fs)
  case (c_finished s)
  then show ?case using advances_refl by blast
next
  case (c_step s e s1 evs s')
  obtain es1 fs1 where 1: "cinv ok n s1 es1 fs1" "advances n s fs [e] s1 fs1"
    using cstep_ok[OF arch c_step.prems c_step.hyps(1)] by blast
  with c_step.IH[OF 1(1)] advances_trans[OF 1(2)] show ?case by (metis append_Cons append_Nil)
qed

text \<open>No piece faults in a state that keeps the invariant.\<close>

lemma never_faults:
  assumes "pmu_arch api ok running" and "cinv ok n s es fs"
  shows "no_fault (hand_next api c (c_hand s c) (c_mod s))" "no_fault (read_next (c_read s r) (c_mod s))"
proof -
  show "no_fault (hand_next api c (c_hand s c) (c_mod s))"
    using handler_ok[OF assms, of c] by (cases "c_hand s c = Idle") (auto simp: hand_moves_def)
  show "no_fault (read_next (c_read s r) (c_mod s))"
    using reader_ok[OF assms(2), of r] by (cases "c_read s r = R_idle") auto
qed

text \<open>A module nobody is working on.\<close>

definition at_rest :: "'a kmod \<Rightarrow> 'a conc" where
  "at_rest m = \<lparr>c_mod = m, c_hand = (\<lambda>_. Idle), c_read = (\<lambda>_. R_idle)\<rparr>"

lemma at_rest_simps [simp]: "c_mod (at_rest m) = m" "c_hand (at_rest m) c = Idle" "c_read (at_rest m) r = R_idle"
  by (simp_all add: at_rest_def)

lemma at_rest_view [simp]: "view (at_rest m) = m" "ran (holds_of (at_rest m)) = {}" "holds_of (at_rest m) x = None"
  "c_total (at_rest m) fs c = in_module m fs c" "in_hand (at_rest m) r = []"
proof -
  have "eff (at_rest m) = lbuffer m" by (simp add: eff_def fun_eq_iff)
  then show view: "view (at_rest m) = m" by (simp add: view_def)
  show holds: "holds_of (at_rest m) x = None" for x by (simp add: holds_of_def split: sum.split)
  then have "holds_of (at_rest m) = Map.empty" by blast
  then show "ran (holds_of (at_rest m)) = {}" by simp
  show "c_total (at_rest m) fs c = in_module m fs c" by (simp add: c_total_def handed_def view)
  show "in_hand (at_rest m) r = []" by (simp add: in_hand_def)
qed

lemma cinv_at_rest: "kmod_rep n m es fs {} \<Longrightarrow> ok (arch m) \<Longrightarrow> n \<le> 2 ^ 32 \<Longrightarrow> cinv ok n (at_rest m) es fs"
  by (simp add: cinv_def)

section \<open>Exclusion\<close>

definition exclusive :: "'a conc \<Rightarrow> bool" where
  "exclusive s \<longleftrightarrow> (\<forall>x y l. lock_of s x = Some l \<and> lock_of s y = Some l \<longrightarrow> x = y)"

text \<open>No handler runs on the processor of a task that holds a lock.\<close>

definition masked :: "(nat \<Rightarrow> nat) \<Rightarrow> 'a conc \<Rightarrow> bool" where
  "masked home s \<longleftrightarrow> (\<forall>r. r_lock (c_read s r) \<noteq> None \<longrightarrow> c_hand s (home r) = Idle)"

lemma lock_of_set [simp]:
  "lock_of (set_hand s c p m) = (lock_of s)(Inl c := h_lock p)"
  "lock_of (set_read s r q m) = (lock_of s)(Inr r := r_lock q)"
  by (auto simp: lock_of_def fun_eq_iff split: sum.split)

lemma exclusive_upd:
  assumes "exclusive s" and "lock_of s' = (lock_of s)(x := l)" and "\<And>k. l = Some k \<Longrightarrow> \<not> locked s k"
  shows "exclusive s'"
proof -
  have "lock_of s y \<noteq> Some k" if "l = Some k" for y k
    using assms(3)[OF that] by (auto simp: locked_def image_iff eq_commute)
  with assms(1,2) show ?thesis by (auto simp: exclusive_def split: if_splits)
qed

lemma hand_enters:
  "can_hand s c \<Longrightarrow> hand_next api c (c_hand s c) m = Inr (p, m') \<Longrightarrow> h_lock p = Some l \<Longrightarrow> \<not> locked s l"
  by (cases "c_hand s c") (auto simp: can_hand_def elim!: fault_bind_InrE split: option.splits if_splits)

lemma read_enters:
  "can_read s r \<Longrightarrow> read_next (c_read s r) m = Inr (q, m') \<Longrightarrow> r_lock q = Some l \<Longrightarrow> \<not> locked s l"
  by (cases "c_read s r") (auto simp: can_read_def elim!: fault_bind_InrE split: option.splits if_splits)

lemma cstep_exclusive: "cstep api n nmi home s e s' \<Longrightarrow> exclusive s \<Longrightarrow> exclusive s'"
proof (induction rule: cstep.induct)
  case (interrupt c s pid)
  then show ?case by (intro exclusive_upd[OF interrupt.prems lock_of_set(1)]) (auto simp: gather_start_def split: option.splits)
next
  case (restart c s)
  then show ?case by (intro exclusive_upd[OF restart.prems lock_of_set(1)]) (auto simp: start_start_def split: option.splits)
next
  case (handler s c p m)
  then show ?case by (intro exclusive_upd[OF handler.prems lock_of_set(1)]) (rule hand_enters)
next
  case (call s r)
  then show ?case by (intro exclusive_upd[OF call.prems lock_of_set(2)]) simp
next
  case (reader s r q m)
  then show ?case by (intro exclusive_upd[OF reader.prems lock_of_set(2)]) (rule read_enters)
qed

lemma cstep_masked: "cstep api n False home s e s' \<Longrightarrow> masked home s \<Longrightarrow> masked home s'"
proof (induction rule: cstep.induct)
  case (interrupt c s pid)
  then show ?case by (auto simp: masked_def irqs_off_def)
next
  case (restart c s)
  then show ?case by (auto simp: masked_def irqs_off_def)
next
  case (handler s c p m)
  then have "c_hand s c \<noteq> Idle" by (auto simp: can_hand_def)
  with handler.prems show ?case by (auto simp: masked_def)
qed (auto simp: masked_def)

lemma ctrace_keeps:
  assumes "ctrace api n nmi home s evs s'" and "\<And>s e s'. cstep api n nmi home s e s' \<Longrightarrow> P s \<Longrightarrow> P s'" and "P s"
  shows "P s'"
  using assms by induction auto

lemma at_rest_locks [simp]: "exclusive (at_rest m)" "masked home (at_rest m)"
  by (auto simp: exclusive_def masked_def lock_of_def split: sum.splits)

section \<open>Coming to rest\<close>

text \<open>The pieces a handler or a reader still has to run, at most.\<close>

fun h_rank :: "hphase \<Rightarrow> nat" where
  "h_rank Idle = 0"
| "h_rank (Want_empty pid) = 7"
| "h_rank (In_empty pid) = 6"
| "h_rank (Popped a pid) = 5"
| "h_rank (Ready a pid) = 4"
| "h_rank (Want_full a) = 3"
| "h_rank (In_full a) = 2"
| "h_rank Appended = 1"
| "h_rank (Start_want a) = 4"
| "h_rank (Start_in a) = 3"
| "h_rank Start_clear = 2"
| "h_rank Start_local = 1"

fun r_rank :: "rphase \<Rightarrow> nat" where
  "r_rank R_idle = 0"
| "r_rank R_want_full = 5"
| "r_rank R_in_full = 4"
| "r_rank (R_copy a) = 3"
| "r_rank (R_want_empty a) = 2"
| "r_rank (R_in_empty a) = 1"

lemma hand_rank: "hand_next api c p m = Inr (p', m') \<Longrightarrow> p \<noteq> Idle \<Longrightarrow> h_rank p' < h_rank p"
  by (cases p) (auto elim!: fault_bind_InrE split: option.splits if_splits)

lemma read_rank: "read_next q m = Inr (q', m') \<Longrightarrow> q \<noteq> R_idle \<Longrightarrow> r_rank q' < r_rank q"
  by (cases q) (auto elim!: fault_bind_InrE split: option.splits if_splits)

definition readers :: "'a conc \<Rightarrow> nat set" where
  "readers s = {r. c_read s r \<noteq> R_idle}"

lemma readers_at_rest [simp]: "readers (at_rest m) = {}"
  by (simp add: readers_def)

definition work :: "nat \<Rightarrow> 'a conc \<Rightarrow> nat" where
  "work n s = (\<Sum>c < n. h_rank (c_hand s c)) + (\<Sum>r \<in> readers s. r_rank (c_read s r))"

lemma readers_set: "readers (set_hand s c p m) = readers s" "readers (set_read s r q m) \<subseteq> insert r (readers s)"
  by (auto simp: readers_def)

lemma cstep_readers: "cstep api n nmi home s e s' \<Longrightarrow> finite (readers s) \<Longrightarrow> finite (readers s')"
  by (induction rule: cstep.induct) (auto simp: readers_set(1) intro: finite_subset[OF readers_set(2)])

lemma work_hand:
  assumes "c < n" and "h_rank p < h_rank (c_hand s c)"
  shows "work n (set_hand s c p m) < work n s"
proof -
  have "(\<Sum>d < n. h_rank (((c_hand s)(c := p)) d)) < (\<Sum>d < n. h_rank (c_hand s d))"
    by (rule sum_strict_mono_ex1) (use assms in auto)
  then show ?thesis by (simp add: work_def readers_set(1))
qed

lemma work_read:
  assumes "finite (readers s)" and "r_rank q < r_rank (c_read s r)"
  shows "work n (set_read s r q m) < work n s"
proof -
  let ?g = "\<lambda>d. r_rank (((c_read s)(r := q)) d)"
  have r: "r \<in> readers s" using assms(2) by (auto simp: readers_def)
  have "sum ?g (readers (set_read s r q m)) \<le> sum ?g (readers s)"
    by (rule sum_mono2) (use assms r in \<open>auto simp: readers_def\<close>)
  also have "\<dots> < (\<Sum>d \<in> readers s. r_rank (c_read s d))"
    by (rule sum_strict_mono_ex1) (use assms r in auto)
  finally show ?thesis by (simp add: work_def)
qed

text \<open>Whoever may go on does, with one piece less to run afterwards.\<close>

definition goes_on :: "'a pmu_api \<Rightarrow> nat \<Rightarrow> bool \<Rightarrow> (nat \<Rightarrow> nat) \<Rightarrow> 'a conc \<Rightarrow> bool" where
  "goes_on api n nmi home s \<longleftrightarrow> (\<exists>e s'. cstep api n nmi home s e s' \<and> work n s' < work n s)"

lemma hand_goes_on:
  assumes "pmu_arch api ok running" and inv: "cinv ok n s es fs" and can: "can_hand s c"
  shows "goes_on api n nmi home s"
proof -
  have busy: "c_hand s c \<noteq> Idle" using can by (simp add: can_hand_def)
  obtain p m where "hand_next api c (c_hand s c) (c_mod s) = Inr (p, m)"
    using handler_ok[OF assms(1) inv busy] by (auto simp: hand_moves_def)
  from cstep.handler[OF can this] work_hand[OF cinvD(5)[OF inv busy] hand_rank[OF this busy]] show ?thesis
    unfolding goes_on_def by blast
qed

lemma read_goes_on:
  assumes inv: "cinv ok n s es fs" and can: "can_read s r" and home: "c_hand s (home r) = Idle" and fin: "finite (readers s)"
  shows "goes_on api n nmi home s"
proof -
  have busy: "c_read s r \<noteq> R_idle" using can by (simp add: can_read_def)
  obtain q m where "read_next (c_read s r) (c_mod s) = Inr (q, m)" using reader_ok[OF inv busy] by blast
  from cstep.reader[where home = home, OF home can this] work_read[OF fin read_rank[OF this busy]] show ?thesis
    unfolding goes_on_def by blast
qed

lemma holder_can: "h_lock (c_hand s c) = Some l \<Longrightarrow> can_hand s c" "r_lock (c_read s r) = Some l \<Longrightarrow> can_read s r"
  by (cases "c_hand s c"; simp add: can_hand_def) (cases "c_read s r"; simp add: can_read_def)

lemma holder_goes_on:
  assumes "pmu_arch api ok running" and inv: "cinv ok n s es fs" and "masked home s" and "finite (readers s)" and "locked s l"
  shows "goes_on api n nmi home s"
proof -
  obtain x where x: "lock_of s x = Some l" using assms(5) by (auto simp: locked_def)
  show ?thesis
  proof (cases x)
    case (Inl c)
    with x have "h_lock (c_hand s c) = Some l" by (simp add: lock_of_def)
    from hand_goes_on[OF assms(1) inv holder_can(1)[OF this]] show ?thesis .
  next
    case (Inr r)
    with x have "r_lock (c_read s r) = Some l" by (simp add: lock_of_def)
    with assms(3) show ?thesis by (intro read_goes_on[OF inv holder_can(2) _ assms(4)]) (auto simp: masked_def)
  qed
qed

definition resting :: "'a conc \<Rightarrow> bool" where
  "resting s \<longleftrightarrow> (\<forall>c. c_hand s c = Idle) \<and> (\<forall>r. c_read s r = R_idle)"

lemma not_stuck:
  assumes "pmu_arch api ok running" and inv: "cinv ok n s es fs" and "masked home s" and "finite (readers s)"
    and "\<not> resting s"
  shows "goes_on api n nmi home s"
proof (cases "\<exists>l. locked s l")
  case True
  with holder_goes_on[OF assms(1-4)] show ?thesis by blast
next
  case False
  then have free: "c_hand s c \<noteq> Idle \<Longrightarrow> can_hand s c" "c_read s r \<noteq> R_idle \<Longrightarrow> can_read s r" for c r
    by (auto simp: can_hand_def can_read_def split: option.split)
  show ?thesis
  proof (cases "\<exists>c. c_hand s c \<noteq> Idle")
    case True
    with hand_goes_on[OF assms(1) inv free(1)] show ?thesis by blast
  next
    case idle: False
    with assms(5) obtain r where "c_read s r \<noteq> R_idle" by (auto simp: resting_def)
    with read_goes_on[OF inv free(2) _ assms(4)] idle show ?thesis by blast
  qed
qed

lemma quiesces:
  assumes "pmu_arch api ok running" and "cinv ok n s es fs" and "masked home s" and "finite (readers s)"
  shows "\<exists>evs s'. ctrace api n False home s evs s' \<and> resting s'"
  using assms(2-4)
proof (induction "work n s" arbitrary: s es fs rule: less_induct)
  case less
  show ?case
  proof (cases "resting s")
    case True
    then show ?thesis using c_finished by blast
  next
    case False
    obtain e s1 where 1: "cstep api n False home s e s1" "work n s1 < work n s"
      using not_stuck[OF assms(1) less.prems(1-3) False] unfolding goes_on_def by blast
    obtain es1 fs1 where "cinv ok n s1 es1 fs1" using cstep_ok[OF assms(1) less.prems(1) 1(1)] by blast
    from less.hyps[OF 1(2) this cstep_masked[OF 1(1) less.prems(2)] cstep_readers[OF 1(1) less.prems(3)]] 1(1) c_step
    show ?thesis by blast
  qed
qed

section \<open>A processor that waits for itself\<close>

lemma lock_of_rest [simp]: "lock_of (at_rest m) = (\<lambda>_. None)"
  by (auto simp: lock_of_def fun_eq_iff split: sum.split)

text \<open>A reader alone, from its call to the lock of the empty buffers, which it holds at the end.\<close>

lemma reader_runs:
  assumes rep: "kmod_rep n m es (a # fs) {}"
  shows "\<exists>m' s. ctrace api n nmi home (at_rest m)
       [C_other, C_other, C_popped r (content (k_heap m) a), C_copied r (content (k_heap m) a), C_other] s \<and>
     c_mod s = m' \<and> lbuffer m' = lbuffer m \<and> (\<forall>c. c_hand s c = Idle) \<and> c_read s r = R_in_empty a"
proof -
  obtain m' where pop: "pop_full m = Inr (Some a, m')" "kmod_rep n m' es fs {a}" "moved m m'"
    using pop_full_ok[of n m es a fs "{}"] rep by auto
  obtain b where b: "k_heap m' a = Some b" using kmod_rep_live[OF pop(2), of a] by auto
  have cont: "content (k_heap m') a = content (k_heap m) a" and lb: "lbuffer m' = lbuffer m"
    using moved_fields[OF pop(3)] by auto
  define s1 where "s1 = set_read (at_rest m) r R_want_full m"
  define s2 where "s2 = set_read s1 r R_in_full m"
  define s3 where "s3 = set_read s2 r (R_copy a) m'"
  define s4 where "s4 = set_read s3 r (R_want_empty a) m'"
  define s5 where "s5 = set_read s4 r (R_in_empty a) m'"
  note defs = s1_def s2_def s3_def s4_def s5_def
  have free: "\<not> locked s1 Full_lock" "\<not> locked s4 Empty_lock" by (auto simp: locked_def defs split: if_splits)
  have 1: "cstep api n nmi home (at_rest m) C_other s1"
    unfolding s1_def using cstep.call[of "at_rest m" r home api n nmi] by simp
  have 2: "cstep api n nmi home s1 C_other s2"
    unfolding s2_def using cstep.reader[of s1 home r R_in_full m api n nmi] free(1)
    by (simp add: s1_def can_read_def read_event_def)
  have 3: "cstep api n nmi home s2 (C_popped r (content (k_heap m) a)) s3"
    unfolding s3_def using cstep.reader[of s2 home r "R_copy a" m' api n nmi] pop(1)
    by (simp add: s1_def s2_def can_read_def read_event_def)
  have 4: "cstep api n nmi home s3 (C_copied r (content (k_heap m) a)) s4"
    unfolding s4_def using cstep.reader[of s3 home r "R_want_empty a" m' api n nmi] b cont
    by (simp add: s1_def s2_def s3_def can_read_def read_event_def)
  have 5: "cstep api n nmi home s4 C_other s5"
    unfolding s5_def using cstep.reader[of s4 home r "R_in_empty a" m' api n nmi] free(2)
    by (simp add: s1_def s2_def s3_def s4_def can_read_def read_event_def)
  have "ctrace api n nmi home (at_rest m)
       [C_other, C_other, C_popped r (content (k_heap m) a), C_copied r (content (k_heap m) a), C_other] s5"
    by (intro c_step[OF 1] c_step[OF 2] c_step[OF 3] c_step[OF 4] c_step[OF 5] c_finished)
  then show ?thesis using lb by (intro exI[of _ m'] exI[of _ s5]) (simp add: defs)
qed

text \<open>The handler spins for a lock that the task it interrupted holds.\<close>

definition waits_for_itself :: "(nat \<Rightarrow> nat) \<Rightarrow> nat \<Rightarrow> 'a conc \<Rightarrow> bool" where
  "waits_for_itself home r s \<longleftrightarrow> (\<exists>l. h_wants (c_hand s (home r)) = Some l \<and> r_lock (c_read s r) = Some l)"

lemma wants_busy: "h_wants p = Some l \<Longrightarrow> p \<noteq> Idle"
  by auto

lemma waiting_step:
  assumes "cstep api n nmi home s e s'" and l: "h_wants (c_hand s (home r)) = Some l" "r_lock (c_read s r) = Some l"
  shows "c_hand s' (home r) = c_hand s (home r) \<and> c_read s' r = c_read s r"
proof -
  have "lock_of s (Inr r) = Some l" using l(2) by (simp add: lock_of_def)
  then have held: "locked s l" by (metis locked_def rangeI)
  have "\<not> can_hand s (home r)" using l(1) held by (simp add: can_hand_def)
  moreover have "c_read s r \<noteq> R_idle" using l(2) by auto
  ultimately show ?thesis using wants_busy[OF l(1)] by (cases rule: cstep.cases[OF assms(1)]) auto
qed

lemma waiting_trace:
  "ctrace api n nmi home s evs s' \<Longrightarrow> waits_for_itself home r s \<Longrightarrow>
   waits_for_itself home r s' \<and> c_hand s' (home r) = c_hand s (home r) \<and> c_read s' r = c_read s r"
proof (induction rule: ctrace.induct)
  case (c_step s e s1 es s')
  then have "c_hand s1 (home r) = c_hand s (home r) \<and> c_read s1 r = c_read s r"
    using waiting_step unfolding waits_for_itself_def by blast
  with c_step show ?case by (simp add: waits_for_itself_def)
qed simp

text \<open>A non-maskable interrupt while the reader holds the lock.\<close>

lemma ctrace_append: "ctrace api n nmi home s xs s1 \<Longrightarrow> ctrace api n nmi home s1 ys s2 \<Longrightarrow> ctrace api n nmi home s (xs @ ys) s2"
  by (induction rule: ctrace.induct) (auto intro: c_step)

lemma nmi_waits:
  assumes rep: "kmod_rep n m es (a # fs) {}" and home: "home r < n" and none: "lbuffer m (home r) = None"
  shows "\<exists>evs s. ctrace api n True home (at_rest m) evs s \<and> C_popped r (content (k_heap m) a) \<in> set evs \<and>
     waits_for_itself home r s"
proof -
  let ?evs = "[C_other, C_other, C_popped r (content (k_heap m) a), C_copied r (content (k_heap m) a), C_other]"
  obtain m' s where s: "ctrace api n True home (at_rest m) ?evs s"
    "c_mod s = m'" "lbuffer m' = lbuffer m" "\<forall>c. c_hand s c = Idle" "c_read s r = R_in_empty a"
    using reader_runs[OF rep, of api True home r] by blast
  let ?s = "set_hand s (home r) (gather_start (home r) 0 m') m'"
  have step: "cstep api n True home s C_other ?s"
    using cstep.interrupt[of "home r" n s True home api 0] home s(2,4) by simp
  have "ctrace api n True home (at_rest m) (?evs @ [C_other]) ?s"
    by (rule ctrace_append[OF s(1) c_step[OF step c_finished]])
  moreover have "waits_for_itself home r ?s"
    using s(3,5) none by (simp add: waits_for_itself_def gather_start_def)
  ultimately show ?thesis by (intro exI[of _ "?evs @ [C_other]"] exI[of _ ?s]) simp
qed

end
