(* ===== verification/Kernel_Restart.thy ===== *)
theory Kernel_Restart
  imports Kernel_Progress
begin

text \<open>
  Restarting a processor whose sampling interrupt cannot be masked: the interrupt may arrive in the
  middle of \<open>startCtrs\<close>, which has then put the processor's buffer on the list of empty buffers but
  still points to it. Another processor may take that buffer too.
\<close>

section \<open>Handlers on top of startCtrs\<close>

text \<open>
  \<open>n_start c\<close> is where processor \<open>c\<close> is in \<open>startCtrs\<close>, on top of which the handler \<open>c_hand\<close> runs.
  The critical section of \<open>append_blist\<close> is one step here: an interrupt inside it would wait for
  its own processor, like the one inside a reader.
\<close>

record 'a nconc =
  n_conc :: "'a conc"
  n_start :: "nat \<Rightarrow> hphase"

definition n_set :: "'a nconc \<Rightarrow> nat \<Rightarrow> hphase \<Rightarrow> 'a kmod \<Rightarrow> 'a nconc" where
  "n_set z c p m = z\<lparr>n_start := (n_start z)(c := p), n_conc := (n_conc z)\<lparr>c_mod := m\<rparr>\<rparr>"

inductive nstep :: "'a pmu_api \<Rightarrow> nat \<Rightarrow> (nat \<Rightarrow> nat) \<Rightarrow> 'a nconc \<Rightarrow> cevent \<Rightarrow> 'a nconc \<Rightarrow> bool"
  for api n home where
  n_other: "cstep api n True home (n_conc z) e s \<Longrightarrow>
    \<forall>r. c_read s r \<noteq> c_read (n_conc z) r \<longrightarrow> n_start z (home r) = Idle \<Longrightarrow> nstep api n home z e (z\<lparr>n_conc := s\<rparr>)"
| n_restart: "c < n \<Longrightarrow> n_start z c = Idle \<Longrightarrow> c_hand (n_conc z) c = Idle \<Longrightarrow> \<not> irqs_off home (n_conc z) c \<Longrightarrow>
    nstep api n home z (C_restarted c) (n_set z c (start_start c (c_mod (n_conc z))) (c_mod (n_conc z)))"
| n_append: "n_start z c = Start_want a \<Longrightarrow> c_hand (n_conc z) c = Idle \<Longrightarrow> \<not> locked (n_conc z) Empty_lock \<Longrightarrow>
    append_empty (Some a) (c_mod (n_conc z)) = Inr m \<Longrightarrow> nstep api n home z C_other (n_set z c Start_clear m)"
| n_next: "n_start z c \<in> {Start_clear, Start_local} \<Longrightarrow> c_hand (n_conc z) c = Idle \<Longrightarrow>
    hand_next api c (n_start z c) (c_mod (n_conc z)) = Inr (p, m) \<Longrightarrow> nstep api n home z C_other (n_set z c p m)"

inductive ntrace :: "'a pmu_api \<Rightarrow> nat \<Rightarrow> (nat \<Rightarrow> nat) \<Rightarrow> 'a nconc \<Rightarrow> cevent list \<Rightarrow> 'a nconc \<Rightarrow> bool"
  for api n home where
  n_finished: "ntrace api n home z [] z"
| n_step: "nstep api n home z e z1 \<Longrightarrow> ntrace api n home z1 es z' \<Longrightarrow> ntrace api n home z (e # es) z'"

definition n_rest :: "'a kmod \<Rightarrow> 'a nconc" where
  "n_rest m = \<lparr>n_conc = at_rest m, n_start = (\<lambda>_. Idle)\<rparr>"

lemma n_simps [simp]:
  "n_conc (n_rest m) = at_rest m" "n_start (n_rest m) c = Idle"
  "n_conc (n_set z c p m) = (n_conc z)\<lparr>c_mod := m\<rparr>" "n_start (n_set z c p m) = (n_start z)(c := p)"
  by (simp_all add: n_rest_def n_set_def)

section \<open>The race\<close>

text \<open>What another processor takes from the list is that buffer.\<close>

lemma pop_current:
  assumes "kmod_rep n (m\<lparr>lbuffer := lb\<rparr>) [a] fs {}"
  shows "\<exists>m2 b. pop_empty m = Inr (Some a, m2) \<and> k_heap m2 a = Some b \<and> wf_buffer b \<and> lbuffer m2 = lbuffer m \<and>
     arch m2 = arch m \<and> period m2 = period m"
proof -
  obtain mv where 1: "pop_empty (m\<lparr>lbuffer := lb\<rparr>) = Inr (Some a, mv)" "kmod_rep n mv [] fs {a}" "moved (m\<lparr>lbuffer := lb\<rparr>) mv"
    using pop_empty_ok[OF assms] by auto
  then obtain m2 where m2: "pop_empty m = Inr (Some a, m2)" "mv = m2\<lparr>lbuffer := lb\<rparr>"
    unfolding lbuffer_commute by (auto elim!: fault_bind_InrE)
  have lb: "lbuffer m2 = lbuffer m" using m2(1) by (auto simp: pop_empty_def elim!: fault_bind_InrE)
  obtain b where "k_heap mv a = Some b" using kmod_rep_live[OF 1(2), of a] by auto
  with kmod_rep_wf[OF 1(2)] m2 lb moved_fields[OF 1(3)] show ?thesis by (intro exI[of _ m2] exI[of _ b]) simp
qed

lemma not_locked_idle:
  "(\<And>c. c_hand s c = Idle \<or> (\<exists>pid. c_hand s c = Want_empty pid)) \<Longrightarrow> (\<And>r. c_read s r = R_idle) \<Longrightarrow> \<not> locked s l"
  by (auto simp: locked_def lock_of_def image_iff split: sum.splits) (metis h_lock.simps(4,5) option.distinct(1))

text \<open>
  Processor \<open>c\<close> restarts and gives its buffer back; \<open>d\<close> takes it for itself; an interrupt on
  \<open>c\<close> before its pointer is cleared writes a sample of \<open>c\<close> into it.
\<close>

definition same_buffer :: "nat \<Rightarrow> nat \<Rightarrow> addr \<Rightarrow> sample \<Rightarrow> 'a kmod \<Rightarrow> bool" where
  "same_buffer c d a x m \<longleftrightarrow> lbuffer m c = Some a \<and> lbuffer m d = Some a \<and>
     filled (content (k_heap m) a) = [x] \<and> b_core (content (k_heap m) a) = of_nat d"

lemma race_states:
  assumes r: "kmod_rep n m [] fs {}" and c: "lbuffer m c = Some a" and d: "lbuffer m d = None" "c \<noteq> d"
    and arch: "pmu_arch api ok running" and hw: "ok (arch m)"
  shows "\<exists>m1 m2 m3 m4 x. append_empty (Some a) m = Inr m1 \<and> lbuffer m1 d = None \<and> pop_empty m1 = Inr (Some a, m2) \<and>
     hand_next api d (Popped a pid) m2 = Inr (Ready a pid, m3) \<and> lbuffer m3 c = Some a \<and>
     hand_next api c (Ready a pid) m3 = Inr (Idle, m4) \<and> same_buffer c d a x m4 \<and>
     x = sample_now api c pid (period m3) (arch m3) (s_counters (slot_at m3 a))"
proof -
  obtain m1 where 1: "append_empty (Some a) m = Inr m1" "lbuffer m1 = lbuffer m" "arch m1 = arch m"
    "kmod_rep n (m1\<lparr>lbuffer := (lbuffer m)(c := None)\<rparr>) [a] fs {}"
    using append_current[OF r c] by auto
  obtain m2 b where 2: "pop_empty m1 = Inr (Some a, m2)" "k_heap m2 a = Some b" "wf_buffer b" "lbuffer m2 = lbuffer m1" "arch m2 = arch m1"
    using pop_current[OF 1(4)] by blast
  let ?b = "b\<lparr>b_core := of_nat d, b_num_samples := 0\<rparr>"
  let ?m3 = "m2\<lparr>k_heap := (k_heap m2)(a \<mapsto> ?b), lbuffer := (lbuffer m2)(d := Some a)\<rparr>"
  have 3: "hand_next api d (Popped a pid) m2 = Inr (Ready a pid, ?m3)" using 2(2) by (simp add: initialize_buffer_def)
  have b: "wf_buffer ?b" "unat (b_num_samples ?b) < BUFFER_ENTRIES" using 2(3) by (simp_all add: wf_buffer_def entries_word)
  define x where "x = sample_now api c pid (period ?m3) (arch ?m3) (s_counters (slot_at ?m3 a))"
  have hw3: "ok (arch ?m3)" using hw 1(3) 2(5) by simp
  obtain hw' where w: "write_sample api c pid a ?m3 = Inr (unat (b_num_samples (put_sample ?b x)) \<ge> BUFFER_ENTRIES,
      ?m3\<lparr>k_heap := (k_heap ?m3)(a \<mapsto> put_sample ?b x), arch := hw'\<rparr>)"
    using write_sample_ok[OF arch _ b hw3 x_def] by auto
  let ?m4 = "?m3\<lparr>k_heap := (k_heap ?m3)(a \<mapsto> put_sample ?b x), arch := hw'\<rparr>"
  have "\<not> unat (b_num_samples (put_sample ?b x)) \<ge> BUFFER_ENTRIES"
    using put_sample_num[OF b(2), of x] by (simp add: BUFFER_ENTRIES_eq)
  then have 4: "hand_next api c (Ready a pid) ?m3 = Inr (Idle, ?m4)" using w by simp
  have "content (k_heap ?m4) a = (put_sample ?b x)\<lparr>b_nextBuffer := None\<rparr>" by (simp add: content_upd)
  moreover have "filled (put_sample ?b x) = [x]" using put_sample_filled[OF b(2,1), of x] by (simp add: filled_def)
  ultimately have "same_buffer c d a x ?m4"
    using 1(2) 2(4) c d(2) by (simp add: same_buffer_def put_sample_def)
  then show ?thesis
    using 1 2 3 4 c d x_def by (intro exI[of _ m1] exI[of _ m2] exI[of _ ?m3] exI[of _ ?m4] exI[of _ x]) simp
qed

lemma nstep_other:
  assumes "cstep api n True home (n_conc z) e s" and "c_read s = c_read (n_conc z)"
  shows "nstep api n home z e (z\<lparr>n_conc := s\<rparr>)"
  by (rule n_other[OF assms(1)]) (simp add: assms(2))

lemma ntrace_hand:
  assumes "n_conc z = s" and "can_hand s c" and "hand_next api c (c_hand s c) (c_mod s) = Inr (p, m)"
  shows "nstep api n home z (hand_event api c (c_hand s c) (c_mod s) p) (z\<lparr>n_conc := set_hand s c p m\<rparr>)"
  by (rule nstep_other) (use cstep.handler[OF assms(2,3)] assms(1) in simp_all)

lemma ntrace_nmi:
  assumes "n_conc z = s" and "c < n" and "c_hand s c = Idle"
  shows "nstep api n home z C_other (z\<lparr>n_conc := set_hand s c (gather_start c pid (c_mod s)) (c_mod s)\<rparr>)"
  by (rule nstep_other) (use cstep.interrupt[of c n s True home api pid] assms in simp_all)

lemma restart_race:
  assumes r: "kmod_rep n m [] fs {}" and c: "c < n" "lbuffer m c = Some a" and d: "d < n" "lbuffer m d = None" "c \<noteq> d"
    and arch: "pmu_arch api ok running" and hw: "ok (arch m)"
  shows "\<exists>evs z x. ntrace api n home (n_rest m) evs z \<and> C_sampled c x \<in> set evs \<and> same_buffer c d a x (c_mod (n_conc z))"
proof -
  obtain m1 m2 m3 m4 x where m: "append_empty (Some a) m = Inr m1" "lbuffer m1 d = None" "pop_empty m1 = Inr (Some a, m2)"
    "hand_next api d (Popped a 0) m2 = Inr (Ready a 0, m3)" "lbuffer m3 c = Some a"
    "hand_next api c (Ready a 0) m3 = Inr (Idle, m4)" "same_buffer c d a x m4"
    "x = sample_now api c 0 (period m3) (arch m3) (s_counters (slot_at m3 a))"
    using race_states[OF r c(2) d(2,3) arch hw] by blast
  define z1 where "z1 = n_set (n_rest m) c (Start_want a) m"
  define z2 where "z2 = n_set z1 c Start_clear m1"
  define s3 where "s3 = set_hand (n_conc z2) d (Want_empty 0) m1"
  define s4 where "s4 = set_hand s3 d (In_empty 0) m1"
  define s5 where "s5 = set_hand s4 d (Popped a 0) m2"
  define s6 where "s6 = set_hand s5 d (Ready a 0) m3"
  define s7 where "s7 = set_hand s6 c (Ready a 0) m3"
  define s8 where "s8 = set_hand s7 c Idle m4"
  define z where "z = (\<lambda>s. z2\<lparr>n_conc := s\<rparr>)"
  note defs = z1_def z2_def s3_def s4_def s5_def s6_def s7_def s8_def
  have z: "n_conc (z s) = s" "(z s)\<lparr>n_conc := t\<rparr> = z t" "z2\<lparr>n_conc := t\<rparr> = z t" for s t by (simp_all add: z_def)
  have free: "\<not> locked (n_conc z1) Empty_lock" "\<not> locked s3 Empty_lock"
    by (rule not_locked_idle; simp add: defs)+
  have 1: "nstep api n home (n_rest m) (C_restarted c) z1"
    unfolding z1_def using n_restart[of c n "n_rest m" home api] c by (simp add: irqs_off_def start_start_def)
  have 2: "nstep api n home z1 C_other z2"
    unfolding z2_def by (rule n_append[of z1 c a]) (use free(1) m(1) in \<open>simp_all add: z1_def\<close>)
  have idle: "c_mod (n_conc z2) = m1" "c_hand (n_conc z2) d = Idle" by (simp_all add: z2_def z1_def)
  have 3: "nstep api n home z2 C_other (z s3)"
    using ntrace_nmi[OF refl d(1), of z2 api home 0] m(2) idle by (simp add: s3_def z gather_start_def)
  have 4: "nstep api n home (z s3) C_other (z s4)"
    using ntrace_hand[OF z(1), of s3 d api "In_empty 0" m1 n home] free(2)
    by (simp add: s4_def z can_hand_def hand_event_def) (simp add: defs)
  have 5: "nstep api n home (z s4) C_other (z s5)"
    using ntrace_hand[OF z(1), of s4 d api "Popped a 0" m2 n home] m(3)
    by (simp add: s5_def z can_hand_def hand_event_def) (simp add: s4_def)
  have 6: "nstep api n home (z s5) C_other (z s6)"
    using ntrace_hand[OF z(1), of s5 d api "Ready a 0" m3 n home] m(4)
    by (simp add: s6_def z can_hand_def hand_event_def) (simp add: s5_def)
  have 7: "nstep api n home (z s6) C_other (z s7)"
    using ntrace_nmi[OF z(1) c(1), of s6 api home 0] m(5) d(3) by (simp add: s7_def z gather_start_def) (simp add: defs)
  have 8: "nstep api n home (z s7) (C_sampled c x) (z s8)"
    using ntrace_hand[OF z(1), of s7 c api Idle m4 n home] m(6)
    by (simp add: s8_def z can_hand_def hand_event_def) (simp add: s7_def m(8))
  have "ntrace api n home (n_rest m) [C_restarted c, C_other, C_other, C_other, C_other, C_other, C_other, C_sampled c x] (z s8)"
    by (intro n_step[OF 1] n_step[OF 2] n_step[OF 3] n_step[OF 4] n_step[OF 5] n_step[OF 6] n_step[OF 7] n_step[OF 8] n_finished)
  moreover have "same_buffer c d a x (c_mod (n_conc (z s8)))" using m(7) by (simp add: z s8_def)
  ultimately show ?thesis by (intro exI) auto
qed

end
