(* ===== verification/Kernel_Sleepers.thy ===== *)
theory Kernel_Sleepers
  imports Kernel_Waiting Kernel_Progress
begin

text \<open>
  Sleeping readers under the interleavings of interrupts and readers at every access to shared
  state. Between putting a full buffer on the list and waking the readers the handler can be
  overtaken; that window is the only time at which there is a full buffer and a reader sleeps that
  nobody has woken.
\<close>

section \<open>Interleavings with sleeping readers\<close>

text \<open>
  \<open>sl r\<close> is the number of wake-ups when \<open>r\<close> fell asleep. A reader that found no buffer sleeps
  and starts again only after a wake-up.
\<close>

definition falls_asleep :: "'a conc \<Rightarrow> 'a conc \<Rightarrow> nat \<Rightarrow> bool" where
  "falls_asleep s s' r \<longleftrightarrow> c_read s r = R_in_full \<and> c_read s' r = R_idle"

definition sleepers :: "'a conc \<Rightarrow> 'a conc \<Rightarrow> (nat \<Rightarrow> nat option) \<Rightarrow> nat \<Rightarrow> nat option" where
  "sleepers s s' sl r =
     (if falls_asleep s s' r then Some (wakes (c_mod s')) else if c_read s' r = R_idle then sl r else None)"

inductive zstep :: "'a pmu_api \<Rightarrow> nat \<Rightarrow> bool \<Rightarrow> (nat \<Rightarrow> nat) \<Rightarrow>
    'a conc \<times> (nat \<Rightarrow> nat option) \<Rightarrow> cevent \<Rightarrow> 'a conc \<times> (nat \<Rightarrow> nat option) \<Rightarrow> bool"
  for api n nmi home where
  z_step: "cstep api n nmi home s e s' \<Longrightarrow>
    \<forall>r w. sl r = Some w \<and> c_read s' r \<noteq> R_idle \<longrightarrow> w < wakes (c_mod s) \<Longrightarrow>
    zstep api n nmi home (s, sl) e (s', sleepers s s' sl)"

inductive ztrace :: "'a pmu_api \<Rightarrow> nat \<Rightarrow> bool \<Rightarrow> (nat \<Rightarrow> nat) \<Rightarrow>
    'a conc \<times> (nat \<Rightarrow> nat option) \<Rightarrow> cevent list \<Rightarrow> 'a conc \<times> (nat \<Rightarrow> nat option) \<Rightarrow> bool"
  for api n nmi home where
  z_finished: "ztrace api n nmi home z [] z"
| z_more: "zstep api n nmi home z e z1 \<Longrightarrow> ztrace api n nmi home z1 es z' \<Longrightarrow> ztrace api n nmi home z (e # es) z'"

section \<open>No wake-up is lost\<close>

text \<open>A handler has put its buffer on the list and has not yet called \<open>wake_up_all\<close>.\<close>

definition about_to_wake :: "'a conc \<Rightarrow> bool" where
  "about_to_wake s \<longleftrightarrow> (\<exists>c. c_hand s c = Appended)"

definition full_there :: "'a conc \<Rightarrow> bool" where
  "full_there s \<longleftrightarrow> bl_head (full_buffers (c_mod s)) \<noteq> None"

definition announces :: "'a conc \<Rightarrow> 'a conc \<Rightarrow> bool" where
  "announces s s' \<longleftrightarrow> wakes (c_mod s) \<le> wakes (c_mod s') \<and>
     (full_there s' \<and> \<not> about_to_wake s' \<and> wakes (c_mod s') = wakes (c_mod s) \<longrightarrow> full_there s \<and> \<not> about_to_wake s)"

lemma write_sample_queue: "write_sample api c pid a m = Inr (full, m') \<Longrightarrow> same_queue m m'"
  by (auto simp: write_sample_def same_queue_def fault_bind_Inr_iff Let_def split: option.splits if_splits)

lemma hand_next_queue:
  assumes "hand_next api c p m = Inr (p', m')"
  shows "wakes m \<le> wakes m'"
    and "p' = Appended \<or> wakes m < wakes m' \<or> p \<noteq> Appended \<and> full_buffers m' = full_buffers m"
  using assms
  by (cases p; auto simp: fault_bind_Inr_iff same_queue_def split: option.splits if_splits
      dest!: same_queue_lists initialize_buffer_queue write_sample_queue append_full_queue)+

lemma about_to_wake_set [simp]:
  "about_to_wake (set_hand s c p m) \<longleftrightarrow> p = Appended \<or> (\<exists>d. d \<noteq> c \<and> c_hand s d = Appended)"
  "about_to_wake (set_read s r q m) \<longleftrightarrow> about_to_wake s"
  by (auto simp: about_to_wake_def)

lemma about_to_wake_other: "c_hand s c \<noteq> Appended \<Longrightarrow> about_to_wake s \<longleftrightarrow> (\<exists>d. d \<noteq> c \<and> c_hand s d = Appended)"
  unfolding about_to_wake_def by metis

lemma hand_set_announces:
  assumes "wakes (c_mod s) \<le> wakes m"
    and "p = Appended \<or> wakes (c_mod s) < wakes m \<or>
      c_hand s c \<noteq> Appended \<and> full_buffers m = full_buffers (c_mod s)"
  shows "announces s (set_hand s c p m)"
proof -
  consider "p = Appended" | "wakes (c_mod s) < wakes m" | "c_hand s c \<noteq> Appended" "full_buffers m = full_buffers (c_mod s)"
    using assms(2) by blast
  then show ?thesis
    by cases (use assms(1) in \<open>simp_all add: announces_def full_there_def about_to_wake_other\<close>)
qed

lemma read_next_queue:
  assumes "read_next q m = Inr (q', m')"
  shows "wakes m' = wakes m" and "bl_head (full_buffers m') \<noteq> None \<Longrightarrow> bl_head (full_buffers m) \<noteq> None"
    and "q = R_in_full \<Longrightarrow> q' = R_idle \<Longrightarrow> bl_head (full_buffers m') = None"
  using assms
  by (cases q; auto simp: fault_bind_Inr_iff same_queue_def split: option.splits
      dest!: same_queue_lists(2) dest: pop_full_queue)+

lemma cstep_announces:
  assumes "cstep api n nmi home s e s'"
  shows "announces s s'" and "falls_asleep s s' r \<Longrightarrow> \<not> full_there s'"
  using assms
proof (induction rule: cstep.induct)
  case (interrupt c s pid)
  case 1
  show ?case using interrupt(2) by (intro hand_set_announces) simp_all
  case 2
  then show ?case by (auto simp: falls_asleep_def)
next
  case (restart c s)
  case 1
  show ?case using restart(2) by (intro hand_set_announces) simp_all
  case 2
  then show ?case by (auto simp: falls_asleep_def)
next
  case (handler s c p m)
  case 1
  from hand_set_announces[OF hand_next_queue[OF handler(2)]] show ?case .
  case 2
  then show ?case by (auto simp: falls_asleep_def)
next
  case (call s r')
  case 1
  show ?case by (simp add: announces_def full_there_def about_to_wake_def)
  case 2
  with call show ?case by (auto simp: falls_asleep_def split: if_splits)
next
  case (reader s r' q m)
  note q = read_next_queue[OF reader(3)]
  case 1
  show ?case using q(1,2) by (auto simp: announces_def full_there_def about_to_wake_def)
  case 2
  with q(3) show ?case by (auto simp: falls_asleep_def full_there_def split: if_splits)
qed

definition sleep_inv :: "'a conc \<times> (nat \<Rightarrow> nat option) \<Rightarrow> bool" where
  "sleep_inv z \<longleftrightarrow> (\<forall>r w. snd z r = Some w \<longrightarrow> w \<le> wakes (c_mod (fst z)) \<and>
     (full_there (fst z) \<and> \<not> about_to_wake (fst z) \<longrightarrow> w < wakes (c_mod (fst z))))"

lemma zstep_sleep_inv:
  assumes "zstep api n nmi home z e z'" and inv: "sleep_inv z"
  shows "sleep_inv z'"
  using assms(1)
proof cases
  case (z_step s s' sl)
  note a = cstep_announces[OF z_step(3)]
  show ?thesis
    unfolding sleep_inv_def z_step(2) fst_conv snd_conv
  proof (intro allI impI)
    fix r w assume w: "sleepers s s' sl r = Some w"
    show "w \<le> wakes (c_mod s') \<and> (full_there s' \<and> \<not> about_to_wake s' \<longrightarrow> w < wakes (c_mod s'))"
    proof (cases "falls_asleep s s' r")
      case True
      with w a(2) show ?thesis by (auto simp: sleepers_def)
    next
      case False
      with w have "sl r = Some w" by (auto simp: sleepers_def split: if_splits)
      with inv have "w \<le> wakes (c_mod s)" "full_there s \<and> \<not> about_to_wake s \<longrightarrow> w < wakes (c_mod s)"
        unfolding sleep_inv_def z_step(1) by auto
      with a(1) show ?thesis by (cases "wakes (c_mod s') = wakes (c_mod s)") (auto simp: announces_def)
    qed
  qed
qed

lemma ztrace_sleep_inv: "ztrace api n nmi home z evs z' \<Longrightarrow> sleep_inv z \<Longrightarrow> sleep_inv z'"
  by (induction rule: ztrace.induct) (auto intro: zstep_sleep_inv)

lemma ztrace_append:
  "ztrace api n nmi home z xs z1 \<Longrightarrow> ztrace api n nmi home z1 ys z' \<Longrightarrow> ztrace api n nmi home z (xs @ ys) z'"
  by (induction rule: ztrace.induct) (auto intro: ztrace.intros)

text \<open>Forgetting who sleeps, such a run is one of the interleavings.\<close>

lemma ztrace_ctrace: "ztrace api n nmi home z evs z' \<Longrightarrow> ctrace api n nmi home (fst z) evs (fst z')"
  by (induction rule: ztrace.induct) (auto intro: ctrace.intros elim!: zstep.cases)

lemma sleeper_woken:
  assumes "ztrace api n nmi home (s0, \<lambda>_. None) evs (s, sl)" and "sl r = Some w"
    and "full_there s" and "\<not> about_to_wake s"
  shows "w < wakes (c_mod s)"
  using ztrace_sleep_inv[OF assms(1)] assms(2-4) by (auto simp: sleep_inv_def)

section \<open>A reader that sleeps while a buffer is filled\<close>

lemma zstep_hand:
  assumes "cstep api n nmi home s e s'" and "c_read s' = c_read s" and "\<forall>r w. sl r = Some w \<longrightarrow> c_read s r = R_idle"
  shows "zstep api n nmi home (s, sl) e (s', sl)"
proof -
  have "sleepers s s' sl = sl"
  proof
    fix r
    show "sleepers s s' sl r = sl r"
      using assms(2,3) by (cases "sl r") (auto simp: sleepers_def falls_asleep_def)
  qed
  moreover have "\<forall>r w. sl r = Some w \<and> c_read s' r \<noteq> R_idle \<longrightarrow> w < wakes (c_mod s)" using assms(2,3) by auto
  ultimately show ?thesis using zstep.z_step[OF assms(1), of sl] by simp
qed

lemma reader_sleeps:
  assumes "kmod_rep n m es [] {}"
  shows "\<exists>s. ztrace api n nmi home (at_rest m, \<lambda>_. None) [C_other, C_other, C_other] (s, [r \<mapsto> wakes m]) \<and>
     c_mod s = m \<and> c_hand s = (\<lambda>_. Idle) \<and> c_read s = (\<lambda>_. R_idle)"
proof -
  have none: "pop_full m = Inr (None, m)" using pop_nothing(2)[OF assms] .
  define s1 where "s1 = set_read (at_rest m) r R_want_full m"
  define s2 where "s2 = set_read s1 r R_in_full m"
  define s3 where "s3 = set_read s2 r R_idle m"
  note defs = s1_def s2_def s3_def
  have free: "\<not> locked s1 Full_lock" by (auto simp: locked_def defs split: if_splits)
  have 1: "cstep api n nmi home (at_rest m) C_other s1"
    unfolding s1_def using cstep.call[of "at_rest m" r home api n nmi] by simp
  have 2: "cstep api n nmi home s1 C_other s2"
    unfolding s2_def using cstep.reader[of s1 home r R_in_full m api n nmi] free
    by (simp add: s1_def can_read_def read_event_def)
  have 3: "cstep api n nmi home s2 C_other s3"
    unfolding s3_def using cstep.reader[of s2 home r R_idle m api n nmi] none
    by (simp add: s1_def s2_def can_read_def read_event_def)
  have sl: "sleepers (at_rest m) s1 (\<lambda>_. None) = (\<lambda>_. None)" "sleepers s1 s2 (\<lambda>_. None) = (\<lambda>_. None)"
    "sleepers s2 s3 (\<lambda>_. None) = [r \<mapsto> wakes m]"
    by (auto simp: sleepers_def falls_asleep_def defs fun_eq_iff)
  have "ztrace api n nmi home (at_rest m, \<lambda>_. None) [C_other, C_other, C_other] (s3, [r \<mapsto> wakes m])"
    using z_step[OF 1, of "\<lambda>_. None"] z_step[OF 2, of "\<lambda>_. None"] z_step[OF 3, of "\<lambda>_. None"] unfolding sl
    by (auto intro!: ztrace.intros)
  then show ?thesis by (intro exI[of _ s3]) (auto simp: defs fun_eq_iff)
qed

text \<open>The last sample of a buffer: it is put on the list while the reader sleeps, then wakes it.\<close>

lemma sleeper_run:
  assumes arch: "pmu_arch api ok running" and ok: "ok (arch m)"
    and rep: "kmod_rep n m es [] {}" and c: "c < n" "lbuffer m c = Some a"
    and last: "k_heap m a = Some b" "Suc (unat (b_num_samples b)) = BUFFER_ENTRIES"
  shows "\<exists>evs s. ztrace api n nmi home (at_rest m, \<lambda>_. None) evs (s, [r \<mapsto> wakes m]) \<and>
     full_there s \<and> \<not> about_to_wake s \<and> wakes (c_mod s) = Suc (wakes m)"
proof -
  obtain s where s: "ztrace api n nmi home (at_rest m, \<lambda>_. None) [C_other, C_other, C_other] (s, [r \<mapsto> wakes m])"
    "c_mod s = m" "c_hand s = (\<lambda>_. Idle)" "c_read s = (\<lambda>_. R_idle)" using reader_sleeps[OF rep] by blast
  have wf: "wf_buffer b" and num: "unat (b_num_samples b) < BUFFER_ENTRIES"
    using kmod_rep_wf[OF rep last(1)] last(2) by simp_all
  obtain b' hw where w: "write_sample api c 0 a m = Inr (True, m\<lparr>k_heap := (k_heap m)(a \<mapsto> b'), arch := hw\<rparr>)"
    using write_sample_ok[OF arch last(1) wf num ok refl, of c 0] put_sample_num[OF num] last(2) by auto
  define m1 where "m1 = m\<lparr>k_heap := (k_heap m)(a \<mapsto> b'), arch := hw\<rparr>"
  have "bl_head (full_buffers m) = None" using rep by (simp add: kmod_rep_def blist_rep_def)
  then obtain m2 where m2: "append_full (Some a) m1 = Inr m2" "bl_head (full_buffers m2) = Some a" "wakes m2 = wakes m"
    by (simp add: append_full_def append_blist_def set_next_def m1_def)
  define s4 where "s4 = set_hand s c (Ready a 0) m"
  define s5 where "s5 = set_hand s4 c (Want_full a) m1"
  define s6 where "s6 = set_hand s5 c (In_full a) m1"
  define s7 where "s7 = set_hand s6 c Appended m2"
  define s8 where "s8 = set_hand s7 c Idle (wake_up_all (m2\<lparr>lbuffer := (lbuffer m2)(c := None)\<rparr>))"
  note defs = s4_def s5_def s6_def s7_def s8_def
  have free: "\<not> locked s5 Full_lock"
    using s(3,4) by (auto simp: locked_def defs lock_of_def split: if_splits sum.splits)
  have 4: "cstep api n nmi home s C_other s4"
    unfolding s4_def using cstep.interrupt[of c n s nmi home api 0] c s(2-4) by (simp add: gather_start_def irqs_off_def)
  have 5: "\<exists>e. cstep api n nmi home s4 e s5"
    unfolding s5_def using cstep.handler[of s4 c api "Want_full a" m1 n nmi home] w
    by (auto simp: s4_def can_hand_def m1_def)
  have 6: "\<exists>e. cstep api n nmi home s5 e s6"
    unfolding s6_def using cstep.handler[of s5 c api "In_full a" m1 n nmi home] free by (auto simp: s5_def can_hand_def)
  have 7: "\<exists>e. cstep api n nmi home s6 e s7"
    unfolding s7_def using cstep.handler[of s6 c api Appended m2 n nmi home] m2(1) by (auto simp: s6_def can_hand_def)
  have 8: "\<exists>e. cstep api n nmi home s7 e s8"
    unfolding s8_def using cstep.handler[of s7 c api Idle _ n nmi home] by (auto simp: s7_def can_hand_def)
  have z: "zstep api n nmi home (t, [r \<mapsto> wakes m]) e (t', [r \<mapsto> wakes m])"
    if "cstep api n nmi home t e t'" "c_read t = c_read s" "c_read t' = c_read s" for t e t'
    by (rule zstep_hand[OF that(1)]) (use that s(4) in auto)
  have rd: "c_read s4 = c_read s" "c_read s5 = c_read s" "c_read s6 = c_read s" "c_read s7 = c_read s" "c_read s8 = c_read s"
    by (simp_all add: defs)
  obtain evs where "ztrace api n nmi home (s, [r \<mapsto> wakes m]) evs (s8, [r \<mapsto> wakes m])"
    using 5 6 7 8 z[OF 4 refl rd(1)] z[OF _ rd(1,2)] z[OF _ rd(2,3)] z[OF _ rd(3,4)] z[OF _ rd(4,5)]
    by (meson z_more z_finished)
  then have "\<exists>evs. ztrace api n nmi home (at_rest m, \<lambda>_. None) evs (s8, [r \<mapsto> wakes m])"
    using ztrace_append[OF s(1)] by blast
  moreover have "full_there s8" "\<not> about_to_wake s8" "wakes (c_mod s8) = Suc (wakes m)"
    using m2(2,3) s(3) by (auto simp: defs full_there_def)
  ultimately show ?thesis by blast
qed

end
