(* ===== verification/Register_Dump.thy ===== *)
theory Register_Dump
  imports Intel Arm
begin

text \<open>
  What \<open>dump_regs\<close> prints, as values: writing 2 to \<open>status\<close> shows the registers of every
  processor. On Intel this reads only; on ARM the last counter stays selected.
\<close>

section \<open>Intel\<close>

definition MSR_CORE_PERF_GLOBAL_STATUS :: nat where "MSR_CORE_PERF_GLOBAL_STATUS = 0x38e"

text \<open>The two lines: the counters; then status, control and the configured events.\<close>

definition intel_dump :: "nat \<Rightarrow> intel \<Rightarrow> u64 list \<times> u64 list" where
  "intel_dump c hw =
     (intel_read_ccnt c hw # map (\<lambda>i. rdmsrl c (MSR_ARCH_PERFMON_PERFCTR0 + i) hw) [0, 1, 2, 3],
      rdmsrl c MSR_CORE_PERF_GLOBAL_STATUS hw # rdmsrl c MSR_CORE_PERF_GLOBAL_CTRL hw #
        map (\<lambda>i. rdmsrl c (MSR_ARCH_PERFMON_EVENTSEL0 + i) hw) [0, 1, 2, 3])"

lemma intel_dump_armed:
  assumes "armed c cs p hw"
  shows "hd (fst (intel_dump c hw)) = ccnt_start p"
    "tl (snd (intel_dump c hw)) = 0x20000000F # map (\<lambda>i. event_config (cs ! i)) [0, 1, 2, 3]"
proof -
  have "msr hw c (MSR_ARCH_PERFMON_EVENTSEL0 + i) = event_config (cs ! i)" if "i < 4" for i
    using assms that by (simp add: armed_def)
  from this[of 0] this[of 1] this[of 2] this[of 3] assms
  show "tl (snd (intel_dump c hw)) = 0x20000000F # map (\<lambda>i. event_config (cs ! i)) [0, 1, 2, 3]"
    by (simp add: armed_def intel_dump_def rdmsrl_def)
  show "hd (fst (intel_dump c hw)) = ccnt_start p"
    using assms by (simp add: armed_def intel_dump_def intel_read_ccnt_def rdmsrl_def)
qed

section \<open>ARM\<close>

text \<open>
  The registers of the unit, without the debug authentication status, and each counter with the
  event it counts; the state afterwards is the one of \<open>arm_dump_regs\<close>.
\<close>

record arm_lines =
  d_pmnc :: u32
  d_cntens :: u32
  d_intens :: u32
  d_flags :: u32
  d_select :: u32
  d_ccnt :: u32
  d_useren :: u32
  d_counters :: "(u32 \<times> u32) list"

definition arm_dump_counter :: "nat \<Rightarrow> (u32 \<times> u32) list \<times> v7_pmu \<Rightarrow> (u32 \<times> u32) list \<times> v7_pmu" where
  "arm_dump_counter cnt lr =
     (let (v, r) = read_pmn_int (of_nat cnt) (snd lr) in (fst lr @ [(v, r_evtsel r (unat (r_pmnxsel r)))], r))"

definition arm_dump :: "nat \<Rightarrow> arm \<Rightarrow> arm_lines \<times> arm" where
  "arm_dump c hw =
     (let r = pmu hw c; (cs, r') = fold arm_dump_counter [0..<arm_num_ctrs hw] ([], r)
      in (\<lparr>d_pmnc = r_pmnc r, d_cntens = r_cnten r, d_intens = r_inten r, d_flags = r_flags r, d_select = r_pmnxsel r,
           d_ccnt = r_ccnt r, d_useren = r_useren r, d_counters = cs\<rparr>, on_pmu c (\<lambda>_. r') hw))"

lemma arm_dump_counter_fold:
  assumes "k \<le> 32"
  shows "fold arm_dump_counter [0..<k] (cs, r) =
    (cs @ map (\<lambda>i. (r_pmn r i, r_evtsel r i)) [0..<k], fold (\<lambda>cnt r. snd (read_pmn_int (of_nat cnt) r)) [0..<k] r)"
  using assms
proof (induction k)
  case (Suc k)
  let ?r = "fold (\<lambda>cnt r. snd (read_pmn_int (of_nat cnt) r)) [0..<k] r"
  have pmn: "r_pmn ?r = r_pmn r"
    by (rule fold_invariant[of "[0..<k]" "\<lambda>_. True" "\<lambda>r'. r_pmn r' = r_pmn r"]) simp_all
  have "arm_dump_counter k (cs', ?r) = (cs' @ [(r_pmn r k, r_evtsel r k)], snd (read_pmn_int (of_nat k) ?r))" for cs'
  proof -
    have "r_pmnxsel (snd (read_pmn_int (of_nat k) ?r)) = of_nat k AND 0x1F"
      by (simp add: read_pmn_int_def mcr_pmnxsel_def Let_def)
    then show ?thesis using unat_counter[of k] Suc.prems pmn by (simp add: arm_dump_counter_def split_def)
  qed
  with Suc show ?case by simp
qed simp

lemma arm_dump_correct:
  assumes "arm_num_ctrs hw \<le> 32"
  shows "snd (arm_dump c hw) = arm_dump_regs c hw"
    "d_counters (fst (arm_dump c hw)) = map (\<lambda>i. (r_pmn (pmu hw c) i, r_evtsel (pmu hw c) i)) [0..<arm_num_ctrs hw]"
  using arm_dump_counter_fold[OF assms, of "[]" "pmu hw c"]
  by (simp_all add: arm_dump_def arm_dump_regs_def on_pmu_def Let_def)

lemma arm_dump_armed:
  assumes "arm_armed c cs p hw" and "arm_ok hw"
  shows "d_ccnt (fst (arm_dump c hw)) = arm_ccnt_start p"
    "map snd (d_counters (fst (arm_dump c hw))) = map (\<lambda>i. ucast (cs ! i)) [0..<arm_num_ctrs hw]"
proof -
  have "arm_num_ctrs hw \<le> 32" using assms(2) by (simp add: arm_ok_def)
  from arm_dump_correct(2)[OF this, of c] assms(1)
  show "map snd (d_counters (fst (arm_dump c hw))) = map (\<lambda>i. ucast (cs ! i)) [0..<arm_num_ctrs hw]"
    by (simp add: arm_armed_def Let_def)
  show "d_ccnt (fst (arm_dump c hw)) = arm_ccnt_start p"
    using assms(1) by (simp add: arm_dump_def arm_armed_def split_def Let_def)
qed

end
