(* ===== verification/Kernel_Properties.thy ===== *)
theory Kernel_Properties
  imports Examples Kernel_Restart Kernel_Sleepers Register_Dump
begin

text \<open>
  The properties of the kernel module and of its two architectures, component by component,
  each applied to a concrete input.
\<close>

section \<open>Lists of buffers\<close>

text \<open>
  C18: the linked list refines a queue. Appending distinct buffers to an empty list and popping as
  many gives them back in the order they were appended, empties the list, and changes nothing but
  the links of the buffers.
\<close>

theorem buffer_list_fifo:
  assumes "blist_rep h l []" and "\<forall>a \<in> set xs. h a \<noteq> None" and "distinct xs"
  shows "\<exists>l1 h1 l2 h2. enq_all enq xs l h = Inr (l1, h1) \<and> deq_n deq (length xs) l1 h1 = Inr (xs, l2, h2) \<and>
     blist_rep h2 l2 [] \<and> payload h2 = payload h"
  by (rule bq.fifo) (use assms in simp_all)

theorem buffer_list_fifo_witness:
  "\<exists>l1 h1 l2 h2. enq_all enq [7, 5] init_blist [5 \<mapsto> zero_buffer, 7 \<mapsto> ex_buffer] = Inr (l1, h1) \<and>
     deq_n deq (length [7, 5 :: nat]) l1 h1 = Inr ([7, 5], l2, h2) \<and> blist_rep h2 l2 [] \<and>
     payload h2 = payload [5 \<mapsto> zero_buffer, 7 \<mapsto> ex_buffer]"
  by (rule buffer_list_fifo) simp_all

section \<open>Sampling and reading\<close>



section \<open>Attributes\<close>



text \<open>
  When the attributes cannot be added, \<open>init_sysfs_entries\<close> overwrites its error and
  \<open>init_module\<close> does not look at the result: the module is loaded with 0, with all its buffers and
  without a single attribute, so that nothing can ever switch it on.
\<close>

lemma sysfs_failure_hidden:
  assumes "\<not> ie_kobj_add ie" and "perfctr_free hw" "evntsel_free hw" and "allocates ie"
  shows "\<exists>m. init_module intel_api ie (kmod0 hw) = Some (Inr (0, m)) \<and> \<not> mykobj m \<and>
     kmod_rep n m (allocated ie 8) [] {} \<and> fst (init_sysfs_entries True False m) = 0"
proof -
  obtain hw' where "initialize_arch intel_api hw = Some (0, hw')"
    using assms(2,3) by (simp add: intel_api_def intel_initialize_arch_def Let_def)
  from init_module_ok[OF this assms(4), of n] show ?thesis
    using assms(1) by (auto simp: init_sysfs_entries_def Let_def)
qed

section \<open>Switching on and off\<close>

text \<open>
  C22: writing 1 to \<open>status\<close> on an Intel processor starts every processor's counters with the
  period of the attribute, at least 10000, keeps the full buffers for the reader, and takes the
  half-filled buffers back; writing 0 stops every processor and keeps all samples.
\<close>

theorem intel_status:
  assumes r: "kmod_rep n m es fs {}" and hw: "intel_ok (arch m)"
  shows "(\<exists>m' es'. process_status_update intel_api n (m\<lparr>status_attr := 1\<rparr>) = Inr m' \<and> kmod_rep n m' es' fs {} \<and>
       shutdown m' = 0 \<and> period m' = ucast (max (period_attr m) MIN_PERIOD) \<and> (\<forall>c < n. intel_running (arch m') c) \<and>
       (\<forall>c. in_module m' fs c = concat (map (\<lambda>a. part_of c (content (k_heap m) a)) fs))) \<and>
     (\<exists>m'. process_status_update intel_api n (m\<lparr>status_attr := 0\<rparr>) = Inr m' \<and> kmod_rep n m' es fs {} \<and>
       shutdown m' = 2 \<and> (\<forall>c < n. \<not> intel_running (arch m') c) \<and> (\<forall>c. in_module m' fs c = in_module m fs c))"
  using intel.status_on[of n "m\<lparr>status_attr := 1\<rparr>" es fs] intel.status_off[of n "m\<lparr>status_attr := 0\<rparr>" es fs] assms
  by (auto simp: in_module_def)

theorem intel_status_witness:
  "(\<exists>m' es'. process_status_update intel_api 2 ((ex_full ex_intel)\<lparr>status_attr := 1\<rparr>) = Inr m' \<and> kmod_rep 2 m' es' [200] {} \<and>
       shutdown m' = 0 \<and> period m' = ucast (max (period_attr (ex_full ex_intel)) MIN_PERIOD) \<and> (\<forall>c < 2. intel_running (arch m') c) \<and>
       (\<forall>c. in_module m' [200] c = concat (map (\<lambda>a. part_of c (content (k_heap (ex_full ex_intel)) a)) [200]))) \<and>
     (\<exists>m'. process_status_update intel_api 2 ((ex_full ex_intel)\<lparr>status_attr := 0\<rparr>) = Inr m' \<and> kmod_rep 2 m' [] [200] {} \<and>
       shutdown m' = 2 \<and> (\<forall>c < 2. \<not> intel_running (arch m') c) \<and> (\<forall>c. in_module m' [200] c = in_module (ex_full ex_intel) [200] c))"
  by (rule intel_status) simp_all

section \<open>Intel\<close>

text \<open>
  C30: starting a processor programs its four event counters with the configured events, enables
  them and the cycle counter, routes the overflow to a non-maskable interrupt, sets the cycle
  counter to its start, and touches no other processor. The registers printed by writing 2 to
  \<open>status\<close> then show this configuration.
\<close>

theorem intel_start_correct:
  assumes "intel_ok hw" and "length cs = 6"
  shows "\<exists>hw'. intel_startCtrsLocal c cs p hw = Inr hw' \<and> intel_ok hw' \<and> intel_read_ccnt c hw' = 0xFFFFFFFFFFFF - p \<and>
     lvtpc hw' c = APIC_DM_NMI \<and> msr hw' c MSR_CORE_PERF_GLOBAL_CTRL = 0x20000000F \<and>
     (\<forall>i < 4. msr hw' c (MSR_ARCH_PERFMON_EVENTSEL0 + i) = event_config (cs ! i)) \<and> (\<forall>d. d \<noteq> c \<longrightarrow> msr hw' d = msr hw d) \<and>
     hd (fst (intel_dump c hw')) = 0xFFFFFFFFFFFF - p \<and>
     tl (snd (intel_dump c hw')) = 0x20000000F # map (\<lambda>i. event_config (cs ! i)) [0, 1, 2, 3]"
proof -
  obtain hw' where hw': "intel_startCtrsLocal c cs p hw = Inr hw'" "intel_ok hw'" "armed c cs p hw'" "\<forall>d. d \<noteq> c \<longrightarrow> msr hw' d = msr hw d"
    using intel_start[OF assms, of c p] by blast
  with intel_dump_armed[OF hw'(3)] show ?thesis
    by (intro exI[of _ hw']) (simp add: armed_def intel_read_ccnt_def rdmsrl_def ccnt_start_def)
qed

theorem intel_start_correct_witness:
  "\<exists>hw'. intel_startCtrsLocal 1 [8, 1, 2, 3, 0, 0] 100000 ex_intel = Inr hw' \<and> intel_ok hw' \<and>
     intel_read_ccnt 1 hw' = 0xFFFFFFFFFFFF - 100000 \<and> lvtpc hw' 1 = APIC_DM_NMI \<and>
     msr hw' 1 MSR_CORE_PERF_GLOBAL_CTRL = 0x20000000F \<and>
     (\<forall>i < 4. msr hw' 1 (MSR_ARCH_PERFMON_EVENTSEL0 + i) = event_config ([8, 1, 2, 3, 0, 0] ! i)) \<and>
     (\<forall>d. d \<noteq> 1 \<longrightarrow> msr hw' d = msr ex_intel d) \<and> hd (fst (intel_dump 1 hw')) = 0xFFFFFFFFFFFF - 100000 \<and>
     tl (snd (intel_dump 1 hw')) = 0x20000000F # map (\<lambda>i. event_config ([8, 1, 2, 3, 0, 0] ! i)) [0, 1, 2, 3]"
  by (rule intel_start_correct) simp_all

text \<open>
  C16: the interrupt handler, in any state of the module: it takes exactly one sample for its
  processor, of the counters as they are and of the running process, behind the samples the
  processor already has, or, without any buffer, counts it as missed; it disturbs no other
  processor's samples; it sets the cycle counter back to its start, the event counters to zero and
  the interrupt entry to a non-maskable one, and stops the processor when the module is shutting
  down.
\<close>

theorem intel_interrupt_correct:
  assumes "kmod_rep n m es fs {}" and "c < n" "n \<le> 2 ^ 32" and "intel_ok (arch m)"
  shows "\<exists>m' es' fs'. my_nmi_handler c pid m = Inr m' \<and> kmod_rep n m' es' fs' {} \<and> intel_ok (arch m') \<and>
     msr (arch m') c MSR_ARCH_PERFMON_FIXED_CTR1 = ccnt_start (period m) \<and>
     (\<forall>i < 4. msr (arch m') c (MSR_ARCH_PERFMON_PERFCTR0 + i) = 0) \<and> lvtpc (arch m') c = APIC_DM_NMI \<and>
     intel_running (arch m') = (if shutdown m \<noteq> 0 then (intel_running (arch m))(c := False) else intel_running (arch m)) \<and>
     missed_attr m' = missed_attr m + (if lbuffer m c = None \<and> es = [] then 1 else 0) \<and>
     (\<forall>d < n. in_module m' fs' d = in_module m fs d @ (if d = c \<and> (lbuffer m c \<noteq> None \<or> es \<noteq> [])
        then [sample_now intel_api c pid (period m) (arch m) (s_counters (slot m c))] else []))"
  using my_nmi_handler_total[OF assms, of pid] unfolding rearmed_def by blast

theorem intel_interrupt_correct_witness:
  "\<exists>m' es' fs'. my_nmi_handler 1 42 (ex_loaded ex_intel) = Inr m' \<and> kmod_rep 2 m' es' fs' {} \<and> intel_ok (arch m') \<and>
     msr (arch m') 1 MSR_ARCH_PERFMON_FIXED_CTR1 = ccnt_start (period (ex_loaded ex_intel)) \<and>
     (\<forall>i < 4. msr (arch m') 1 (MSR_ARCH_PERFMON_PERFCTR0 + i) = 0) \<and> lvtpc (arch m') 1 = APIC_DM_NMI \<and>
     intel_running (arch m') = (if shutdown (ex_loaded ex_intel) \<noteq> 0 then (intel_running (arch (ex_loaded ex_intel)))(1 := False)
       else intel_running (arch (ex_loaded ex_intel))) \<and>
     missed_attr m' = missed_attr (ex_loaded ex_intel) + (if lbuffer (ex_loaded ex_intel) 1 = None \<and> [100 :: addr] = [] then 1 else 0) \<and>
     (\<forall>d < 2. in_module m' fs' d = in_module (ex_loaded ex_intel) [] d @
        (if d = 1 \<and> (lbuffer (ex_loaded ex_intel) 1 \<noteq> None \<or> [100 :: addr] \<noteq> [])
         then [sample_now intel_api 1 42 (period (ex_loaded ex_intel)) (arch (ex_loaded ex_intel))
           (s_counters (slot (ex_loaded ex_intel) 1))] else []))"
  by (rule intel_interrupt_correct[where es = "[100]"]) simp_all

section \<open>ARM\<close>

text \<open>
  C31: starting an ARM processor resets and programs its counters: the unit, every counter, the
  cycle counter and its interrupt are enabled, the cycle counter is at its start, and no other
  processor is touched. The registers printed then show every counter with its event.
\<close>

theorem arm_start_correct:
  assumes "arm_ok hw" and "length cs = 6"
  shows "\<exists>hw'. arm_startCtrsLocal c cs p hw = Inr hw' \<and> arm_num_ctrs hw' = arm_num_ctrs hw \<and> arm_armed c cs p hw' \<and>
     (\<forall>d. d \<noteq> c \<longrightarrow> pmu hw' d = pmu hw d) \<and> d_ccnt (fst (arm_dump c hw')) = arm_ccnt_start p \<and>
     map snd (d_counters (fst (arm_dump c hw'))) = map (\<lambda>i. ucast (cs ! i)) [0..<arm_num_ctrs hw]"
proof -
  obtain hw' where hw': "arm_startCtrsLocal c cs p hw = Inr hw'" "arm_num_ctrs hw' = arm_num_ctrs hw" "arm_armed c cs p hw'"
    "\<forall>d. d \<noteq> c \<longrightarrow> pmu hw' d = pmu hw d"
    using arm_start_ok[OF assms] by blast
  then have "arm_ok hw'" using assms(1) by (simp add: arm_ok_def)
  with hw' arm_dump_armed[OF hw'(3)] show ?thesis by (intro exI[of _ hw']) simp
qed

theorem arm_start_correct_witness:
  "\<exists>hw'. arm_startCtrsLocal 1 [8, 1, 2, 3, 0, 0] 100000 ex_arm = Inr hw' \<and> arm_num_ctrs hw' = arm_num_ctrs ex_arm \<and>
     arm_armed 1 [8, 1, 2, 3, 0, 0] 100000 hw' \<and> (\<forall>d. d \<noteq> 1 \<longrightarrow> pmu hw' d = pmu ex_arm d) \<and>
     d_ccnt (fst (arm_dump 1 hw')) = arm_ccnt_start 100000 \<and>
     map snd (d_counters (fst (arm_dump 1 hw'))) = map (\<lambda>i. ucast ([8, 1, 2, 3, 0, 0 :: u64] ! i)) [0..<arm_num_ctrs ex_arm]"
  by (rule arm_start_correct) simp_all

text \<open>
  C36: stopping an ARM processor disables its unit, but the event counters stay enabled in the
  enable register: \<open>disable_pmn\<close> writes the register that enables a counter.
\<close>

theorem arm_stop_keeps_counters:
  assumes "arm_ok hw" and "i < arm_num_ctrs hw"
  shows "\<not> arm_running (arm_stopCtrsLocal c hw) c \<and> bit (r_cnten (pmu (arm_stopCtrsLocal c hw) c)) i"
  using arm_stop_ok(2)[of c hw] arm_stop_leaves_enabled[OF assms] by simp

theorem arm_stop_keeps_counters_witness:
  "\<not> arm_running (arm_stopCtrsLocal 0 ex_arm) 0 \<and> bit (r_cnten (pmu (arm_stopCtrsLocal 0 ex_arm) 0)) 5"
  by (rule arm_stop_keeps_counters) simp_all

text \<open>
  C37: a processor that reports more than six counters makes \<open>startCtrsLocal\<close> read beyond the
  array of six configurations.
\<close>

theorem arm_too_many_counters:
  assumes "length cs = 6" and "arm_num_ctrs hw > 6"
  shows "arm_startCtrsLocal c cs p hw = Inl OutOfBounds"
  by (rule arm_start_overflow[OF assms])

theorem arm_too_many_counters_witness:
  "arm_startCtrsLocal 0 (cfgs (kmod0 ex_arm)) 100000 (ex_arm\<lparr>arm_num_ctrs := 31\<rparr>) = Inl OutOfBounds"
  by (rule arm_too_many_counters) (simp_all add: cfgs_def)



section \<open>Unloading\<close>

text \<open>
  C40: unloading ends in every state of the module, although its loops run until the lists are
  empty: it stops every processor and frees every buffer exactly once, except those that readers
  are just copying: what they put back on the list after that, nobody frees.
\<close>

theorem unloading_ends:
  assumes "kmod_rep n m es fs L" and "intel_ok (arch m)"
  shows "\<exists>m'. cleanup_module intel_api n m = Some (Inr m') \<and> dom (k_heap m') = L \<and> shutdown m' = 2 \<and>
     (\<forall>c < n. \<not> intel_running (arch m') c)"
  by (rule intel.cleanup_module_ok[OF assms])

theorem unloading_ends_witness:
  "\<exists>(m :: intel kmod) m'. pop_full (ex_three ex_intel) = Inr (Some 200, m) \<and>
     cleanup_module intel_api 2 m = Some (Inr m') \<and> dom (k_heap m') = {200} \<and> shutdown m' = 2 \<and>
     (\<forall>c < 2. \<not> intel_running (arch m') c)"
proof -
  obtain m :: "intel kmod" where 1: "pop_full (ex_three ex_intel) = Inr (Some 200, m)"
    "kmod_rep 2 m [] [201, 202] {200}" "moved (ex_three ex_intel) m"
    using pop_full_ok[OF ex_three_rep[of ex_intel]] by blast
  have "intel_ok (arch m)" using moved_fields[OF 1(3)] by (simp add: ex_three_arch)
  from unloading_ends[OF 1(2) this] 1(1) show ?thesis by blast
qed

section \<open>Interleavings\<close>


text \<open>
  C5: on Intel, interrupts on any number of processors and any number of readers interleave at every
  access to shared state. Every processor's events form a run of the abstract sample queue, and no
  piece of code touches memory it does not own. As long as no interrupt restarts a processor, the
  samples that left in the popped buffers, in the order the buffers were popped, followed by those
  still in the module are the samples that were there and then those taken, in order. Each reader
  has copied the buffers it popped as they were, and popped only full ones.
\<close>

theorem concurrent_accounts:
  assumes "kmod_rep n m es fs {}" and "intel_ok (arch m)" and "n \<le> 2 ^ 32"
    and trace: "ctrace intel_api n nmi home (at_rest m) evs s"
  shows "\<exists>es' fs'. cinv intel_ok n s es' fs' \<and>
     (\<forall>c < n. spec_run c evs (in_module m fs c) = Some (c_total s fs' c)) \<and>
     ((\<forall>d. C_restarted d \<notin> set evs) \<longrightarrow>
        (\<forall>c < n. popped_of c evs @ c_total s fs' c = in_module m fs c @ c_sampled_on c evs)) \<and>
     (\<forall>r. copied_by r evs @ in_hand s r = popped_by r evs) \<and> (\<forall>r b. C_popped r b \<in> set evs \<longrightarrow> full_buffer n b) \<and>
     (\<forall>c. no_fault (hand_next intel_api c (c_hand s c) (c_mod s))) \<and> (\<forall>r. no_fault (read_next (c_read s r) (c_mod s)))"
proof -
  obtain es' fs' where 1: "cinv intel_ok n s es' fs'" "advances n (at_rest m) fs evs s fs'"
    using ctrace_ok[OF intel.pmu_arch_axioms trace cinv_at_rest[where ok = intel_ok, OF assms(1-3)]] by blast
  with never_faults[OF intel.pmu_arch_axioms 1(1)] spec_run_equation show ?thesis
    by (intro exI[of _ es'] exI[of _ fs']) (simp add: advances_def)
qed

theorem concurrent_accounts_witness:
  "\<exists>evs s. ctrace intel_api 2 True (\<lambda>_. 0) (at_rest (ex_full ex_intel)) evs s \<and>
     C_copied 7 (content (k_heap (ex_full ex_intel)) 200) \<in> set evs \<and>
     (\<exists>es' fs'. cinv intel_ok 2 s es' fs' \<and>
        (\<forall>c < 2. spec_run c evs (in_module (ex_full ex_intel) [200] c) = Some (c_total s fs' c)) \<and>
        ((\<forall>d. C_restarted d \<notin> set evs) \<longrightarrow>
           (\<forall>c < 2. popped_of c evs @ c_total s fs' c = in_module (ex_full ex_intel) [200] c @ c_sampled_on c evs)) \<and>
        (\<forall>r. copied_by r evs @ in_hand s r = popped_by r evs) \<and> (\<forall>r b. C_popped r b \<in> set evs \<longrightarrow> full_buffer 2 b) \<and>
        (\<forall>c. no_fault (hand_next intel_api c (c_hand s c) (c_mod s))) \<and> (\<forall>r. no_fault (read_next (c_read s r) (c_mod s))))"
proof -
  let ?b = "content (k_heap (ex_full ex_intel)) 200"
  obtain evs s where s: "ctrace intel_api 2 True (\<lambda>_. 0) (at_rest (ex_full ex_intel)) evs s" "C_copied 7 ?b \<in> set evs"
    using reader_runs[OF ex_full_rep[of ex_intel], where api = intel_api and nmi = True and home = "\<lambda>_. 0" and r = 7]
    by (meson list.set_intros)
  show ?thesis
    by (intro exI[of _ evs] exI[of _ s] conjI s concurrent_accounts[OF ex_full_rep _ _ s(1)]) simp_all
qed





text \<open>
  C10: on Intel the sampling interrupt cannot be masked, and \<open>gatherSample\<close> takes the same locks as
  the reader it interrupts: with a full buffer to read, a reader on a processor without a current
  buffer can be interrupted while it holds the lock of the empty buffers; the handler then waits
  for that lock on the same processor, for ever, whatever everybody else does.
\<close>

theorem reader_nmi_deadlock:
  assumes "kmod_rep n m es (a # fs) {}" and "home r < n" and "lbuffer m (home r) = None"
  shows "\<exists>evs s. ctrace intel_api n True home (at_rest m) evs s \<and> C_popped r (content (k_heap m) a) \<in> set evs \<and>
     (\<forall>evs' s'. ctrace intel_api n True home s evs' s' \<longrightarrow> waits_for_itself home r s')"
  using nmi_waits[where api = intel_api and home = home, OF assms] waiting_trace by blast

theorem reader_nmi_deadlock_witness:
  "\<exists>evs s. ctrace intel_api 2 True (\<lambda>_. 1) (at_rest (ex_full ex_intel)) evs s \<and>
     C_popped 7 (content (k_heap (ex_full ex_intel)) 200) \<in> set evs \<and>
     (\<forall>evs' s'. ctrace intel_api 2 True (\<lambda>_. 1) s evs' s' \<longrightarrow> waits_for_itself (\<lambda>_. 1) 7 s')"
  by (rule reader_nmi_deadlock[OF ex_full_rep]) (simp_all add: ex_full_def kmod0_def)

text \<open>
  C11: on Intel a restart races with the sampling interrupt. \<open>startCtrs\<close> puts the processor's
  buffer on the list of empty buffers before it clears the pointer to it. If another processor needs
  a buffer in between and this one is interrupted, both use the same buffer: the sample of the
  restarting processor \<open>c\<close> is the only one in a buffer labelled with processor \<open>d\<close>, and both
  processors go on to write into it.
\<close>

theorem restart_shares_buffer:
  assumes "kmod_rep n m [] fs {}" and "c < n" "lbuffer m c = Some a" and "d < n" "lbuffer m d = None" "c \<noteq> d"
    and "intel_ok (arch m)"
  shows "\<exists>evs z x. ntrace intel_api n home (n_rest m) evs z \<and> C_sampled c x \<in> set evs \<and>
     lbuffer (c_mod (n_conc z)) c = Some a \<and> lbuffer (c_mod (n_conc z)) d = Some a \<and>
     filled (content (k_heap (c_mod (n_conc z))) a) = [x] \<and> b_core (content (k_heap (c_mod (n_conc z))) a) = of_nat d"
  using restart_race[OF assms(1-6) intel.pmu_arch_axioms assms(7), of home] unfolding same_buffer_def by blast

theorem restart_shares_buffer_witness:
  "\<exists>evs z x. ntrace intel_api 2 (\<lambda>_. 0) (n_rest (ex_current ex_intel)) evs z \<and> C_sampled 1 x \<in> set evs \<and>
     lbuffer (c_mod (n_conc z)) 1 = Some 300 \<and> lbuffer (c_mod (n_conc z)) 0 = Some 300 \<and>
     filled (content (k_heap (c_mod (n_conc z))) 300) = [x] \<and> b_core (content (k_heap (c_mod (n_conc z))) 300) = of_nat 0"
  by (rule restart_shares_buffer[OF ex_current_rep]) (simp_all add: ex_current_def kmod0_def)

section \<open>Sleeping readers\<close>

text \<open>
  C9: no wake-up is lost. In any session on Intel, of interrupts, reads, attribute writes and
  changes of the hardware, a reader that sleeps although there is a full buffer, or although the
  sampling has been stopped, has been woken since it fell asleep, and when it goes on its read
  returns.
\<close>

theorem sleeping_reader_returns:
  assumes "kmod_rep n m es fs {}" and "intel_ok (arch m)" and "n \<le> 2 ^ 32"
    and steps: "(wstep intel_api intel_irq intel_ok n)\<^sup>*\<^sup>* \<lparr>w_mod = m, asleep = (\<lambda>_. None)\<rparr> s"
    and "asleep s r \<noteq> None" and "bl_head (full_buffers (w_mod s)) \<noteq> None \<or> shutdown (w_mod s) = 2"
  shows "woken s r \<and> (\<exists>rc b m'. my_read_wait sig True (w_mod s) = Inr (Returned rc b, m'))"
proof -
  have "session_inv intel_ok n (w_mod \<lparr>w_mod = m, asleep = (\<lambda>_. None)\<rparr>) es fs"
    using assms(1-3) by (simp add: session_inv_def)
  from nmi_wait.sleeper_returns[OF steps this _ assms(5)] assms(6) show ?thesis by (simp add: something_to_read_def)
qed

theorem sleeping_reader_returns_witness:
  "\<exists>m. (wstep intel_api intel_irq intel_ok 2)\<^sup>*\<^sup>* \<lparr>w_mod = ex_loaded ex_intel, asleep = (\<lambda>_. None)\<rparr>
       \<lparr>w_mod = m, asleep = [7 \<mapsto> 0]\<rparr> \<and> shutdown m = 2 \<and> woken \<lparr>w_mod = m, asleep = [7 \<mapsto> 0]\<rparr> 7 \<and>
     (\<exists>rc b m'. my_read_wait False True m = Inr (Returned rc b, m'))"
proof -
  let ?m = "ex_loaded ex_intel" and ?step = "wstep intel_api intel_irq intel_ok 2"
  have "my_read 4096 False True ?m = Inr (Blocks, ?m)"
    by (simp add: my_read_def my_read_wait_none[OF ex_loaded_rep] BUFFER_SIZE_def)
  then have 1: "?step \<lparr>w_mod = ?m, asleep = (\<lambda>_. None)\<rparr> \<lparr>w_mod = ?m, asleep = [7 \<mapsto> 0]\<rparr>"
    using w_read[of "\<lparr>w_mod = ?m, asleep = (\<lambda>_. None)\<rparr>" 7 4096 False Blocks ?m intel_api intel_irq intel_ok 2]
    by (simp add: after_read_def ex_loaded_def kmod0_def Let_def)
  obtain m where m: "process_status_update intel_api 2 (?m\<lparr>status_attr := 0\<rparr>) = Inr m" "shutdown m = 2"
    using intel.status_off[of 2 "?m\<lparr>status_attr := 0\<rparr>" "[100]" "[]"] by auto
  have "default_store intel_api 2 ex_scanner Status_attr (ascii ''0'') 1 ?m = Inr (1, m)"
    using nmi.store_status[of "ascii ''0''" ex_scanner 0] m(1)
    by (simp add: ex_scanner_def ascii_def is_digit_def digit_value_def Let_def)
  then have 2: "?step \<lparr>w_mod = ?m, asleep = [7 \<mapsto> 0]\<rparr> \<lparr>w_mod = m, asleep = [7 \<mapsto> 0]\<rparr>"
    using w_attribute[of intel_api 2 ex_scanner Status_attr "ascii ''0''" 1 "\<lparr>w_mod = ?m, asleep = [7 \<mapsto> 0]\<rparr>"] by simp
  have "?step\<^sup>*\<^sup>* \<lparr>w_mod = ?m, asleep = (\<lambda>_. None)\<rparr> \<lparr>w_mod = m, asleep = [7 \<mapsto> 0]\<rparr>"
    using 1 2 by (meson rtranclp.rtrancl_refl rtranclp.rtrancl_into_rtrancl)
  with sleeping_reader_returns[OF ex_loaded_rep _ _ this, of 7 False] m(2) show ?thesis by auto
qed

text \<open>
  C8: the same at every access to shared state, for any architecture, maskable interrupts or not:
  when a reader sleeps and there is a full buffer on the list, the reader has been woken, or some
  handler is between putting the buffer on the list and calling \<open>wake_up_all\<close>.
\<close>

theorem no_lost_wakeup:
  assumes "ztrace api n nmi home (at_rest m, \<lambda>_. None) evs (s, sl)"
    and "sl r = Some w" and "bl_head (full_buffers (c_mod s)) \<noteq> None" and "\<forall>c. c_hand s c \<noteq> Appended"
  shows "w < wakes (c_mod s) \<and> ctrace api n nmi home (at_rest m) evs s"
  using sleeper_woken[OF assms(1,2)] ztrace_ctrace[OF assms(1)] assms(3,4) by (simp add: full_there_def about_to_wake_def)

theorem no_lost_wakeup_witness:
  "\<exists>evs s. ztrace intel_api 2 True (\<lambda>_. 0) (at_rest (ex_almost ex_intel), \<lambda>_. None) evs (s, [7 \<mapsto> 0]) \<and>
     bl_head (full_buffers (c_mod s)) \<noteq> None \<and> 0 < wakes (c_mod s) \<and>
     ctrace intel_api 2 True (\<lambda>_. 0) (at_rest (ex_almost ex_intel)) evs s"
proof -
  obtain evs s where s: "ztrace intel_api 2 True (\<lambda>_. 0) (at_rest (ex_almost ex_intel), \<lambda>_. None) evs (s, [7 \<mapsto> 0])"
    "full_there s" "\<not> about_to_wake s"
    using sleeper_run[OF intel.pmu_arch_axioms _ ex_almost_rep[of ex_intel], of 1 300 _ True "\<lambda>_. 0" 7]
    by (auto simp: BUFFER_ENTRIES_eq)
  from no_lost_wakeup[OF s(1), of 7 0] s show ?thesis by (auto simp: full_there_def about_to_wake_def)
qed

end
