(* ===== verification/Exercise.thy ===== *)
theory Exercise
  imports Printf
begin

text \<open>
  The two workloads that are sampled: hello.cpp, and the loop of exercise1.cpp with its reports.
  The loop never ends, so it is followed along the readings that gettimeofday returns, one for
  each turn. The arithmetic on the volatile float, which nothing reads, and the division into
  turns per second are left out: a report is the pair of the turns counted and the microseconds.
\<close>

definition hello_main :: "int \<times> bytes" where
  "hello_main = (0, ascii ''Hello, Android!'' @ newline)"

definition exercise_greeting :: "u32 \<Rightarrow> bytes" where
  "exercise_greeting pid = ascii ''['' @ dec (unat pid) @ ascii ''] Exercise is supposedly good for the body...'' @ newline"

record timeval =
  tv_sec :: u64
  tv_usec :: u64

definition microseconds :: "timeval \<Rightarrow> u64" where
  "microseconds t = tv_sec t * 1000000 + tv_usec t"

record exercise =
  last_report :: timeval
  turns :: u64
  reports :: "(u64 \<times> u64) list"

definition exercise_turn :: "timeval \<Rightarrow> exercise \<Rightarrow> exercise" where
  "exercise_turn now s =
     (let ctr = turns s + 1; d = microseconds now - microseconds (last_report s)
      in if 5000000 < d then \<lparr>last_report = now, turns = 0, reports = reports s @ [(ctr, d)]\<rparr>
         else s\<lparr>turns := ctr\<rparr>)"

definition exercise_run :: "timeval \<Rightarrow> timeval list \<Rightarrow> exercise" where
  "exercise_run start readings = fold exercise_turn readings \<lparr>last_report = start, turns = 0, reports = []\<rparr>"

section \<open>Every turn is reported once\<close>

text \<open>The turns reported and those counted since are all the turns of the loop.\<close>

lemma turns_counted:
  "sum_list (map fst (reports (fold exercise_turn readings s))) + turns (fold exercise_turn readings s) =
     sum_list (map fst (reports s)) + turns s + of_nat (length readings)"
  by (induction readings arbitrary: s) (simp_all add: exercise_turn_def Let_def)

lemma exercise_run_turns:
  "sum_list (map fst (reports (exercise_run start readings))) + turns (exercise_run start readings) = of_nat (length readings)"
  by (simp add: exercise_run_def turns_counted)

text \<open>The times of the reports add up to the time of the last one, also when the clock wraps.\<close>

lemma report_times:
  "sum_list (map snd (reports (fold exercise_turn readings s))) - microseconds (last_report (fold exercise_turn readings s)) =
     sum_list (map snd (reports s)) - microseconds (last_report s)"
  by (induction readings arbitrary: s) (simp_all add: exercise_turn_def Let_def)

lemma exercise_run_times:
  "sum_list (map snd (reports (exercise_run start readings))) =
     microseconds (last_report (exercise_run start readings)) - microseconds start"
  using report_times[of readings "\<lparr>last_report = start, turns = 0, reports = []\<rparr>"]
  by (simp add: exercise_run_def algebra_simps)

text \<open>Every report comes after more than five seconds, or after the clock has been set back.\<close>

lemma report_spacing:
  "\<forall>r \<in> set (reports s). 5000000 < snd r \<Longrightarrow> \<forall>r \<in> set (reports (fold exercise_turn readings s)). 5000000 < snd r"
proof (induction readings arbitrary: s)
  case (Cons now readings)
  have "\<forall>r \<in> set (reports (exercise_turn now s)). 5000000 < snd r"
    using Cons.prems by (auto simp: exercise_turn_def Let_def)
  from Cons.IH[OF this] show ?case by simp
qed simp

text \<open>A clock that is set back by any time up to 2 ^ 63 microseconds makes the next turn report at once.\<close>

lemma clock_set_back:
  assumes "microseconds now = microseconds (last_report s) - back" and "0 < back" and "back < 2 ^ 63"
  shows "reports (exercise_turn now s) = reports s @ [(turns s + 1, - back)]"
proof -
  have "microseconds now - microseconds (last_report s) = - back" using assms(1) by simp
  moreover have "(5000000 :: u64) < - back"
  proof -
    have "0 < uint back" "uint back < 2 ^ 63" using assms(2,3) by (simp_all add: word_less_alt)
    then have "uint (- back) = 2 ^ 64 - uint back"
      by (simp add: uint_word_ariths zmod_zminus1_eq_if)
    with \<open>uint back < 2 ^ 63\<close> show ?thesis by (simp add: word_less_alt)
  qed
  ultimately show ?thesis by (simp add: exercise_turn_def Let_def)
qed

end
