(* ===== verification/Spec2Isabelle.thy ===== *)
theory Spec2Isabelle
  imports User_Properties Kernel_Properties Exercise
begin

text \<open>
  A verification development of the synchronous performance counter sampler: a kernel module
  that takes a sample of the performance counters at every counter overflow, a program that
  reads the samples from the module's device and sends them over the network, and programs that
  read a recording of that stream.

  The parts of the program and how they interact.

  Kernel (src/module). An architecture (intel.c, or arm.c over v7_pmu.S) programs the counters of
  each processor and handles the overflow interrupt. The handler calls gatherSample of
  pmu_sync_sample_main.c, which writes a sample into the current buffer of its processor, taken
  from the list of empty buffers; a full buffer goes to the list of full buffers. my_read, the
  read operation of /dev/pmu_samples, takes a full buffer, copies it to the reader and puts it
  back on the list of empty buffers. The attributes under /sys/sync_pmu set the period and the
  counters and start and stop the sampling.

  User space (src/sender, src/reader). sender.cpp reads whole buffers from the device, looks up
  the processes of the samples (process_info.cpp), groups the samples into packets (packet.cpp)
  and sends the packets (network.cpp), after a description of the attributes. The stream is
  recorded in a file, which reader.cpp maps and decodes; its client is either text_reader.cpp,
  which prints, or splitter_reader.cpp, which sorts the samples into one file per process.
  textreader.cpp is an older program that prints the buffers of the device directly.

  The theories, in the order of their imports.

  Prelude: results that may be faults (\<open>fault + 'a\<close>), their sequencing, fallible folds over a
  loop's index, C strings. A fault stands for what the C code would do to memory it does not own,
  a null pointer, or a failed assertion; so a theorem that a call returns \<open>Inr\<close> says that no
  such thing happens.
  Byte_Order: htonl, ntohl and the four bytes of a word (packet.cpp).
  Sample_Buffer: the structures of sample_buffer.h and their sizes.
  Printf: the numbers printed by %u, %d, %lu and those read by atoi.
  Process_Info: process_info.cpp and process_info.h. The table is a partial map; /proc is the
  argument \<open>proc_fs\<close>.
  Packet, Packet_Write, Packet_Read: packet.cpp. The static variables of the file are the record
  \<open>packet_state\<close>; memory blocks are lists of bytes with every access checked against their end.
  Packet_Write proves what packet_append and packet_create do, Packet_Read models packet_read and
  proves the round trip, and what a packet becomes that the end of the file cuts off
  (\<open>cut_packet\<close>).
  Network, Network_Correct: network.cpp; the results of the system calls are the argument
  \<open>os_env\<close>, indexed by a clock so that every call may have its own answer.
  Sender, Sender_Correct: sender.cpp; the streams are consumed explicitly.
  Reader: reader.cpp, with the two functions a client defines (reader.hpp) as a record and the
  contract of a client as the locale \<open>reader_client_contract\<close>.
  Text_Reader, Splitter: the two clients, each with its interpretation of that contract.
  Splitter_Correct and Splitter_Run prove the splitter's invariant and its whole run.
  Pipeline: the stream of the sender, recorded, as the input of the readers.
  Legacy_Reader: textreader.cpp.
  Kernel_Blist: struct blist with append_blist and pop_blist over an explicit heap of buffers,
  and the queue they implement (locale \<open>buffer_queue\<close>).
  Kernel_Module: pmu_sync_sample_main.c over an architecture given as the record \<open>pmu_api\<close>
  (pmu_api.h). Kernel_Buffers, Kernel_Sampling, Kernel_Session, Kernel_Switch, Kernel_Lifecycle, Kernel_Run:
  the ownership invariant \<open>kmod_rep\<close> (every buffer is on exactly one list, in exactly one
  processor's hands or in transit), what an interrupt does to the samples, any sequence of
  interrupts, reads and attribute writes (\<open>ktrace\<close>), loading and unloading. They are proved for
  any architecture that keeps the locale \<open>pmu_arch\<close>.
  Intel, V7_Pmu, Arm: the architectures over their registers, with the interpretations \<open>intel\<close>
  and \<open>arm\<close> of \<open>pmu_arch\<close>. Register_Dump: what dump_regs prints.
  Kernel_Concurrent, Kernel_Interleaving, Kernel_Progress: gatherSample, startCtrs and my_read cut at
  every access to shared state, with the locks of the lists, and their interleavings (\<open>cstep\<close>): the
  invariant \<open>cinv\<close>, the refinement of an abstract module that has a queue of samples per processor
  (\<open>spec_step\<close>), the exclusion of the critical sections, and whether everybody comes to rest. A
  critical section is one step, which its lock justifies; the increment of the missed count, which
  the code does not protect, is one step too. Kernel_Restart: non-maskable interrupts in the middle of
  startCtrs.
  Kernel_Waiting: the wait queue of my_read in a session (\<open>wstep\<close>), with the contract of a handler
  that gives the readers something to read as the locale \<open>pmu_wait\<close>, interpreted in Intel and Arm.
  Kernel_Sleepers: sleeping readers under the interleavings (\<open>zstep\<close>, a restriction of \<open>cstep\<close>, where
  a reader may start again at any time).
  System_Run: a run of the module on Intel as the device of the sampling program.
  Exercise: the test workloads hello.cpp and exercise1.cpp.
  Examples: the concrete inputs of the witnesses. User_Properties, Kernel_Properties: properties
  of single components; this theory: properties that span components.

  What the lemmas show. Each operation is shown not to leave the objects it owns and to return,
  with its result on every branch. The components keep their invariants (\<open>packet_inv\<close>,
  \<open>table_inv\<close>, \<open>splitter_inv\<close>, \<open>kmod_rep\<close>). Encoding and decoding are inverse. Over the composed
  system every sample taken reaches the reader of the device once and in order, and every sample
  of the device reaches the file of its process. No wake-up is lost: \<open>wakes\<close> counts the calls of
  wake_up_all, and a reader that sleeps while there is something to read has missed none. Where the code does less than it means to, a
  theorem states what it does.

  Termination. Loops over lists and packets are total functions with measures (\<open>packet_loop\<close>: the
  bytes left, \<open>sample_loop\<close>: the reads left). Loops that end only under conditions on the state
  or the hardware are partial functions into \<open>option\<close>, or searches in a given sequence of register
  values: freeing a list (\<open>free_all\<close>) and waiting for the power controller. That they end is
  proved from the invariant, or stated as a hypothesis on the hardware. No fuel is used.

  Parameters. The operating system under the programs (sockets, files, /proc, attributes), sscanf
  inside default_store (\<open>scanner\<close>), allocation in init_module (\<open>init_env\<close>), the order in
  which a hash table is visited, uninitialised memory, and the changes of the hardware between two
  steps are arguments of the definitions.

  Not modelled. Messages on stderr and by printk, except the registers that dump_regs prints; the
  registration of the character device and its class; the inside of the wait queue and its lock
  (a reader falls asleep, or sees a wake-up, in one step); what the kernel's functions do to the clocks and the cross triggers
  (their calls are logged); prototypes and assembler directives; the floating point
  arithmetic of exercise1.cpp; build files and scripts.
\<close>

section \<open>From the device to the files\<close>



text \<open>
  C14: what the sampling program puts on the wire. With a network that accepts whole packets it
  exits with 0 and has sent the description of the attributes, a NUL, and then for every buffer
  of the device one batch of well-formed packets, the batches numbered from 1, and the last
  buffer once more; the count of missed samples it reports with a batch is always 0. With the
  option \<open>-k\<close> it stops behind the first batch with which more thousands of bytes are sent than
  the limit allows, and only there.
\<close>

theorem sender_stream:
  assumes "parse_args argv False 0 = Inr (dbg, k, host # port # extra)"
    and "connects (se_connect se host port)" and "attributes_exist (se_sysfs se)"
    and "device_ok se (map GotBuffer bs)" and "env_good (se_os se)"
  shows "\<exists>st pss. sender_main se argv = Inr (0, st) \<and>
     batches 1 (take (length pss) (bs @ [last (se_stack se # bs)])) (replicate (length pss) 0) pss \<and>
     wire (net st) = description (se_sysfs se) @ 0 # concat (map wire_bytes (concat pss)) \<and>
     length pss \<le> length bs + 1 \<and> (length pss < length bs + 1 \<longrightarrow> over_limit k (sent_bytes pss)) \<and>
     (\<forall>i. 0 < i \<and> i < length pss \<longrightarrow> \<not> over_limit k (sent_bytes (take i pss)))"
proof -
  obtain st pss where st: "sender_main se argv = Inr (0, st)"
    "batches 1 (take (length pss) (bs @ [last (se_stack se # bs)])) (replicate (length pss) 0) pss"
    "wire (net st) = description (se_sysfs se) @ 0 # concat (map wire_bytes (concat pss))"
    "limited k 0 (bs @ [last (se_stack se # bs)]) pss"
    using sender_main_batches[OF assms] .
  with limited_prefix[OF st(4)] show ?thesis by (intro exI[of _ st] exI[of _ pss]) simp
qed

theorem sender_stream_witness:
  "\<exists>st pss. sender_main ex_sampler (ascii ''-k'' # dec 5 # ex_args) = Inr (0, st) \<and>
     batches 1 (take (length pss) ([ex_buffer] @ [last (ex_buffer # [ex_buffer])])) (replicate (length pss) 0) pss \<and>
     wire (net st) = description ex_sysfs @ 0 # concat (map wire_bytes (concat pss)) \<and>
     length pss \<le> 2 \<and> (length pss < 2 \<longrightarrow> over_limit 5 (sent_bytes pss)) \<and>
     (\<forall>i. 0 < i \<and> i < length pss \<longrightarrow> \<not> over_limit 5 (sent_bytes (take i pss)))"
proof -
  have "parse_args (ascii ''-k'' # dec 5 # ex_args) False 0 = Inr (False, 5, [ascii ''host'', ascii ''7777''])"
    by (subst parse_limit) (simp_all add: ex_args_def ascii_def)
  from sender_stream[OF this, of ex_sampler "[ex_buffer]"] show ?thesis by (simp add: numeral_2_eq_2)
qed

text \<open>
  C15: the text reader on a recording of that stream prints the description and then every packet
  of every batch, with the samples as the wire carries them; together the packets hold the
  samples of the buffers sent, in order.
\<close>

theorem sampling_to_text:
  assumes "parse_args argv False 0 = Inr (dbg, k, host # port # extra)"
    and "connects (se_connect se host port)" and att: "attributes_exist (se_sysfs se)"
    and "device_ok se (map GotBuffer bs)" and "env_good (se_os se)" and out: "wf_out out"
  shows "\<exists>st j (ps :: wire_packet list). sender_main se argv = Inr (0, st) \<and>
     sends_first j (length bs + 1) k (description (se_sysfs se)) st \<and>
     concat (map wp_samples ps) = concat (map filled (take j (bs @ [last (se_stack se # bs)]))) \<and>
     (\<forall>pad fe. recorded (wire (net st)) pad fe \<longrightarrow>
        text_main [prog, fileName] fe out =
          Inr (0, ascii ''-- Description --'' @ newline @ description (se_sysfs se) @ newline @ ascii ''-----------'' @ newline @
            concat (map (\<lambda>p. render_packet (wp_header p) (wp_cmdline p) (wp_exe p)
                               (map (wire_sample (h_pid (wp_header p))) (wp_samples p))) ps)))"
proof -
  let ?bs = "bs @ [last (se_stack se # bs)]"
  obtain st pss where st: "sender_main se argv = Inr (0, st)"
    "batches 1 (take (length pss) ?bs) (replicate (length pss) 0) pss"
    "wire (net st) = description (se_sysfs se) @ 0 # concat (map wire_bytes (concat pss))"
    "sends_first (length pss) (length ?bs) k (description (se_sysfs se)) st"
    using sender_main_batches[OF assms(1-5)] .
  have wf: "\<forall>p \<in> set (concat pss). wf_packet p" using batches_wf[OF st(2)] by blast
  have "text_main [prog, fileName] fe out =
      Inr (0, ascii ''-- Description --'' @ newline @ description (se_sysfs se) @ newline @ ascii ''-----------'' @ newline @
        concat (map (\<lambda>p. render_packet (wp_header p) (wp_cmdline p) (wp_exe p)
                           (map (wire_sample (h_pid (wp_header p))) (wp_samples p))) (concat pss)))"
    if "recorded (wire (net st)) pad fe" for pad fe
    using that text_main_recorded[OF _ send_header_ok(1)[OF att] wf out] unfolding st(3) recorded_recording by blast
  with st(1,4) batches_samples[OF st(2)] show ?thesis
    by (intro exI[of _ st] exI[of _ "length pss"] exI[of _ "concat pss"] conjI allI impI) simp_all
qed

theorem sampling_to_text_witness:
  "\<exists>st j (ps :: wire_packet list). sender_main ex_sampler ex_args = Inr (0, st) \<and>
     sends_first j 2 0 (description ex_sysfs) st \<and>
     concat (map wp_samples ps) = concat (map filled (take j ([ex_buffer] @ [last (ex_buffer # [ex_buffer])]))) \<and>
     (\<forall>pad fe. recorded (wire (net st)) pad fe \<longrightarrow>
        text_main [ascii ''reader'', ascii ''samples''] fe ex_out =
          Inr (0, ascii ''-- Description --'' @ newline @ description ex_sysfs @ newline @ ascii ''-----------'' @ newline @
            concat (map (\<lambda>p. render_packet (wp_header p) (wp_cmdline p) (wp_exe p)
                               (map (wire_sample (h_pid (wp_header p))) (wp_samples p))) ps)))"
  using sampling_to_text[of ex_args False 0 "ascii ''host''" "ascii ''7777''" "[]" ex_sampler "[ex_buffer]" ex_out
      "ascii ''reader''" "ascii ''samples''"] unfolding ex_sampler_simps by (simp add: numeral_2_eq_2)

section \<open>From the interrupts to the reader\<close>







text \<open>
  C21: progress. In any state the module can be in on Intel processors, an interrupt on any
  processor, a read with any arguments and a write of any text to any attribute return without
  touching memory they do not own.
\<close>

theorem intel_module_safe:
  assumes "kmod_rep n m es fs {}" and "intel_ok (arch m)" and "n \<le> 2 ^ 32"
  shows "(\<forall>c < n. \<exists>m'. my_nmi_handler c pid m = Inr m') \<and> (\<exists>r. my_read count sig copy_ok m = Inr r) \<and>
     (\<exists>m'. default_store intel_api n sc a buf len m = Inr (len, m'))"
proof -
  have "session_inv intel_ok n m es fs" using assms by (simp add: session_inv_def)
  from nmi.session_safe[OF this] show ?thesis by (simp add: intel_irq_def)
qed

theorem intel_module_safe_witness:
  "(\<exists>m'. my_nmi_handler 1 42 (ex_full ex_intel) = Inr m') \<and> (\<exists>r. my_read 4096 False True (ex_full ex_intel) = Inr r) \<and>
     (\<exists>m'. default_store intel_api 2 ex_scanner Status_attr (ascii ''1'') 1 (ex_full ex_intel) = Inr (1, m'))"
  using intel_module_safe[of 2 "ex_full ex_intel" "[]" "[200]" 42 4096 False True ex_scanner Status_attr "ascii ''1''" 1] by simp

end
